(* ===== verification/Broker_Prelude.thy ===== *)
theory Broker_Prelude
  imports Main "HOL-Library.Monad_Syntax"
begin

text \<open>
  Shared ground of the development: the vocabulary of the Go runtime that several packages of
  the broker use (durations, channels, contexts), generic lemmas on lists, and the two contracts
  every component with state is checked against: an event system whose runs keep an invariant and
  a step relation whose reachable states keep one.
\<close>

named_theorems broker_defs \<open>definitions unfolded by the component proofs\<close>
named_theorems broker_inv \<open>invariant facts the component proofs share\<close>

section \<open>Time\<close>

text \<open>
  A \<^verbatim>\<open>time.Duration\<close> counts nanoseconds in an int64. Every duration the broker adds or compares
  is far below the width, so durations and instants are integers here; the two places where the
  width shows (\<^verbatim>\<open>math.MaxInt64\<close> and the saturation of \<^verbatim>\<open>Duration.Round\<close>) write it out.
\<close>

type_synonym duration = int
type_synonym instant = int

definition nanosecond :: duration where "nanosecond = 1"
definition millisecond :: duration where "millisecond = 1000000"
definition second :: duration where "second = 1000000000"
definition maxInt64 :: int where "maxInt64 = 9223372036854775807"

lemmas time_units = nanosecond_def millisecond_def second_def maxInt64_def

text \<open>Go's integer division and remainder truncate towards zero.\<close>

definition go_div :: "int \<Rightarrow> int \<Rightarrow> int" where
  "go_div a b = sgn a * sgn b * (\<bar>a\<bar> div \<bar>b\<bar>)"

definition go_rem :: "int \<Rightarrow> int \<Rightarrow> int" where
  "go_rem a b = a - b * go_div a b"

text \<open>\<^verbatim>\<open>Duration.Milliseconds\<close>.\<close>

definition milliseconds :: "duration \<Rightarrow> int" where
  "milliseconds d = go_div d millisecond"

text \<open>
  \<^verbatim>\<open>Duration.Round(m)\<close>: to the nearest multiple of \<open>m\<close>, halves away from zero, saturating at the
  ends of int64; \<open>d\<close> itself when \<open>m \<le> 0\<close>.
\<close>

definition go_round :: "duration \<Rightarrow> duration \<Rightarrow> duration" where
  "go_round d m =
     (if m \<le> 0 then d
      else let r = go_rem d m in
        if d < 0 then
          (let r' = - r in
           if r' + r' < m then d + r'
           else if d - m + r' \<ge> - maxInt64 - 1 then d - m + r' else - maxInt64 - 1)
        else if r + r < m then d - r
        else if d + m - r \<le> maxInt64 then d + m - r else maxInt64)"

lemma go_div_nonneg: "0 \<le> a \<Longrightarrow> 0 < b \<Longrightarrow> go_div a b = a div b"
  by (cases "a = 0") (simp_all add: go_div_def)

lemma go_div_nonneg_ge: "0 \<le> a \<Longrightarrow> 0 < b \<Longrightarrow> 0 \<le> go_div a b"
  by (simp add: go_div_nonneg pos_imp_zdiv_nonneg_iff)

section \<open>Strings and numbers\<close>

text \<open>\<^verbatim>\<open>strconv.Itoa\<close> and \<^verbatim>\<open>strconv.FormatInt(_, 10)\<close>.\<close>

definition digit :: "nat \<Rightarrow> char" where "digit d = char_of (48 + d)"

fun nat_str :: "nat \<Rightarrow> string" where
  "nat_str n = (if n < 10 then [digit n] else nat_str (n div 10) @ [digit (n mod 10)])"

declare nat_str.simps [simp del]

definition itoa :: "int \<Rightarrow> string" where
  "itoa i = (if i < 0 then CHR ''-'' # nat_str (nat (- i)) else nat_str (nat i))"

definition newline :: char where "newline = CHR 0x0A"

text \<open>
  \<^verbatim>\<open>Duration.String\<close>: the fraction without trailing zeros, the largest fitting unit below a second,
  hours, minutes and seconds above it. \<open>fmtFrac v prec\<close> returns the fraction and the integral rest.
\<close>

fun fmtFrac_digits :: "nat \<Rightarrow> nat \<Rightarrow> bool \<Rightarrow> string \<Rightarrow> string \<times> nat" where
  "fmtFrac_digits v 0 print acc = ((if print then CHR ''.'' # acc else acc), v)"
| "fmtFrac_digits v (Suc prec) print acc =
     (let d = v mod 10; print' = (print \<or> d \<noteq> 0)
      in fmtFrac_digits (v div 10) prec print' (if print' then digit d # acc else acc))"

definition fmtFrac :: "nat \<Rightarrow> nat \<Rightarrow> string \<times> nat" where
  "fmtFrac v prec = fmtFrac_digits v prec False []"

definition micro_sign :: string where "micro_sign = [CHR 0xC2, CHR 0xB5]"

definition duration_abs_str :: "nat \<Rightarrow> string" where
  "duration_abs_str u =
     (if u = 0 then ''0s''
      else if u < 1000 then nat_str u @ ''ns''
      else if u < 1000000 then (case fmtFrac u 3 of (f, v) \<Rightarrow> nat_str v @ f @ micro_sign @ ''s'')
      else if u < 1000000000 then (case fmtFrac u 6 of (f, v) \<Rightarrow> nat_str v @ f @ ''ms'')
      else (case fmtFrac u 9 of (f, v) \<Rightarrow>
        (let sec = nat_str (v mod 60) @ f @ ''s''; m = v div 60 in
         if m = 0 then sec
         else let mins = nat_str (m mod 60) @ ''m'' @ sec; h = m div 60 in
           if h = 0 then mins else nat_str h @ ''h'' @ mins)))"

definition duration_String :: "duration \<Rightarrow> string" where
  "duration_String d = (if d < 0 then CHR ''-'' # duration_abs_str (nat (- d)) else duration_abs_str (nat d))"

text \<open>A header map: \<^verbatim>\<open>Header().Set\<close> replaces, \<^verbatim>\<open>Header().Get\<close> of a missing key is empty.\<close>

type_synonym header = "string \<rightharpoonup> string"

text \<open>
  A response under construction: its headers, the status once written, the body so far. The first
  write of a status wins; a body write without one commits 200.
\<close>

record response =
  hdrs :: header
  status :: "int option"
  body :: string

definition empty_response :: response where
  "empty_response = \<lparr>hdrs = Map.empty, status = None, body = []\<rparr>"

definition set_header :: "string \<Rightarrow> string \<Rightarrow> response \<Rightarrow> response" where
  "set_header k v w = w\<lparr>hdrs := (hdrs w)(k \<mapsto> v)\<rparr>"

definition del_header :: "string \<Rightarrow> response \<Rightarrow> response" where
  "del_header k w = w\<lparr>hdrs := (hdrs w)(k := None)\<rparr>"

definition write_status :: "int \<Rightarrow> response \<Rightarrow> response" where
  "write_status code w = (case status w of None \<Rightarrow> w\<lparr>status := Some code\<rparr> | Some _ \<Rightarrow> w)"

definition write_body :: "string \<Rightarrow> response \<Rightarrow> response" where
  "write_body b w = (let w' = write_status 200 w in w'\<lparr>body := body w' @ b\<rparr>)"

text \<open>\<^verbatim>\<open>http.Error\<close>.\<close>

definition http_Error :: "response \<Rightarrow> string \<Rightarrow> int \<Rightarrow> response" where
  "http_Error w msg code =
     write_body (msg @ [newline]) (write_status code
       (set_header ''X-Content-Type-Options'' ''nosniff''
       (set_header ''Content-Type'' ''text/plain; charset=utf-8''
       (del_header ''Content-Length'' w))))"

lemmas response_defs = set_header_def del_header_def write_status_def write_body_def http_Error_def
  empty_response_def

text \<open>What \<^verbatim>\<open>ctx.Err()\<close> of a context that is done returns.\<close>

datatype ctx_err = Canceled | DeadlineExceeded

text \<open>
  An error value: what \<^verbatim>\<open>errors.Is\<close> finds in its chain, and its text.
\<close>

datatype sentinel = IoEOF | IoUnexpectedEOF | CtxErr ctx_err | OtherErr

record goerr =
  e_chain :: "sentinel list"
  e_text :: string

definition errors_Is :: "goerr \<Rightarrow> sentinel \<Rightarrow> bool" where
  "errors_Is e s \<longleftrightarrow> s \<in> set (e_chain e)"

text \<open>\<^verbatim>\<open>fmt.Errorf\<close> with \<^verbatim>\<open>%w\<close> keeps the chain; \<^verbatim>\<open>errors.New\<close> and \<^verbatim>\<open>fmt.Errorf\<close> without it start a new one.\<close>

definition wrap_err :: "string \<Rightarrow> goerr \<Rightarrow> goerr" where
  "wrap_err pre e = \<lparr>e_chain = OtherErr # e_chain e, e_text = pre @ e_text e\<rparr>"

definition new_err :: "string \<Rightarrow> goerr" where
  "new_err msg = \<lparr>e_chain = [OtherErr], e_text = msg\<rparr>"

definition ctx_error :: "ctx_err \<Rightarrow> goerr" where
  "ctx_error c = \<lparr>e_chain = [CtxErr c],
     e_text = (case c of Canceled \<Rightarrow> ''context canceled'' | DeadlineExceeded \<Rightarrow> ''context deadline exceeded'')\<rparr>"

text \<open>\<^verbatim>\<open>strings.HasPrefix\<close> and \<^verbatim>\<open>strings.Contains\<close>.\<close>

definition HasPrefix :: "string \<Rightarrow> string \<Rightarrow> bool" where
  "HasPrefix s p \<longleftrightarrow> take (length p) s = p"

fun Contains :: "string \<Rightarrow> string \<Rightarrow> bool" where
  "Contains [] p \<longleftrightarrow> p = []"
| "Contains (c # s) p \<longleftrightarrow> HasPrefix (c # s) p \<or> Contains s p"

text \<open>
  \<^verbatim>\<open>strings.TrimSpace\<close>: the UTF-8 encodings of Unicode's white space are cut off at both ends. A byte
  string ends in such a character exactly when it has the encoding as a suffix.
\<close>

definition space_encs :: "string list" where
  "space_encs =
     [[CHR 0x09], [CHR 0x0A], [CHR 0x0B], [CHR 0x0C], [CHR 0x0D], [CHR 0x20],
      [CHR 0xC2, CHR 0x85], [CHR 0xC2, CHR 0xA0], [CHR 0xE1, CHR 0x9A, CHR 0x80],
      [CHR 0xE2, CHR 0x80, CHR 0x80], [CHR 0xE2, CHR 0x80, CHR 0x81], [CHR 0xE2, CHR 0x80, CHR 0x82],
      [CHR 0xE2, CHR 0x80, CHR 0x83], [CHR 0xE2, CHR 0x80, CHR 0x84], [CHR 0xE2, CHR 0x80, CHR 0x85],
      [CHR 0xE2, CHR 0x80, CHR 0x86], [CHR 0xE2, CHR 0x80, CHR 0x87], [CHR 0xE2, CHR 0x80, CHR 0x88],
      [CHR 0xE2, CHR 0x80, CHR 0x89], [CHR 0xE2, CHR 0x80, CHR 0x8A], [CHR 0xE2, CHR 0x80, CHR 0xA8],
      [CHR 0xE2, CHR 0x80, CHR 0xA9], [CHR 0xE2, CHR 0x80, CHR 0xAF], [CHR 0xE2, CHR 0x81, CHR 0x9F],
      [CHR 0xE3, CHR 0x80, CHR 0x80]]"

fun trim_with :: "string list \<Rightarrow> string \<Rightarrow> string" where
  "trim_with encs [] = []"
| "trim_with encs (c # cs) =
     (case find (HasPrefix (c # cs)) encs of None \<Rightarrow> c # cs | Some e \<Rightarrow> trim_with encs (drop (length e - 1) cs))"

definition TrimSpace :: "string \<Rightarrow> string" where
  "TrimSpace s = rev (trim_with (map rev space_encs) (rev (trim_with space_encs s)))"

fun split_on :: "char \<Rightarrow> string \<Rightarrow> string list" where
  "split_on d [] = [[]]"
| "split_on d (c # cs) =
     (if c = d then [] # split_on d cs
      else case split_on d cs of [] \<Rightarrow> [[c]] | p # ps \<Rightarrow> (c # p) # ps)"

lemma split_on_not_Nil: "split_on d s \<noteq> []"
  by (induction s) (auto split: list.splits)

lemma split_on_append: "d \<notin> set l \<Longrightarrow> split_on d (l @ d # s) = l # split_on d s"
  by (induction l) auto

text \<open>Nothing is trimmed between two printable ASCII characters.\<close>

definition graphic :: "char \<Rightarrow> bool" where
  "graphic c \<longleftrightarrow> list_all (\<lambda>e. c \<notin> set e) space_encs"

lemma trim_with_graphic:
  assumes "\<forall>e\<in>set encs. e \<noteq> [] \<and> c \<notin> set e"
  shows "trim_with encs (c # s) = c # s"
proof -
  have "find (HasPrefix (c # s)) encs = None"
    unfolding find_None_iff HasPrefix_def
  proof (intro notI)
    assume "\<exists>e. e \<in> set encs \<and> take (length e) (c # s) = e"
    then obtain e where e: "e \<in> set encs" "take (length e) (c # s) = e" by blast
    from e(1) assms obtain d e' where "e = d # e'" "c \<noteq> d" by (metis list.exhaust list.set_intros(1))
    then show False using e(2) by simp
  qed
  then show ?thesis by simp
qed

lemma TrimSpace_graphic:
  assumes "graphic c" and "graphic c'"
  shows "TrimSpace (c # s @ [c']) = c # s @ [c']"
proof -
  have ne: "[] \<notin> set space_encs" by (simp add: space_encs_def)
  have "trim_with space_encs (c # s @ [c']) = c # s @ [c']"
    by (rule trim_with_graphic) (use assms(1) ne in \<open>auto simp: graphic_def list_all_iff\<close>)
  moreover have "trim_with (map rev space_encs) (c' # rev s @ [c]) = c' # rev s @ [c]"
    by (rule trim_with_graphic) (use assms(2) ne in \<open>auto simp: graphic_def list_all_iff\<close>)
  ultimately show ?thesis by (simp add: TrimSpace_def)
qed

section \<open>Channels\<close>

text \<open>
  The broker uses channels of empty structs as one-shot signals: \<^verbatim>\<open>make\<close> allocates one, \<^verbatim>\<open>close\<close>
  fires it, a receive is ready once it is closed. A channel is an address; the heap records the
  next free address and the closed ones. Closing a closed channel panics, which is \<open>None\<close>.
\<close>

type_synonym chan = nat

record heap =
  nextc :: chan
  closedc :: "chan set"

definition make_chan :: "heap \<Rightarrow> chan \<times> heap" where
  "make_chan h = (nextc h, h\<lparr>nextc := Suc (nextc h)\<rparr>)"

definition close_chan :: "chan \<Rightarrow> heap \<Rightarrow> heap option" where
  "close_chan c h = (if c \<in> closedc h then None else Some (h\<lparr>closedc := insert c (closedc h)\<rparr>))"

fun close_all :: "chan list \<Rightarrow> heap \<Rightarrow> heap option" where
  "close_all [] h = Some h"
| "close_all (c # cs) h = (case close_chan c h of None \<Rightarrow> None | Some h' \<Rightarrow> close_all cs h')"

definition heap_ok :: "heap \<Rightarrow> bool" where
  "heap_ok h \<longleftrightarrow> (\<forall>c\<in>closedc h. c < nextc h)"

definition empty_heap :: heap where
  "empty_heap = \<lparr>nextc = 0, closedc = {}\<rparr>"

lemma close_chan_Some_iff:
  "close_chan c h = Some h' \<longleftrightarrow> c \<notin> closedc h \<and> h' = h\<lparr>closedc := insert c (closedc h)\<rparr>"
  by (auto simp: close_chan_def)

lemma close_all_closed:
  assumes "distinct cs" and "\<forall>c\<in>set cs. c \<notin> closedc h"
  shows "close_all cs h = Some (h\<lparr>closedc := closedc h \<union> set cs\<rparr>)"
  using assms
proof (induction cs arbitrary: h)
  case Nil
  then show ?case by simp
next
  case (Cons c cs)
  then have "close_all cs (h\<lparr>closedc := insert c (closedc h)\<rparr>)
      = Some (h\<lparr>closedc := insert c (closedc h) \<union> set cs\<rparr>)"
    by (subst Cons.IH) auto
  with Cons.prems show ?case by (simp add: close_chan_def)
qed

section \<open>Removing one element by a linear scan\<close>

text \<open>
  The idiom \<^verbatim>\<open>for i, c := range q { if c == w { copy(q[i:], q[i+1:]); q = q[:len(q)-1]; return true } }\<close>
  of \<^verbatim>\<open>Scheduler.removeWaiter\<close> and \<^verbatim>\<open>parker.remove\<close>: the first match is spliced out.
\<close>

fun index_of :: "'a \<Rightarrow> 'a list \<Rightarrow> nat option" where
  "index_of w [] = None"
| "index_of w (c # cs) = (if c = w then Some 0 else map_option Suc (index_of w cs))"

definition splice_out :: "nat \<Rightarrow> 'a list \<Rightarrow> 'a list" where
  "splice_out i xs = take i xs @ drop (Suc i) xs"

definition scan_remove :: "'a \<Rightarrow> 'a list \<Rightarrow> bool \<times> 'a list" where
  "scan_remove w xs =
     (case index_of w xs of None \<Rightarrow> (False, xs) | Some i \<Rightarrow> (True, splice_out i xs))"

lemma index_of_None_iff: "index_of w xs = None \<longleftrightarrow> w \<notin> set xs"
  by (induction xs) auto

lemma splice_out_index_of: "index_of w xs = Some i \<Longrightarrow> splice_out i xs = remove1 w xs"
  by (induction xs arbitrary: i) (auto simp: splice_out_def split: if_splits)

text \<open>The scan is the library's \<^term>\<open>remove1\<close>, and it says whether it found anything.\<close>

lemma scan_remove_eq: "scan_remove w xs = (w \<in> set xs, remove1 w xs)"
proof (cases "index_of w xs")
  case None
  then have "w \<notin> set xs" by (simp add: index_of_None_iff)
  with None show ?thesis by (simp add: scan_remove_def remove1_idem)
next
  case (Some i)
  then have "w \<in> set xs" by (metis index_of_None_iff option.distinct(1))
  with Some show ?thesis by (simp add: scan_remove_def splice_out_index_of)
qed

section \<open>Event systems and step relations\<close>

text \<open>
  A component under an unknown scheduler is a partial function from an event and a state to the
  next state, \<open>None\<close> when the event cannot happen there. A run is a list of events.
\<close>

fun run_events :: "('e \<Rightarrow> 's \<Rightarrow> 's option) \<Rightarrow> 'e list \<Rightarrow> 's \<Rightarrow> 's option" where
  "run_events ex [] s = Some s"
| "run_events ex (e # es) s = (case ex e s of None \<Rightarrow> None | Some s' \<Rightarrow> run_events ex es s')"

lemma run_events_append:
  "run_events ex (es @ fs) s =
     (case run_events ex es s of None \<Rightarrow> None | Some s' \<Rightarrow> run_events ex fs s')"
  by (induction es arbitrary: s) (auto split: option.splits)

lemma run_snoc: "run_events ex es s = Some s1 \<Longrightarrow> ex e s1 = Some s2 \<Longrightarrow> run_events ex (es @ [e]) s = Some s2"
  by (simp add: run_events_append)

lemma run_events_ConsE:
  assumes "run_events ex (e # es) s = Some s'"
  obtains u where "ex e s = Some u" "run_events ex es u = Some s'"
  using assms by (auto split: option.splits)

text \<open>
  What a nondeterministic step relation promises: its invariant holds at the start and every step keeps
  it, so it holds in every reachable state.
\<close>

inductive reach :: "('s \<Rightarrow> bool) \<Rightarrow> ('s \<Rightarrow> 's \<Rightarrow> bool) \<Rightarrow> 's \<Rightarrow> bool"
  for start :: "'s \<Rightarrow> bool" and step :: "'s \<Rightarrow> 's \<Rightarrow> bool" where
  reach_start: "start s \<Longrightarrow> reach start step s"
| reach_step: "reach start step s \<Longrightarrow> step s t \<Longrightarrow> reach start step t"

lemma relpowp_reach: "start s \<Longrightarrow> (step ^^ k) s t \<Longrightarrow> reach start step t"
  by (induction k arbitrary: t) (auto intro: reach.intros)

locale step_system =
  fixes start :: "'s \<Rightarrow> bool"
    and step :: "'s \<Rightarrow> 's \<Rightarrow> bool"
    and inv :: "'s \<Rightarrow> bool"
  assumes start_inv: "start s \<Longrightarrow> inv s"
    and step_inv: "inv s \<Longrightarrow> step s t \<Longrightarrow> inv t"
begin

lemma reach_inv: "reach start step s \<Longrightarrow> inv s"
  by (induction rule: reach.induct) (auto intro: start_inv step_inv)

end

text \<open>
  The same contract for events that are guarded partial updates. Forgetting which event it was gives a
  step relation, whose reachable states are the ends of the runs.
\<close>

locale event_system =
  fixes exec :: "'e \<Rightarrow> 's \<Rightarrow> 's option"
    and start :: "'s \<Rightarrow> bool"
    and inv :: "'s \<Rightarrow> bool"
  assumes start_inv: "start s \<Longrightarrow> inv s"
    and exec_inv: "inv s \<Longrightarrow> exec e s = Some s' \<Longrightarrow> inv s'"
begin

lemma run_from_inv: "inv s \<Longrightarrow> run_events exec es s = Some s' \<Longrightarrow> inv s'"
  by (induction es arbitrary: s) (auto split: option.splits dest: exec_inv)

end

lemma run_reach:
  assumes "start s" and "run_events ex es s = Some s'"
  shows "reach start (\<lambda>s t. \<exists>e. ex e s = Some t) s'"
  using assms(2)
proof (induction es arbitrary: s' rule: rev_induct)
  case Nil
  then show ?case using assms(1) by (simp add: reach_start)
next
  case (snoc e es)
  then obtain s1 where s1: "run_events ex es s = Some s1" "ex e s1 = Some s'"
    by (auto simp: run_events_append split: option.splits)
  then show ?case using reach_step [OF snoc.IH [OF s1(1)]] by blast
qed

sublocale event_system \<subseteq> steps: step_system start "\<lambda>s t. \<exists>e. exec e s = Some t" inv
  by unfold_locales (auto intro: start_inv exec_inv)

context event_system
begin

lemma run_inv: "start s \<Longrightarrow> run_events exec es s = Some s' \<Longrightarrow> inv s'"
  by (rule steps.reach_inv [OF run_reach])

end

end
