(* ===== verification/Config_Load.thy ===== *)
theory Config_Load
  imports Broker_Prelude
begin

text \<open>
  \<^verbatim>\<open>internal/config/config.go\<close>: reading the configuration from the environment. The environment is a map
  from names to values; \<^verbatim>\<open>url.Parse\<close> and \<^verbatim>\<open>time.ParseDuration\<close> are the arguments \<open>pu\<close> and \<open>pd\<close>, of which
  nothing is assumed. The first error of the source's order is the result.
\<close>

section \<open>Library functions\<close>

record URL =
  u_Scheme :: string
  u_Host :: string
  u_String :: string

type_synonym environ = "string \<rightharpoonup> string"
type_synonym url_parser = "string \<Rightarrow> URL option"
type_synonym dur_parser = "string \<Rightarrow> duration option"

definition has_crlf :: "string \<Rightarrow> bool" where
  "has_crlf s \<longleftrightarrow> list_ex (\<lambda>c. c = CHR 0x0D \<or> c = CHR 0x0A) s"

text \<open>\<^verbatim>\<open>strconv.Atoi\<close>: an optional sign, at least one digit, and a value that fits an int64.\<close>

definition is_digit :: "char \<Rightarrow> bool" where
  "is_digit c \<longleftrightarrow> (48 :: nat) \<le> of_char c \<and> of_char c \<le> (57 :: nat)"

definition digits_val :: "string \<Rightarrow> int" where
  "digits_val s = foldl (\<lambda>n c. 10 * n + (int (of_char c :: nat) - 48)) 0 s"

definition Atoi :: "string \<Rightarrow> int option" where
  "Atoi s =
     (let (neg, ds) = (case s of
            c # cs \<Rightarrow> (if c = CHR ''-'' then (True, cs) else if c = CHR ''+'' then (False, cs) else (False, s))
          | [] \<Rightarrow> (False, []));
          v = (if neg then - digits_val ds else digits_val ds)
      in if ds = [] \<or> \<not> list_all is_digit ds \<or> v > maxInt64 \<or> v < - maxInt64 - 1 then None else Some v)"

section \<open>Errors and lookups\<close>

datatype cfg_err =
    BadBackend string string
  | BadURL string
  | NoSchemeHost string
  | ControlChars string
  | BadInt string
  | BelowOne string int
  | BadDuration string
  | NegativeIdle string
  | IdleNoUnit string
  | TooManyRoutes nat
  | RouteGap nat nat
  | EmptyModel nat
  | RepeatedModel nat string
  | ModelTwice string nat nat
  | DupURL nat string
  | DupUnit nat string
  | BadLane nat string

definition bindE :: "'e + 'a \<Rightarrow> ('a \<Rightarrow> 'e + 'b) \<Rightarrow> 'e + 'b" where
  "bindE x f = (case x of Inl e \<Rightarrow> Inl e | Inr v \<Rightarrow> f v)"

definition guardE :: "bool \<Rightarrow> 'e \<Rightarrow> 'e + unit" where
  "guardE ok e = (if ok then Inr () else Inl e)"

definition getenv :: "environ \<Rightarrow> string \<Rightarrow> string \<Rightarrow> string" where
  "getenv env key def = (case env key of Some v \<Rightarrow> (if v \<noteq> [] then v else def) | None \<Rightarrow> def)"

definition getint :: "environ \<Rightarrow> string \<Rightarrow> int \<Rightarrow> cfg_err + int" where
  "getint env key def =
     (case env key of
        None \<Rightarrow> Inr def
      | Some v \<Rightarrow>
          (if v = [] then Inr def
           else case Atoi v of
             None \<Rightarrow> Inl (BadInt key)
           | Some n \<Rightarrow> (if n < 1 then Inl (BelowOne key n) else Inr n)))"

definition getdur :: "dur_parser \<Rightarrow> environ \<Rightarrow> string \<Rightarrow> duration \<Rightarrow> cfg_err + duration" where
  "getdur pd env key def =
     (case env key of
        None \<Rightarrow> Inr def
      | Some v \<Rightarrow> (if v = [] then Inr def else case pd v of None \<Rightarrow> Inl (BadDuration key) | Some d \<Rightarrow> Inr d))"

definition getdurWarn :: "dur_parser \<Rightarrow> environ \<Rightarrow> string \<Rightarrow> duration \<Rightarrow> duration" where
  "getdurWarn pd env key def =
     (case env key of
        None \<Rightarrow> def
      | Some v \<Rightarrow> (if v = [] then def else case pd v of None \<Rightarrow> def | Some d \<Rightarrow> (if d \<le> 0 then def else d)))"

definition getintMin :: "environ \<Rightarrow> string \<Rightarrow> int \<Rightarrow> int \<Rightarrow> int" where
  "getintMin env key def mn =
     (case env key of
        None \<Rightarrow> def
      | Some v \<Rightarrow> (if v = [] then def else case Atoi v of None \<Rightarrow> def | Some n \<Rightarrow> (if n < mn then def else n)))"

definition parseBaseURL :: "url_parser \<Rightarrow> string \<Rightarrow> string \<Rightarrow> cfg_err + URL" where
  "parseBaseURL pu key raw =
     (case pu raw of
        None \<Rightarrow> Inl (BadURL key)
      | Some u \<Rightarrow> (if u_Scheme u = [] \<or> u_Host u = [] then Inl (NoSchemeHost key) else Inr u))"

section \<open>Configuration\<close>

record RouteBackend =
  rb_Models :: "string list"
  rb_Backend :: string
  rb_URL :: URL
  rb_APIKey :: string
  rb_UnitName :: string
  rb_IdleTimeout :: duration
  rb_Lane :: string

record Config =
  UpstreamBackend :: string
  OllamaURL :: "URL option"
  UpstreamURL :: "URL option"
  UpstreamAPIKey :: string
  UpstreamUnitName :: string
  InfinityURL :: "URL option"
  InteractiveWait :: duration
  BatchWait :: duration
  EmbedTimeout :: duration
  DetectInterval :: duration
  UpstreamIdleTimeout :: duration
  YieldConfirmPolls :: int
  MaxWaiters :: int
  MaxInflight :: int
  BatchQuantum :: duration
  JobMaxAttempts :: int
  JobPruneInterval :: duration
  JobFetchedGrace :: duration
  JobHardCap :: duration
  TdarrGPUWorkers :: int
  ParkHold :: duration
  ParkMaxQueue :: int
  ParkDrainBurst :: int
  cf_Routes :: "RouteBackend list"
  InteractiveAddr :: string
  BatchAddr :: string
  EmbedAddr :: string
  ControlAddr :: string
  ControlToken :: string
  PlexURL :: string
  PlexToken :: string
  JobDBPath :: string
  TdarrURL :: string
  TdarrNodeID :: string

section \<open>The core settings\<close>

text \<open>\<^verbatim>\<open>Load\<close> up to the API key: the backend and the URL it needs.\<close>

definition load_upstream :: "url_parser \<Rightarrow> environ \<Rightarrow> cfg_err + string \<times> URL option \<times> URL option" where
  "load_upstream pu env =
     (let backend = getenv env ''UPSTREAM_BACKEND'' ''ollama'' in
      bindE (guardE (backend = ''ollama'' \<or> backend = ''openai'') (BadBackend ''UPSTREAM_BACKEND'' backend)) (\<lambda>_.
      bindE (if backend = ''ollama''
             then bindE (parseBaseURL pu ''OLLAMA_URL'' (getenv env ''OLLAMA_URL'' ''http://127.0.0.1:11434'')) (\<lambda>u. Inr (Some u))
             else Inr None) (\<lambda>ollama.
      bindE (if backend = ''openai''
             then bindE (parseBaseURL pu ''UPSTREAM_URL'' (getenv env ''UPSTREAM_URL'' [])) (\<lambda>u. Inr (Some u))
             else Inr None) (\<lambda>upstream.
      Inr (backend, ollama, upstream)))))"

definition load_infinity :: "url_parser \<Rightarrow> environ \<Rightarrow> cfg_err + URL option" where
  "load_infinity pu env =
     (let raw = getenv env ''INFINITY_URL'' [] in
      if raw \<noteq> [] then bindE (parseBaseURL pu ''INFINITY_URL'' raw) (\<lambda>u. Inr (Some u)) else Inr None)"

definition minute :: duration where "minute = 60 * second"
definition hour :: duration where "hour = 60 * minute"

text \<open>Everything but the routes; the park settings never fail.\<close>

definition load_core :: "url_parser \<Rightarrow> dur_parser \<Rightarrow> environ \<Rightarrow> cfg_err + Config" where
  "load_core pu pd env =
     bindE (load_upstream pu env) (\<lambda>(backend, ollama, upstream).
     (let apiKey = getenv env ''UPSTREAM_API_KEY'' [] in
     bindE (guardE (\<not> has_crlf apiKey) (ControlChars ''UPSTREAM_API_KEY'')) (\<lambda>_.
     (let unitName = TrimSpace (getenv env ''UPSTREAM_UNIT_NAME'' []) in
     bindE (load_infinity pu env) (\<lambda>infinity.
     bindE (getdur pd env ''BROKER_INTERACTIVE_WAIT'' (30 * second)) (\<lambda>iw.
     bindE (getdur pd env ''BROKER_BATCH_WAIT'' (5 * second)) (\<lambda>bw.
     bindE (getdur pd env ''BROKER_EMBED_TIMEOUT'' (30 * second)) (\<lambda>et.
     bindE (getdur pd env ''BROKER_DETECT_INTERVAL'' (3 * second)) (\<lambda>di.
     bindE (getdur pd env ''UPSTREAM_IDLE_TIMEOUT'' 0) (\<lambda>uit.
     bindE (guardE (\<not> uit < 0) (NegativeIdle ''UPSTREAM_IDLE_TIMEOUT'')) (\<lambda>_.
     bindE (guardE (\<not> (uit \<noteq> 0 \<and> unitName = [])) (IdleNoUnit ''UPSTREAM_IDLE_TIMEOUT'')) (\<lambda>_.
     bindE (getint env ''BROKER_YIELD_CONFIRM_POLLS'' 2) (\<lambda>ycp.
     bindE (getint env ''BROKER_MAX_WAITERS'' 256) (\<lambda>mw.
     bindE (getint env ''BROKER_MAX_INFLIGHT'' 1) (\<lambda>mi.
     bindE (getdur pd env ''BROKER_BATCH_QUANTUM'' (10 * second)) (\<lambda>bq.
     bindE (getint env ''BROKER_JOB_MAX_ATTEMPTS'' 3) (\<lambda>jma.
     bindE (getdur pd env ''BROKER_JOB_PRUNE_INTERVAL'' (10 * minute)) (\<lambda>jpi.
     bindE (getdur pd env ''BROKER_JOB_FETCHED_GRACE'' hour) (\<lambda>jfg.
     bindE (getdur pd env ''BROKER_JOB_HARD_CAP'' (7 * 24 * hour)) (\<lambda>jhc.
     bindE (getint env ''BROKER_TDARR_GPU_WORKERS'' 1) (\<lambda>tgw.
     Inr \<lparr>UpstreamBackend = backend, OllamaURL = ollama, UpstreamURL = upstream, UpstreamAPIKey = apiKey,
          UpstreamUnitName = unitName, InfinityURL = infinity, InteractiveWait = iw, BatchWait = bw,
          EmbedTimeout = et, DetectInterval = di, UpstreamIdleTimeout = uit, YieldConfirmPolls = ycp,
          MaxWaiters = mw, MaxInflight = mi, BatchQuantum = bq, JobMaxAttempts = jma, JobPruneInterval = jpi,
          JobFetchedGrace = jfg, JobHardCap = jhc, TdarrGPUWorkers = tgw,
          ParkHold = getdurWarn pd env ''BROKER_PARK_HOLD'' (600 * second),
          ParkMaxQueue = getintMin env ''BROKER_PARK_MAX_QUEUE'' 32 0,
          ParkDrainBurst = getintMin env ''BROKER_PARK_DRAIN_BURST'' 8 1,
          cf_Routes = [],
          InteractiveAddr = getenv env ''BROKER_INTERACTIVE_ADDR'' '':11435'',
          BatchAddr = getenv env ''BROKER_BATCH_ADDR'' '':11436'',
          EmbedAddr = getenv env ''BROKER_EMBED_ADDR'' '':11438'',
          ControlAddr = getenv env ''BROKER_CONTROL_ADDR'' '':11437'',
          ControlToken = getenv env ''BROKER_CONTROL_TOKEN'' [],
          PlexURL = getenv env ''PLEX_URL'' ''http://localhost:32400'',
          PlexToken = getenv env ''PLEX_TOKEN'' [],
          JobDBPath = getenv env ''BROKER_JOB_DB'' ''broker-jobs.db'',
          TdarrURL = getenv env ''BROKER_TDARR_URL'' [],
          TdarrNodeID = getenv env ''BROKER_TDARR_NODE_ID'' []\<rparr>)))))))))))))))))))))"

section \<open>Routes\<close>

definition maxRouteIndex :: nat where "maxRouteIndex = 32"
definition maxRoutes :: nat where "maxRoutes = 16"

definition route_key :: "nat \<Rightarrow> string \<Rightarrow> string" where
  "route_key i suffix = ''BROKER_ROUTE_'' @ nat_str i @ ''_'' @ suffix"

definition highestRoute :: "environ \<Rightarrow> nat" where
  "highestRoute env =
     foldl (\<lambda>h i. if getenv env (route_key i ''MODELS'') [] \<noteq> [] then i else h) 0 [1..<Suc maxRouteIndex]"

text \<open>The maps of what is already taken, and by whom (0 is the default backend).\<close>

record seen =
  seenModels :: "string \<rightharpoonup> nat"
  seenUnitNames :: "string \<rightharpoonup> nat"
  seenURLs :: "string \<rightharpoonup> nat"

fun load_models :: "nat \<Rightarrow> string list \<Rightarrow> string list \<Rightarrow> (string \<rightharpoonup> nat) \<Rightarrow> cfg_err + string list \<times> (string \<rightharpoonup> nat)" where
  "load_models i [] acc seenM = Inr (acc, seenM)"
| "load_models i (p # ps) acc seenM =
     (let m = TrimSpace p in
      if m = [] then Inl (EmptyModel i)
      else if m \<in> set acc then Inl (RepeatedModel i m)
      else case seenM m of
        Some k \<Rightarrow> Inl (ModelTwice m k i)
      | None \<Rightarrow> load_models i ps (acc @ [m]) (seenM(m \<mapsto> i)))"

text \<open>One turn of the route loop.\<close>

definition load_route ::
  "url_parser \<Rightarrow> dur_parser \<Rightarrow> environ \<Rightarrow> nat \<Rightarrow> nat \<Rightarrow> seen \<Rightarrow> cfg_err + RouteBackend \<times> seen" where
  "load_route pu pd env highest i sn =
     (let raw = getenv env (route_key i ''MODELS'') [] in
     bindE (guardE (raw \<noteq> []) (RouteGap i highest)) (\<lambda>_.
     bindE (load_models i (split_on (CHR '','') raw) [] (seenModels sn)) (\<lambda>(models, sm).
     (let backend = getenv env (route_key i ''BACKEND'') ''openai'' in
     bindE (guardE (backend = ''ollama'' \<or> backend = ''openai'') (BadBackend (route_key i ''BACKEND'') backend)) (\<lambda>_.
     bindE (parseBaseURL pu (route_key i ''URL'') (getenv env (route_key i ''URL'') [])) (\<lambda>u.
     bindE (guardE (seenURLs sn (u_String u) = None) (DupURL i (u_String u))) (\<lambda>_.
     (let apiKey = getenv env (route_key i ''API_KEY'') [] in
     bindE (guardE (\<not> has_crlf apiKey) (ControlChars (route_key i ''API_KEY''))) (\<lambda>_.
     (let unitName = TrimSpace (getenv env (route_key i ''UNIT_NAME'') []) in
     bindE (guardE (unitName = [] \<or> seenUnitNames sn unitName = None) (DupUnit i unitName)) (\<lambda>_.
     bindE (getdur pd env (route_key i ''IDLE_TIMEOUT'') 0) (\<lambda>idle.
     bindE (guardE (\<not> idle < 0) (NegativeIdle (route_key i ''IDLE_TIMEOUT''))) (\<lambda>_.
     bindE (guardE (\<not> (idle \<noteq> 0 \<and> unitName = [])) (IdleNoUnit (route_key i ''IDLE_TIMEOUT''))) (\<lambda>_.
     (let lane = getenv env (route_key i ''LANE'') [] in
     bindE (guardE (lane = [] \<or> lane = ''interactive'' \<or> lane = ''batch'') (BadLane i lane)) (\<lambda>_.
     Inr (\<lparr>rb_Models = models, rb_Backend = backend, rb_URL = u, rb_APIKey = apiKey, rb_UnitName = unitName,
           rb_IdleTimeout = idle, rb_Lane = lane\<rparr>,
          \<lparr>seenModels = sm,
           seenUnitNames = (if unitName = [] then seenUnitNames sn else (seenUnitNames sn)(unitName \<mapsto> i)),
           seenURLs = (seenURLs sn)(u_String u \<mapsto> i)\<rparr>)))))))))))))))))"

fun load_routes ::
  "url_parser \<Rightarrow> dur_parser \<Rightarrow> environ \<Rightarrow> nat \<Rightarrow> nat list \<Rightarrow> seen \<Rightarrow> cfg_err + RouteBackend list" where
  "load_routes pu pd env highest [] sn = Inr []"
| "load_routes pu pd env highest (i # is) sn =
     bindE (load_route pu pd env highest i sn) (\<lambda>(r, sn').
     bindE (load_routes pu pd env highest is sn') (\<lambda>rs. Inr (r # rs)))"

definition default_url :: "Config \<Rightarrow> URL option" where
  "default_url c = (if UpstreamBackend c = ''ollama'' then OllamaURL c else UpstreamURL c)"

definition seen_default :: "Config \<Rightarrow> seen" where
  "seen_default c =
     \<lparr>seenModels = (\<lambda>_. None),
      seenUnitNames = (if UpstreamUnitName c \<noteq> [] then [UpstreamUnitName c \<mapsto> 0] else (\<lambda>_. None)),
      seenURLs = (case default_url c of None \<Rightarrow> (\<lambda>_. None) | Some u \<Rightarrow> [u_String u \<mapsto> 0])\<rparr>"

definition Load :: "url_parser \<Rightarrow> dur_parser \<Rightarrow> environ \<Rightarrow> cfg_err + Config" where
  "Load pu pd env =
     bindE (load_core pu pd env) (\<lambda>c.
     (let highest = highestRoute env in
      if highest = 0 then Inr c
      else if highest > maxRoutes then Inl (TooManyRoutes highest)
      else bindE (load_routes pu pd env highest [1..<Suc highest] (seen_default c)) (\<lambda>rs. Inr (c\<lparr>cf_Routes := rs\<rparr>))))"

end
