(* ===== verification/Config_Properties.thy ===== *)
theory Config_Properties
  imports Config_Load
begin

text \<open>
  What a loaded configuration guarantees to the rest of the broker, and that the park settings cannot
  keep it from loading.
\<close>

section \<open>When a computation succeeds\<close>

lemma bindE_Inr: "bindE x f = Inr y \<longleftrightarrow> (\<exists>v. x = Inr v \<and> f v = Inr y)"
  by (simp add: bindE_def split: sum.splits)

lemma guardE_Inr: "guardE b e = Inr u \<longleftrightarrow> b"
  by (simp add: guardE_def)

lemma bindE_simps [simp]: "bindE (Inl e) f = Inl e" "bindE (Inr v) f = f v"
  by (simp_all add: bindE_def)

lemma bindE_map: "map_sum id g (bindE x f) = bindE x (\<lambda>v. map_sum id g (f v))"
  by (simp add: bindE_def split: sum.splits)

lemma parseBaseURL_Inr:
  "parseBaseURL pu key raw = Inr u \<longleftrightarrow> pu raw = Some u \<and> u_Scheme u \<noteq> [] \<and> u_Host u \<noteq> []"
  by (auto simp: parseBaseURL_def split: option.splits)

lemma getint_ge: "getint env k d = Inr n \<Longrightarrow> 1 \<le> d \<Longrightarrow> 1 \<le> n"
  by (auto simp: getint_def split: option.splits if_splits)

lemma getdurWarn_pos: "0 < d \<Longrightarrow> 0 < getdurWarn pd env k d"
  by (simp add: getdurWarn_def split: option.splits)

lemma getintMin_ge: "mn \<le> d \<Longrightarrow> mn \<le> getintMin env k d mn"
  by (simp add: getintMin_def split: option.splits)

section \<open>The core\<close>

definition url_ok :: "URL \<Rightarrow> bool" where
  "url_ok u \<longleftrightarrow> u_Scheme u \<noteq> [] \<and> u_Host u \<noteq> []"

definition upstream_ok :: "string \<Rightarrow> URL option \<Rightarrow> URL option \<Rightarrow> bool" where
  "upstream_ok b ollama upstream \<longleftrightarrow>
     (b = ''ollama'' \<and> (\<exists>u. ollama = Some u \<and> url_ok u) \<and> upstream = None)
     \<or> (b = ''openai'' \<and> ollama = None \<and> (\<exists>u. upstream = Some u \<and> url_ok u))"

definition core_ok :: "Config \<Rightarrow> bool" where
  "core_ok c \<longleftrightarrow>
     upstream_ok (UpstreamBackend c) (OllamaURL c) (UpstreamURL c)
     \<and> (\<forall>u. InfinityURL c = Some u \<longrightarrow> url_ok u)
     \<and> \<not> has_crlf (UpstreamAPIKey c)
     \<and> 0 \<le> UpstreamIdleTimeout c \<and> (UpstreamIdleTimeout c \<noteq> 0 \<longrightarrow> UpstreamUnitName c \<noteq> [])
     \<and> 1 \<le> YieldConfirmPolls c \<and> 1 \<le> MaxWaiters c \<and> 1 \<le> MaxInflight c \<and> 1 \<le> JobMaxAttempts c \<and> 1 \<le> TdarrGPUWorkers c
     \<and> 0 < ParkHold c \<and> 0 \<le> ParkMaxQueue c \<and> 1 \<le> ParkDrainBurst c"

lemma load_upstream_ok: "load_upstream pu env = Inr (b, ollama, upstream) \<Longrightarrow> upstream_ok b ollama upstream"
  by (auto simp: load_upstream_def upstream_ok_def url_ok_def Let_def bindE_Inr guardE_Inr parseBaseURL_Inr split: if_splits)

lemma load_infinity_ok: "load_infinity pu env = Inr r \<Longrightarrow> r = Some u \<Longrightarrow> url_ok u"
  by (auto simp: load_infinity_def url_ok_def Let_def bindE_Inr parseBaseURL_Inr split: if_splits)

lemma load_core_ok:
  assumes "load_core pu pd env = Inr c"
  shows "core_ok c \<and> cf_Routes c = []"
  using assms unfolding load_core_def Let_def bindE_Inr guardE_Inr split_beta
  by (elim exE conjE)
    (auto simp: core_ok_def getdurWarn_pos getintMin_ge time_units dest: load_infinity_ok
      intro: load_upstream_ok getint_ge)

section \<open>The routes\<close>

lemma load_models_spec:
  "load_models i ps acc sm = Inr (ms, sm') \<Longrightarrow>
     \<exists>new. ms = acc @ new \<and> new = map TrimSpace ps \<and> distinct new \<and> set new \<inter> set acc = {}
       \<and> set new \<inter> dom sm = {} \<and> dom sm' = dom sm \<union> set new \<and> [] \<notin> set new"
proof (induction ps arbitrary: acc sm)
  case (Cons p ps)
  let ?m = "TrimSpace p"
  have m: "?m \<noteq> []" "?m \<notin> set acc" "sm ?m = None" "load_models i ps (acc @ [?m]) (sm(?m \<mapsto> i)) = Inr (ms, sm')"
    using Cons.prems by (auto simp: Let_def split: if_splits option.splits)
  from Cons.IH [OF m(4)] obtain new where n: "ms = (acc @ [?m]) @ new" "new = map TrimSpace ps" "distinct new"
    "set new \<inter> set (acc @ [?m]) = {}" "set new \<inter> dom (sm(?m \<mapsto> i)) = {}" "dom sm' = dom (sm(?m \<mapsto> i)) \<union> set new" "[] \<notin> set new"
    by blast
  show ?case by (rule exI [of _ "?m # new"]) (use m n in auto)
qed simp

definition route_ok :: "RouteBackend \<Rightarrow> bool" where
  "route_ok r \<longleftrightarrow>
     rb_Models r \<noteq> [] \<and> [] \<notin> set (rb_Models r) \<and> rb_Backend r \<in> {''ollama'', ''openai''} \<and> url_ok (rb_URL r)
     \<and> \<not> has_crlf (rb_APIKey r) \<and> 0 \<le> rb_IdleTimeout r \<and> (rb_IdleTimeout r \<noteq> 0 \<longrightarrow> rb_UnitName r \<noteq> [])
     \<and> rb_Lane r \<in> {[], ''interactive'', ''batch''}"

lemma load_route_spec:
  assumes "load_route pu pd env h i sn = Inr (r, sn')"
  shows "route_ok r \<and> distinct (rb_Models r) \<and> set (rb_Models r) \<inter> dom (seenModels sn) = {}
     \<and> dom (seenModels sn') = dom (seenModels sn) \<union> set (rb_Models r)
     \<and> u_String (rb_URL r) \<notin> dom (seenURLs sn) \<and> dom (seenURLs sn') = insert (u_String (rb_URL r)) (dom (seenURLs sn))
     \<and> (rb_UnitName r \<noteq> [] \<longrightarrow> rb_UnitName r \<notin> dom (seenUnitNames sn))
     \<and> dom (seenUnitNames sn') = (if rb_UnitName r = [] then dom (seenUnitNames sn) else insert (rb_UnitName r) (dom (seenUnitNames sn)))"
proof -
  from assms obtain ms sm where m: "load_models i (split_on (CHR '','') (getenv env (route_key i ''MODELS'') [])) [] (seenModels sn) = Inr (ms, sm)"
    and r: "rb_Models r = ms" "seenModels sn' = sm" "rb_Backend r \<in> {''ollama'', ''openai''}" "url_ok (rb_URL r)"
      "\<not> has_crlf (rb_APIKey r)" "0 \<le> rb_IdleTimeout r" "rb_IdleTimeout r \<noteq> 0 \<longrightarrow> rb_UnitName r \<noteq> []"
      "rb_Lane r \<in> {[], ''interactive'', ''batch''}" "seenURLs sn (u_String (rb_URL r)) = None"
      "rb_UnitName r = [] \<or> seenUnitNames sn (rb_UnitName r) = None"
      "seenURLs sn' = (seenURLs sn)(u_String (rb_URL r) \<mapsto> i)"
      "seenUnitNames sn' = (if rb_UnitName r = [] then seenUnitNames sn else (seenUnitNames sn)(rb_UnitName r \<mapsto> i))"
    unfolding load_route_def Let_def bindE_Inr guardE_Inr split_beta parseBaseURL_Inr
    by (elim exE conjE) (auto simp: url_ok_def)
  from load_models_spec [OF m] r(1)
  obtain new where new: "rb_Models r = new" "new = map TrimSpace (split_on (CHR '','') (getenv env (route_key i ''MODELS'') []))"
    "distinct new" "set new \<inter> dom (seenModels sn) = {}" "dom sm = dom (seenModels sn) \<union> set new" "[] \<notin> set new" by auto
  have "rb_Models r = map TrimSpace (split_on (CHR '','') (getenv env (route_key i ''MODELS'') []))" "distinct (rb_Models r)"
    "set (rb_Models r) \<inter> dom (seenModels sn) = {}" "dom (seenModels sn') = dom (seenModels sn) \<union> set (rb_Models r)" "[] \<notin> set (rb_Models r)"
    using new r(2) by simp_all
  then show ?thesis using r split_on_not_Nil by (auto simp: route_ok_def dom_def)
qed

definition units_of :: "RouteBackend list \<Rightarrow> string list" where
  "units_of rs = filter (\<lambda>u. u \<noteq> []) (map rb_UnitName rs)"

lemma load_routes_spec:
  "load_routes pu pd env h is sn = Inr rs \<Longrightarrow>
     length rs = length is \<and> list_all route_ok rs
     \<and> distinct (concat (map rb_Models rs)) \<and> set (concat (map rb_Models rs)) \<inter> dom (seenModels sn) = {}
     \<and> distinct (map (\<lambda>r. u_String (rb_URL r)) rs) \<and> set (map (\<lambda>r. u_String (rb_URL r)) rs) \<inter> dom (seenURLs sn) = {}
     \<and> distinct (units_of rs) \<and> set (units_of rs) \<inter> dom (seenUnitNames sn) = {}"
proof (induction "is" arbitrary: sn rs)
  case Nil
  then show ?case by (simp add: units_of_def)
next
  case (Cons i "is")
  from Cons.prems obtain r sn' rs' where r: "load_route pu pd env h i sn = Inr (r, sn')"
    "load_routes pu pd env h is sn' = Inr rs'" "rs = r # rs'"
    by (auto simp: bindE_Inr)
  note R = load_route_spec [OF r(1)] and I = Cons.IH [OF r(2)]
  show ?case using R I unfolding r(3) by (auto simp: units_of_def split: if_splits)
qed

section \<open>Properties\<close>

lemma upstream_ok_url: "core_ok c \<Longrightarrow> \<exists>u. default_url c = Some u \<and> url_ok u"
  by (auto simp: core_ok_def upstream_ok_def default_url_def)

lemma highestRoute_le: "highestRoute env \<le> maxRouteIndex"
proof -
  have "foldl (\<lambda>h i. if P i then i else h) a is \<le> n" if "a \<le> n" "\<forall>i\<in>set is. i \<le> n"
    for P :: "nat \<Rightarrow> bool" and a n "is"
    using that by (induction "is" arbitrary: a) auto
  then show ?thesis by (simp add: highestRoute_def)
qed

lemma loaded_config:
  assumes "Load pu pd env = Inr c"
  shows "core_ok c \<and> length (cf_Routes c) \<le> 16 \<and> list_all route_ok (cf_Routes c)
     \<and> distinct (concat (map rb_Models (cf_Routes c)))
     \<and> (\<exists>u. default_url c = Some u \<and> url_ok u \<and> distinct (u_String u # map (\<lambda>r. u_String (rb_URL r)) (cf_Routes c)))
     \<and> distinct ((if UpstreamUnitName c = [] then [] else [UpstreamUnitName c]) @ units_of (cf_Routes c))"
proof -
  from assms obtain c0 where c0: "load_core pu pd env = Inr c0" by (auto simp: Load_def bindE_Inr)
  have core: "core_ok c0" "cf_Routes c0 = []" using load_core_ok [OF c0] by simp_all
  show ?thesis
  proof (cases "highestRoute env = 0")
    case True
    then have "c = c0" using assms c0 by (simp add: Load_def)
    then show ?thesis using core upstream_ok_url [OF core(1)] by (auto simp: units_of_def)
  next
    case False
    then obtain rs where rs: "load_routes pu pd env (highestRoute env) [1..<Suc (highestRoute env)] (seen_default c0) = Inr rs"
      "c = c0\<lparr>cf_Routes := rs\<rparr>" "highestRoute env \<le> maxRoutes"
      using assms c0 by (auto simp: Load_def Let_def bindE_Inr split: if_splits)
    note R = load_routes_spec [OF rs(1)]
    obtain u where u: "default_url c0 = Some u" "url_ok u" using upstream_ok_url [OF core(1)] by blast
    have "core_ok c" "default_url c = Some u" using core(1) u(1) by (simp_all add: rs(2) core_ok_def default_url_def split: if_splits)
    moreover have "u_String u \<notin> set (map (\<lambda>r. u_String (rb_URL r)) rs)" using R u(1) by (auto simp: seen_default_def)
    moreover have "UpstreamUnitName c0 \<noteq> [] \<longrightarrow> UpstreamUnitName c0 \<notin> set (units_of rs)"
      using R by (auto simp: seen_default_def split: if_splits)
    ultimately show ?thesis using R u(2) rs(2,3) by (simp add: maxRoutes_def)
  qed
qed

text \<open>
  C29. A configuration that loads is one the broker can run. For any environment and any URL and duration
  parser: the backend is one of the two families and exactly its URL is set; URLs have a scheme and a
  host; API keys carry no CR or LF; idle-unload has a unit to stop and is not negative; counts are
  positive and the park settings are in range; there are at most 16 routes, each with at least one
  model; and across the default backend and all routes no model, no unit and no URL is used twice, so
  every model has one destination and every unit one owner.
\<close>

theorem loaded_config_ok:
  assumes "Load pu pd env = Inr c"
  shows "core_ok c \<and> length (cf_Routes c) \<le> 16 \<and> list_all route_ok (cf_Routes c)
     \<and> distinct (concat (map rb_Models (cf_Routes c)))
     \<and> (\<exists>u. default_url c = Some u \<and> url_ok u \<and> distinct (u_String u # map (\<lambda>r. u_String (rb_URL r)) (cf_Routes c)))
     \<and> distinct ((if UpstreamUnitName c = [] then [] else [UpstreamUnitName c]) @ units_of (cf_Routes c))"
  by (rule loaded_config [OF assms])

definition demo_url :: url_parser where
  "demo_url s = (if take 7 s = ''http://'' \<and> s \<noteq> ''http://'' then Some \<lparr>u_Scheme = ''http'', u_Host = drop 7 s, u_String = s\<rparr> else None)"

definition demo_env :: environ where
  "demo_env = [''BROKER_ROUTE_1_MODELS'' \<mapsto> ''m1, m2'', ''BROKER_ROUTE_1_URL'' \<mapsto> ''http://vllm'',
     ''BROKER_ROUTE_1_LANE'' \<mapsto> ''batch'']"

lemmas load_eval = Load_def load_core_def load_upstream_def load_infinity_def load_route_def bindE_def guardE_def
  getenv_def getint_def getdur_def getdurWarn_def getintMin_def parseBaseURL_def seen_default_def default_url_def
  route_key_def has_crlf_def TrimSpace_def trim_with.simps space_encs_def HasPrefix_def demo_url_def

lemma demo_highest: "highestRoute demo_env = 1"
  by (simp add: highestRoute_def maxRouteIndex_def upt_rec getenv_def route_key_def demo_env_def nat_str.simps digit_def char_of_def bit_0)

lemma demo_load:
  obtains c where "Load demo_url (\<lambda>_. None) demo_env = Inr c" "map rb_Models (cf_Routes c) = [[''m1'', ''m2'']]"
    "map rb_Lane (cf_Routes c) = [''batch'']" "map (u_String \<circ> rb_URL) (cf_Routes c) = [''http://vllm'']"
proof -
  obtain c0 where c0: "load_core demo_url (\<lambda>_. None) demo_env = Inr c0" "UpstreamBackend c0 = ''ollama''"
    "map_option u_String (OllamaURL c0) = Some ''http://127.0.0.1:11434''" "UpstreamUnitName c0 = []"
    by (simp add: load_eval demo_env_def)
  obtain rs where rs: "load_routes demo_url (\<lambda>_. None) demo_env 1 [1] (seen_default c0) = Inr rs"
    "map rb_Models rs = [[''m1'', ''m2'']]" "map rb_Lane rs = [''batch'']" "map (u_String \<circ> rb_URL) rs = [''http://vllm'']"
    using c0(2-4) by (auto simp: load_eval demo_env_def nat_str.simps digit_def char_of_def bit_0 Let_def)
  have "Load demo_url (\<lambda>_. None) demo_env = Inr (c0\<lparr>cf_Routes := rs\<rparr>)"
    using c0(1) rs by (simp add: Load_def demo_highest maxRoutes_def)
  from that [OF this] rs(2-) show thesis by simp
qed

theorem loaded_config_ok_witness:
  "\<exists>c. Load demo_url (\<lambda>_. None) demo_env = Inr c \<and> map rb_Models (cf_Routes c) = [[''m1'', ''m2'']]
     \<and> map rb_Lane (cf_Routes c) = [''batch''] \<and> distinct (concat (map rb_Models (cf_Routes c)))"
proof -
  obtain c where c: "Load demo_url (\<lambda>_. None) demo_env = Inr c" "map rb_Models (cf_Routes c) = [[''m1'', ''m2'']]"
    "map rb_Lane (cf_Routes c) = [''batch'']" by (rule demo_load)
  from loaded_config_ok [OF c(1)] c show ?thesis by auto
qed

text \<open>Reading a variable that the update does not name.\<close>

lemma env_upd [simp]:
  "k \<noteq> x \<Longrightarrow> getenv (env(k := v)) x d = getenv env x d"
  "k \<noteq> x \<Longrightarrow> getint (env(k := v)) x n = getint env x n"
  "k \<noteq> x \<Longrightarrow> getdur pd (env(k := v)) x n = getdur pd env x n"
  by (simp_all add: getenv_def getint_def getdur_def)

definition park_keys :: "string list" where
  "park_keys = [''BROKER_PARK_HOLD'', ''BROKER_PARK_MAX_QUEUE'', ''BROKER_PARK_DRAIN_BURST'']"

definition with_park :: "dur_parser \<Rightarrow> environ \<Rightarrow> Config \<Rightarrow> Config" where
  "with_park pd env c =
     c\<lparr>ParkHold := getdurWarn pd env ''BROKER_PARK_HOLD'' (600 * second),
       ParkMaxQueue := getintMin env ''BROKER_PARK_MAX_QUEUE'' 32 0,
       ParkDrainBurst := getintMin env ''BROKER_PARK_DRAIN_BURST'' 8 1\<rparr>"

lemma route_key_park: "k \<in> set park_keys \<Longrightarrow> k \<noteq> route_key i x"
  by (auto simp: park_keys_def route_key_def)

lemma load_core_park:
  assumes "k \<in> set park_keys"
  shows "load_core pu pd (env(k := v)) = map_sum id (with_park pd (env(k := v))) (load_core pu pd env)"
proof -
  have "load_upstream pu (env(k := v)) = load_upstream pu env" "load_infinity pu (env(k := v)) = load_infinity pu env"
    using assms by (auto simp: park_keys_def load_upstream_def load_infinity_def Let_def cong: if_cong)
  note same = this
  show ?thesis
  proof (cases "load_upstream pu env")
    case (Inl e)
    then show ?thesis using same by (simp add: load_core_def)
  next
    case (Inr x)
    obtain b o1 u1 where "x = (b, o1, u1)" by (metis prod_cases3)
    then show ?thesis using Inr same assms
      by (auto simp: park_keys_def load_core_def Let_def bindE_map with_park_def)
  qed
qed

lemma load_routes_park:
  assumes "k \<in> set park_keys"
  shows "load_routes pu pd (env(k := v)) h is sn = load_routes pu pd env h is sn"
    and "highestRoute (env(k := v)) = highestRoute env"
proof -
  note [simp] = route_key_park [OF assms]
  have "load_route pu pd (env(k := v)) h i sn = load_route pu pd env h i sn" for i sn
    by (simp add: load_route_def)
  then show "load_routes pu pd (env(k := v)) h is sn = load_routes pu pd env h is sn"
    by (induction "is" arbitrary: sn) simp_all
  show "highestRoute (env(k := v)) = highestRoute env" by (simp add: highestRoute_def)
qed

text \<open>
  Parking can never keep the broker from starting. Whatever value any of the three park variables
  is set to or loses, the configuration loads exactly when it did before, with the same error when it
  does not; when it loads, it differs in the park settings only, and those are in range.
\<close>

theorem park_config_never_fatal:
  assumes "k \<in> set park_keys"
  shows "case Load pu pd env of
       Inl e \<Rightarrow> Load pu pd (env(k := v)) = Inl e
     | Inr c \<Rightarrow> \<exists>h n b. Load pu pd (env(k := v)) = Inr (c\<lparr>ParkHold := h, ParkMaxQueue := n, ParkDrainBurst := b\<rparr>)
         \<and> 0 < h \<and> 0 \<le> n \<and> 1 \<le> b"
proof (cases "load_core pu pd env")
  case (Inl e)
  then show ?thesis using load_core_park [OF assms, of pu pd env v] by (simp add: Load_def)
next
  case (Inr c0)
  define c where "c = with_park pd (env(k := v)) c0"
  have core: "load_core pu pd (env(k := v)) = Inr c"
    using Inr load_core_park [OF assms, of pu pd env v] by (simp add: c_def)
  have seen: "seen_default c = seen_default c0" by (simp add: c_def with_park_def seen_default_def default_url_def)
  have range: "0 < ParkHold c" "0 \<le> ParkMaxQueue c" "1 \<le> ParkDrainBurst c"
    by (simp_all add: c_def with_park_def getdurWarn_pos getintMin_ge time_units)
  have upd: "c\<lparr>cf_Routes := rs\<rparr> = (c0\<lparr>cf_Routes := rs\<rparr>)\<lparr>ParkHold := ParkHold c, ParkMaxQueue := ParkMaxQueue c,
      ParkDrainBurst := ParkDrainBurst c\<rparr>" "c = c0\<lparr>ParkHold := ParkHold c, ParkMaxQueue := ParkMaxQueue c,
      ParkDrainBurst := ParkDrainBurst c\<rparr>" for rs
    by (simp_all add: c_def with_park_def)
  have ex: "\<exists>h n b. c\<lparr>cf_Routes := rs\<rparr> = (c0\<lparr>cf_Routes := rs\<rparr>)\<lparr>ParkHold := h, ParkMaxQueue := n, ParkDrainBurst := b\<rparr>
      \<and> 0 < h \<and> 0 \<le> n \<and> 1 \<le> b" "\<exists>h n b. c = c0\<lparr>ParkHold := h, ParkMaxQueue := n, ParkDrainBurst := b\<rparr>
      \<and> 0 < h \<and> 0 \<le> n \<and> 1 \<le> b" for rs
    using upd range by blast+
  note P = load_routes_park [OF assms]
  show ?thesis
  proof (cases "load_routes pu pd env (highestRoute env) [1..<Suc (highestRoute env)] (seen_default c0)")
    case (Inl e)
    show ?thesis using Inl \<open>load_core pu pd env = Inr c0\<close> ex(2) by (simp add: Load_def Let_def core seen P del: upt_Suc)
  next
    case (Inr rs)
    show ?thesis using Inr \<open>load_core pu pd env = Inr c0\<close> ex(1) [of rs] ex(2) by (simp add: Load_def Let_def core seen P del: upt_Suc)
  qed
qed

theorem park_config_never_fatal_witness:
  "\<exists>c h n b. Load demo_url (\<lambda>_. None) (\<lambda>_. None) = Inr c
     \<and> Load demo_url (\<lambda>_. None) ((\<lambda>_. None)(''BROKER_PARK_MAX_QUEUE'' := Some ''junk'')) =
         Inr (c\<lparr>ParkHold := h, ParkMaxQueue := n, ParkDrainBurst := b\<rparr>) \<and> 0 < h \<and> 0 \<le> n \<and> 1 \<le> b"
proof -
  have h: "highestRoute (\<lambda>_. None) = 0" by (simp add: highestRoute_def maxRouteIndex_def upt_rec getenv_def)
  obtain c where "Load demo_url (\<lambda>_. None) (\<lambda>_. None) = Inr c"
    unfolding Load_def h by (simp add: load_eval)
  moreover have "''BROKER_PARK_MAX_QUEUE'' \<in> set park_keys" by (simp add: park_keys_def)
  ultimately show ?thesis
    using park_config_never_fatal [of "''BROKER_PARK_MAX_QUEUE''" demo_url "\<lambda>_. None" "\<lambda>_. None" "Some ''junk''"] by simp
qed

end
