(* ===== verification/Yield_Controller.thy ===== *)
theory Yield_Controller
  imports Broker_Prelude
begin

text \<open>
  \<^verbatim>\<open>internal/yield/yield.go\<close>: the controller that decides whether the broker gives up the GPU. The
  first half translates its operations; the second half puts them under every interleaving of the
  poll loop, the control endpoint, the tracked requests and the spawned unload and reload
  goroutines, one event per atomic action or per section under the mutex.
\<close>

section \<open>Modes\<close>

datatype Mode = ModeAuto | ModeForceYield | ModeForceServe

definition Mode_String :: "Mode \<Rightarrow> string" where
  "Mode_String m = (case m of ModeForceYield \<Rightarrow> ''yield'' | ModeForceServe \<Rightarrow> ''serve'' | ModeAuto \<Rightarrow> ''auto'')"

definition ParseMode :: "string \<Rightarrow> Mode \<times> bool" where
  "ParseMode s =
     (if s = ''auto'' then (ModeAuto, True)
      else if s = ''yield'' then (ModeForceYield, True)
      else if s = ''serve'' then (ModeForceServe, True)
      else (ModeAuto, False))"

section \<open>State\<close>

text \<open>
  An \<^verbatim>\<open>Unloader\<close> is an external process manager, known by a handle. A context is an address of its
  own heap, cancelled once it is in \<open>closedc\<close>. The atomics \<^verbatim>\<open>lastDispatch\<close>, \<^verbatim>\<open>inFlight\<close> and
  \<^verbatim>\<open>idleUnloaded\<close> are lists indexed by the post-filter instance, like the slices. The counters stay
  far below their width (one per request in flight, one per poll), so they are integers.
\<close>

type_synonym unloader = nat

record Controller =
  unloaders :: "unloader list"
  labels :: "string list"
  gpuMgr :: bool
  interval :: duration
  confirmPolls :: int
  mode :: Mode
  autoContended :: bool
  autoReason :: string
  effective :: bool
  lastPoll :: "instant option"
  confirmCount :: int
  confirmReason :: string
  serveCtx :: nat
  actionDone :: "chan option list"
  idleTimeouts :: "duration list"
  lastDispatch :: "instant list"
  inFlight :: "int list"
  idleUnloaded :: "bool list"
  origToFiltered :: "int list"

datatype unloadTrigger = triggerYield | triggerIdle

datatype kind = Unload | Reload

text \<open>A spawned \<^verbatim>\<open>doUnload\<close> or \<^verbatim>\<open>doReload\<close>, with the channels \<^verbatim>\<open>startAction\<close> handed out.\<close>

record action =
  a_inst :: nat
  a_kind :: kind
  a_wait :: "chan option"
  a_done :: chan
  a_trigger :: unloadTrigger

section \<open>Construction\<close>

text \<open>The filter loop of \<^verbatim>\<open>NewWithConfirmMulti\<close>, from index \<open>i\<close> with \<open>post\<close> instances kept so far.\<close>

definition label_of :: "string list \<Rightarrow> nat \<Rightarrow> string" where
  "label_of lbls i =
     (let l = (if i < length lbls then lbls ! i else [])
      in if l = [] then ''instance['' @ nat_str i @ '']'' else l)"

fun filter_unloaders ::
    "nat \<Rightarrow> nat \<Rightarrow> string list \<Rightarrow> unloader option list \<Rightarrow> unloader list \<times> string list \<times> int list" where
  "filter_unloaders i post lbls [] = ([], [], [])"
| "filter_unloaders i post lbls (None # us) =
     (case filter_unloaders (Suc i) post lbls us of (fu, fl, o2f) \<Rightarrow> (fu, fl, -1 # o2f))"
| "filter_unloaders i post lbls (Some u # us) =
     (case filter_unloaders (Suc i) (Suc post) lbls us of (fu, fl, o2f) \<Rightarrow>
        (u # fu, label_of lbls i # fl, int post # o2f))"

definition NewWithConfirmMulti ::
    "unloader option list \<Rightarrow> string list \<Rightarrow> duration \<Rightarrow> int \<Rightarrow> instant \<Rightarrow> heap \<Rightarrow> Controller \<times> heap" where
  "NewWithConfirmMulti us lbls itv polls now cx =
     (case filter_unloaders 0 0 lbls us of (fu, fl, o2f) \<Rightarrow>
        case make_chan cx of (ctx, cx') \<Rightarrow>
          (\<lparr>unloaders = fu, labels = fl, gpuMgr = False, interval = itv,
            confirmPolls = (if polls < 1 then 1 else polls), mode = ModeAuto, autoContended = False,
            autoReason = [], effective = False, lastPoll = None, confirmCount = 0, confirmReason = [],
            serveCtx = ctx, actionDone = replicate (length fu) None,
            idleTimeouts = replicate (length fu) 0, lastDispatch = replicate (length fu) now,
            inFlight = replicate (length fu) 0, idleUnloaded = replicate (length fu) False,
            origToFiltered = o2f\<rparr>, cx'))"

definition NewMulti :: "unloader option list \<Rightarrow> string list \<Rightarrow> duration \<Rightarrow> instant \<Rightarrow> heap \<Rightarrow> Controller \<times> heap" where
  "NewMulti us lbls itv now cx = NewWithConfirmMulti us lbls itv 1 now cx"

definition NewWithConfirm :: "unloader option \<Rightarrow> duration \<Rightarrow> int \<Rightarrow> instant \<Rightarrow> heap \<Rightarrow> Controller \<times> heap" where
  "NewWithConfirm u itv polls now cx =
     NewWithConfirmMulti (case u of None \<Rightarrow> [] | Some x \<Rightarrow> [Some x]) [] itv polls now cx"

definition NewController :: "unloader option \<Rightarrow> duration \<Rightarrow> instant \<Rightarrow> heap \<Rightarrow> Controller \<times> heap" where
  "NewController u itv now cx = NewWithConfirm u itv 1 now cx"

text \<open>\<open>None\<close> is a panic.\<close>

fun ConfigureIdle_loop :: "duration list \<Rightarrow> int list \<Rightarrow> duration list \<Rightarrow> duration list option" where
  "ConfigureIdle_loop (d # ds) (post # ps) ts =
     (if post = -1 then (if d \<noteq> 0 then None else ConfigureIdle_loop ds ps ts)
      else ConfigureIdle_loop ds ps (ts[nat post := d]))"
| "ConfigureIdle_loop _ _ ts = Some ts"

definition ConfigureIdle :: "duration list \<Rightarrow> Controller \<Rightarrow> Controller option" where
  "ConfigureIdle ds c =
     (if length ds \<noteq> length (origToFiltered c) then None
      else map_option (\<lambda>ts. c\<lparr>idleTimeouts := ts\<rparr>) (ConfigureIdle_loop ds (origToFiltered c) (idleTimeouts c)))"

definition SetGPUManager :: "bool \<Rightarrow> Controller \<Rightarrow> Controller" where
  "SetGPUManager m c = c\<lparr>gpuMgr := m\<rparr>"

section \<open>Detection and the effective state\<close>

definition debounceLocked :: "string \<Rightarrow> bool \<Rightarrow> Controller \<Rightarrow> (bool \<times> string) \<times> Controller" where
  "debounceLocked reason contended c =
     (if \<not> contended then ((False, []), c\<lparr>confirmCount := 0, confirmReason := []\<rparr>)
      else let c1 = (if reason = confirmReason c then c\<lparr>confirmCount := confirmCount c + 1\<rparr>
                     else c\<lparr>confirmReason := reason, confirmCount := 1\<rparr>)
           in if confirmCount c1 < confirmPolls c1 then ((False, []), c1) else ((True, reason), c1))"

definition computeLocked :: "Controller \<Rightarrow> bool \<times> string" where
  "computeLocked c =
     (case mode c of
        ModeForceYield \<Rightarrow> (True, ''manual'')
      | ModeForceServe \<Rightarrow> (False, [])
      | ModeAuto \<Rightarrow> (autoContended c, autoReason c))"

definition startAction :: "nat \<Rightarrow> Controller \<Rightarrow> heap \<Rightarrow> chan option \<times> chan \<times> Controller \<times> heap" where
  "startAction i c h =
     (let wait = actionDone c ! i in
      case make_chan h of (done_ch, h') \<Rightarrow>
        (wait, done_ch, c\<lparr>actionDone := (actionDone c)[i := Some done_ch]\<rparr>, h'))"

text \<open>\<^verbatim>\<open>wait, done := c.startAction(i); go c.doUnload(i, wait, done, trigger)\<close>, or \<^verbatim>\<open>doReload\<close>.\<close>

definition spawn_action ::
    "kind \<Rightarrow> unloadTrigger \<Rightarrow> nat \<Rightarrow> Controller \<Rightarrow> heap \<Rightarrow> action \<times> Controller \<times> heap" where
  "spawn_action k tr i c h =
     (case startAction i c h of (w, d, c', h') \<Rightarrow>
        (\<lparr>a_inst = i, a_kind = k, a_wait = w, a_done = d, a_trigger = tr\<rparr>, c', h'))"

fun spawn_each ::
    "kind \<Rightarrow> unloadTrigger \<Rightarrow> nat list \<Rightarrow> Controller \<Rightarrow> heap \<Rightarrow> action list \<times> Controller \<times> heap" where
  "spawn_each k tr [] c h = ([], c, h)"
| "spawn_each k tr (i # is) c h =
     (case spawn_action k tr i c h of (a, c1, h1) \<Rightarrow>
        case spawn_each k tr is c1 h1 of (as, c2, h2) \<Rightarrow> (a # as, c2, h2))"

definition cancel_ctx :: "nat \<Rightarrow> heap \<Rightarrow> heap" where
  "cancel_ctx x cx = cx\<lparr>closedc := insert x (closedc cx)\<rparr>"

text \<open>What a transition did: nothing, \<^verbatim>\<open>"start"\<close> with its reason, or \<^verbatim>\<open>"stop"\<close>.\<close>

datatype transition = NoTransition | YieldStart string | YieldStop

text \<open>
  \<^verbatim>\<open>applyLocked\<close> up to its reset loop: the effective flag, the serve context, the spawned actions and
  the call of the GPU manager (\<open>Some True\<close> pauses it, \<open>Some False\<close> resumes it).
\<close>

definition applyLocked_switch ::
    "Controller \<Rightarrow> heap \<Rightarrow> heap \<Rightarrow> transition \<times> action list \<times> bool option \<times> Controller \<times> heap \<times> heap" where
  "applyLocked_switch c h cx =
     (case computeLocked c of (eff, r) \<Rightarrow>
        if eff = effective c then (NoTransition, [], None, c, h, cx)
        else let c1 = c\<lparr>effective := eff\<rparr>; is = [0..<length (unloaders c)] in
          if eff then
            (let cx1 = cancel_ctx (serveCtx c1) cx in
             case spawn_each Unload triggerYield is c1 h of (as, c2, h2) \<Rightarrow>
               (YieldStart r, as, if gpuMgr c2 then Some True else None, c2, h2, cx1))
          else
            (case make_chan cx of (ctx, cx1) \<Rightarrow>
             case spawn_each Reload triggerYield is (c1\<lparr>serveCtx := ctx\<rparr>) h of (as, c2, h2) \<Rightarrow>
               (YieldStop, as, if gpuMgr c2 then Some False else None, c2, h2, cx1)))"

text \<open>The two stores of one round of the reset loop.\<close>

definition reset_dispatch :: "nat \<Rightarrow> instant \<Rightarrow> Controller \<Rightarrow> Controller" where
  "reset_dispatch i now c = c\<lparr>lastDispatch := (lastDispatch c)[i := now]\<rparr>"

definition reset_flag :: "nat \<Rightarrow> Controller \<Rightarrow> Controller" where
  "reset_flag i c = c\<lparr>idleUnloaded := (idleUnloaded c)[i := False]\<rparr>"

text \<open>\<^verbatim>\<open>applyLocked\<close> as a whole, when no tracked request interleaves with its atomic stores.\<close>

definition applyLocked ::
    "(nat \<Rightarrow> instant) \<Rightarrow> Controller \<Rightarrow> heap \<Rightarrow> heap \<Rightarrow> transition \<times> action list \<times> bool option \<times> Controller \<times> heap \<times> heap" where
  "applyLocked clk c h cx =
     (case applyLocked_switch c h cx of (ev, as, mgr, c1, h1, cx1) \<Rightarrow>
        (ev, as, mgr,
         if ev = YieldStop
         then fold (\<lambda>i c. reset_flag i (reset_dispatch i (clk i) c)) [0..<length (idleTimeouts c1)] c1 else c1,
         h1, cx1))"

section \<open>Idle unload\<close>

text \<open>
  One round of \<^verbatim>\<open>checkIdleLocked\<close> in its four atomic stages: the guards up to the load of
  \<^verbatim>\<open>inFlight\<close>, the load of \<^verbatim>\<open>idleUnloaded\<close>, the load of \<^verbatim>\<open>lastDispatch\<close> with the clock, and the
  compare-and-swap with the spawn, which only touches what the mutex protects.
\<close>

definition idle_guard :: "nat \<Rightarrow> Controller \<Rightarrow> bool" where
  "idle_guard i c \<longleftrightarrow> idleTimeouts c ! i \<noteq> 0 \<and> \<not> effective c \<and> \<not> inFlight c ! i > 0"

definition idle_flag_clear :: "nat \<Rightarrow> Controller \<Rightarrow> bool" where
  "idle_flag_clear i c \<longleftrightarrow> \<not> idleUnloaded c ! i"

definition idle_elapsed :: "nat \<Rightarrow> instant \<Rightarrow> Controller \<Rightarrow> bool" where
  "idle_elapsed i now c \<longleftrightarrow> now - lastDispatch c ! i \<ge> idleTimeouts c ! i"

definition idle_fire :: "nat \<Rightarrow> Controller \<Rightarrow> heap \<Rightarrow> action list \<times> Controller \<times> heap" where
  "idle_fire i c h =
     (if idleUnloaded c ! i then ([], c, h)
      else case spawn_action Unload triggerIdle i (c\<lparr>idleUnloaded := (idleUnloaded c)[i := True]\<rparr>) h of
        (a, c', h') \<Rightarrow> ([a], c', h'))"

definition checkIdle_one :: "nat \<Rightarrow> instant \<Rightarrow> Controller \<Rightarrow> heap \<Rightarrow> action list \<times> Controller \<times> heap" where
  "checkIdle_one i now c h =
     (if idle_guard i c \<and> idle_flag_clear i c \<and> idle_elapsed i now c then idle_fire i c h else ([], c, h))"

fun checkIdle_from :: "(nat \<Rightarrow> instant) \<Rightarrow> nat list \<Rightarrow> Controller \<Rightarrow> heap \<Rightarrow> action list \<times> Controller \<times> heap" where
  "checkIdle_from clk [] c h = ([], c, h)"
| "checkIdle_from clk (i # is) c h =
     (case checkIdle_one i (clk i) c h of (as, c1, h1) \<Rightarrow>
        case checkIdle_from clk is c1 h1 of (as', c2, h2) \<Rightarrow> (as @ as', c2, h2))"

definition checkIdleLocked :: "(nat \<Rightarrow> instant) \<Rightarrow> Controller \<Rightarrow> heap \<Rightarrow> action list \<times> Controller \<times> heap" where
  "checkIdleLocked clk c h = checkIdle_from clk [0..<length (idleTimeouts c)] c h"

section \<open>Tracked requests\<close>

text \<open>
  \<^verbatim>\<open>TrackActivity\<close> resolves the instance once, when the handler is wrapped (\<open>None\<close> is its panic or the
  index panic), and the handler it returns runs the atomic operations below in this order: enter,
  stamp, the compare-and-swap that may win the wake, and, deferred, leave and stamp again.
\<close>

definition TrackActivity :: "int \<Rightarrow> Controller \<Rightarrow> nat option" where
  "TrackActivity origIdx c =
     (if origIdx < 0 \<or> int (length (origToFiltered c)) \<le> origIdx then None
      else let post = origToFiltered c ! nat origIdx in if post = -1 then None else Some (nat post))"

definition track_add :: "nat \<Rightarrow> int \<Rightarrow> Controller \<Rightarrow> Controller" where
  "track_add i d c = c\<lparr>inFlight := (inFlight c)[i := inFlight c ! i + d]\<rparr>"

definition track_stamp :: "nat \<Rightarrow> instant \<Rightarrow> Controller \<Rightarrow> Controller" where
  "track_stamp i now c = c\<lparr>lastDispatch := (lastDispatch c)[i := now]\<rparr>"

definition track_cas :: "nat \<Rightarrow> Controller \<Rightarrow> bool \<times> Controller" where
  "track_cas i c =
     (if idleUnloaded c ! i then (True, c\<lparr>idleUnloaded := (idleUnloaded c)[i := False]\<rparr>) else (False, c))"

definition track_wake :: "nat \<Rightarrow> Controller \<Rightarrow> heap \<Rightarrow> action \<times> Controller \<times> heap" where
  "track_wake i c h = spawn_action Reload triggerIdle i c h"

section \<open>The operations under the mutex\<close>

definition refresh_detect :: "string \<Rightarrow> bool \<Rightarrow> instant \<Rightarrow> Controller \<Rightarrow> Controller" where
  "refresh_detect reason contended now c =
     (case debounceLocked reason contended c of ((ac, ar), c1) \<Rightarrow>
        c1\<lparr>autoContended := ac, autoReason := ar, lastPoll := Some now\<rparr>)"

definition refresh ::
    "string \<Rightarrow> bool \<Rightarrow> (nat \<Rightarrow> instant) \<Rightarrow> Controller \<Rightarrow> heap \<Rightarrow> heap \<Rightarrow>
      transition \<times> action list \<times> bool option \<times> Controller \<times> heap \<times> heap" where
  "refresh reason contended clk c h cx =
     (case applyLocked clk (refresh_detect reason contended (clk 0) c) h cx of (ev, as, mgr, c1, h1, cx1) \<Rightarrow>
        case checkIdleLocked clk c1 h1 of (as', c2, h2) \<Rightarrow> (ev, as @ as', mgr, c2, h2, cx1))"

text \<open>
  \<^verbatim>\<open>Run\<close>: one refresh at once and one for each tick until its context ends, each with what the detector found
  and the clock; the result has the actions spawned on the way.
\<close>

fun Run_ticks ::
    "(string \<times> bool \<times> (nat \<Rightarrow> instant)) list \<Rightarrow> Controller \<Rightarrow> heap \<Rightarrow> heap \<Rightarrow> action list \<times> Controller \<times> heap \<times> heap" where
  "Run_ticks [] c h cx = ([], c, h, cx)"
| "Run_ticks ((reason, contended, clk) # ps) c h cx =
     (case refresh reason contended clk c h cx of (_, as, _, c1, h1, cx1) \<Rightarrow>
        case Run_ticks ps c1 h1 cx1 of (as', s) \<Rightarrow> (as @ as', s))"

definition Run ::
    "string \<times> bool \<times> (nat \<Rightarrow> instant) \<Rightarrow> (string \<times> bool \<times> (nat \<Rightarrow> instant)) list \<Rightarrow> Controller \<Rightarrow> heap \<Rightarrow> heap \<Rightarrow>
      action list \<times> Controller \<times> heap \<times> heap" where
  "Run first ticks c h cx = Run_ticks (first # ticks) c h cx"

definition SetMode ::
    "Mode \<Rightarrow> (nat \<Rightarrow> instant) \<Rightarrow> Controller \<Rightarrow> heap \<Rightarrow> heap \<Rightarrow>
      transition \<times> action list \<times> bool option \<times> Controller \<times> heap \<times> heap" where
  "SetMode m clk c h cx = applyLocked clk (c\<lparr>mode := m\<rparr>) h cx"

definition Yielding :: "Controller \<Rightarrow> bool \<times> string" where
  "Yielding c = computeLocked c"

definition ServeContext :: "Controller \<Rightarrow> nat" where
  "ServeContext c = serveCtx c"

definition PollAge :: "instant \<Rightarrow> Controller \<Rightarrow> duration" where
  "PollAge now c = (case lastPoll c of None \<Rightarrow> maxInt64 | Some t \<Rightarrow> now - t)"

record State =
  st_Mode :: string
  st_Yielding :: bool
  st_Reason :: string
  st_AutoReason :: string

definition Snapshot :: "Controller \<Rightarrow> State" where
  "Snapshot c =
     (case computeLocked c of (y, r) \<Rightarrow>
        \<lparr>st_Mode = Mode_String (mode c), st_Yielding = y, st_Reason = r, st_AutoReason = autoReason c\<rparr>)"

record IdleSummaryEntry =
  e_Label :: string
  e_IdleTimeout :: string
  e_IdleUnloaded :: bool
  e_SinceLastDispatch :: string

definition IdleSummary :: "(nat \<Rightarrow> instant) \<Rightarrow> Controller \<Rightarrow> IdleSummaryEntry list option" where
  "IdleSummary clk c =
     (if \<not> list_ex (\<lambda>d. d \<noteq> 0) (idleTimeouts c) then None
      else let result = map (\<lambda>i. \<lparr>e_Label = labels c ! i, e_IdleTimeout = duration_String (idleTimeouts c ! i),
                 e_IdleUnloaded = idleUnloaded c ! i,
                 e_SinceLastDispatch = duration_String (clk i - lastDispatch c ! i)\<rparr>)
               (filter (\<lambda>i. idleTimeouts c ! i \<noteq> 0) [0..<length (idleTimeouts c)])
           in if result = [] then None else Some result)"

end
