(* ===== verification/Yield_System.thy ===== *)
theory Yield_System
  imports Yield_Controller
begin

text \<open>
  The yield controller under every interleaving. Each event is one atomic action of the code: a
  section under the mutex that touches only what the mutex protects, one load, store or
  compare-and-swap of an atomic, or the start or end of one call to an \<^verbatim>\<open>Unloader\<close>. The sections
  that work on atomics (the reset loop of \<^verbatim>\<open>applyLocked\<close>, \<^verbatim>\<open>checkIdleLocked\<close>) are split into their
  atomic accesses, with the mutex held from the first to the last.
\<close>

section \<open>The system\<close>

datatype apc = AWait | ARun | ADone

text \<open>Who holds the mutex, and where in its loops it is.\<close>

datatype lockpc =
    LFree
  | LReset nat bool bool   \<comment> \<open>instance, its timestamp is stored, the caller is \<^verbatim>\<open>refresh\<close>\<close>
  | LIdle nat nat          \<comment> \<open>instance, stages of \<^verbatim>\<open>checkIdleLocked\<close> passed\<close>

text \<open>Where a tracked request is, with its instance.\<close>

datatype tpc = TOut | TEntered nat | TStamped nat | TWon nat | TServing nat | TLeaving nat

record ysys =
  ctl :: Controller
  chs :: heap
  ctxs :: heap
  acts :: "nat \<Rightarrow> (action \<times> apc) list"   \<comment> \<open>the spawned actions of each instance, in spawn order\<close>
  calls :: "nat \<Rightarrow> kind list"             \<comment> \<open>the calls its \<^verbatim>\<open>Unloader\<close> received\<close>
  mgrp :: "bool list"                     \<comment> \<open>spawned calls of the GPU manager not yet run\<close>
  mgrlog :: "bool list"                   \<comment> \<open>the calls it received, \<open>True\<close> for a pause\<close>
  lk :: lockpc
  reqs :: "nat \<Rightarrow> tpc"
  ypanic :: bool

datatype yev =
    YRefresh string bool instant
  | YSetMode Mode
  | YReset instant
  | YIdle instant
  | TEnter nat nat
  | TStamp nat instant
  | TCas nat
  | TWake nat
  | TLeave nat
  | TStampOut nat instant
  | AStart nat nat
  | AEnd nat nat
  | MRun nat

fun spawned :: "action list \<Rightarrow> (nat \<Rightarrow> (action \<times> apc) list) \<Rightarrow> (nat \<Rightarrow> (action \<times> apc) list)" where
  "spawned [] f = f"
| "spawned (a # as) f = spawned as (f(a_inst a := f (a_inst a) @ [(a, AWait)]))"

definition n_inst :: "ysys \<Rightarrow> nat" where
  "n_inst S = length (unloaders (ctl S))"

text \<open>The locked part of a transition, and where the lock holder goes next.\<close>

definition apply_step :: "Controller \<Rightarrow> bool \<Rightarrow> ysys \<Rightarrow> ysys" where
  "apply_step c fromRefresh S =
     (case applyLocked_switch c (chs S) (ctxs S) of (ev, as, mgr, c1, h1, cx1) \<Rightarrow>
        S\<lparr>ctl := c1, chs := h1, ctxs := cx1, acts := spawned as (acts S),
          mgrp := mgrp S @ (case mgr of None \<Rightarrow> [] | Some b \<Rightarrow> [b]),
          lk := (if ev = YieldStop then LReset 0 False fromRefresh
                 else if fromRefresh then LIdle 0 0 else LFree)\<rparr>)"

definition reset_step :: "instant \<Rightarrow> ysys \<Rightarrow> ysys option" where
  "reset_step now S =
     (case lk S of
        LReset i stamped fr \<Rightarrow>
          Some (if length (idleTimeouts (ctl S)) \<le> i then S\<lparr>lk := if fr then LIdle 0 0 else LFree\<rparr>
                else if \<not> stamped then S\<lparr>ctl := reset_dispatch i now (ctl S), lk := LReset i True fr\<rparr>
                else S\<lparr>ctl := reset_flag i (ctl S), lk := LReset (Suc i) False fr\<rparr>)
      | _ \<Rightarrow> None)"

definition idle_step :: "instant \<Rightarrow> ysys \<Rightarrow> ysys option" where
  "idle_step now S =
     (case lk S of
        LIdle i stage \<Rightarrow>
          Some (let c = ctl S; skip = S\<lparr>lk := LIdle (Suc i) 0\<rparr> in
            if length (idleTimeouts c) \<le> i then S\<lparr>lk := LFree\<rparr>
            else if stage = 0 then (if idle_guard i c then S\<lparr>lk := LIdle i 1\<rparr> else skip)
            else if stage = 1 then (if idle_flag_clear i c then S\<lparr>lk := LIdle i 2\<rparr> else skip)
            else if stage = 2 then (if idle_elapsed i now c then S\<lparr>lk := LIdle i 3\<rparr> else skip)
            else (case idle_fire i c (chs S) of (as, c1, h1) \<Rightarrow>
              S\<lparr>ctl := c1, chs := h1, acts := spawned as (acts S), lk := LIdle (Suc i) 0\<rparr>))
      | _ \<Rightarrow> None)"

definition set_pc :: "nat \<Rightarrow> nat \<Rightarrow> apc \<Rightarrow> ysys \<Rightarrow> ysys" where
  "set_pc i k pc S =
     S\<lparr>acts := (acts S)(i := (acts S i)[k := (fst (acts S i ! k), pc)])\<rparr>"

text \<open>
  \<^verbatim>\<open>doUnload\<close> and \<^verbatim>\<open>doReload\<close>: wait for the predecessor, call the \<^verbatim>\<open>Unloader\<close>, close \<^verbatim>\<open>done\<close> on the way
  out. The call ends when it ends: by returning, by its error, by its timeout or by a panic, which
  is recovered; all four close \<^verbatim>\<open>done\<close>.
\<close>

definition action_start :: "nat \<Rightarrow> nat \<Rightarrow> ysys \<Rightarrow> ysys option" where
  "action_start i k S =
     (if k < length (acts S i) \<and> snd (acts S i ! k) = AWait
         \<and> (case a_wait (fst (acts S i ! k)) of None \<Rightarrow> True | Some w \<Rightarrow> w \<in> closedc (chs S))
      then Some ((set_pc i k ARun S)\<lparr>calls := (calls S)(i := calls S i @ [a_kind (fst (acts S i ! k))])\<rparr>)
      else None)"

definition action_end :: "nat \<Rightarrow> nat \<Rightarrow> ysys \<Rightarrow> ysys option" where
  "action_end i k S =
     (if k < length (acts S i) \<and> snd (acts S i ! k) = ARun
      then Some (case close_chan (a_done (fst (acts S i ! k))) (chs S) of
          None \<Rightarrow> S\<lparr>ypanic := True\<rparr>
        | Some h \<Rightarrow> (set_pc i k ADone S)\<lparr>chs := h\<rparr>)
      else None)"

text \<open>The handler \<^verbatim>\<open>TrackActivity\<close> returns, by request \<open>t\<close>.\<close>

definition set_req :: "nat \<Rightarrow> tpc \<Rightarrow> ysys \<Rightarrow> ysys" where
  "set_req t p S = S\<lparr>reqs := (reqs S)(t := p)\<rparr>"

fun track_step :: "yev \<Rightarrow> ysys \<Rightarrow> ysys option" where
  "track_step (TEnter t i) S =
     (if reqs S t = TOut \<and> i < n_inst S
      then Some (set_req t (TEntered i) (S\<lparr>ctl := track_add i 1 (ctl S)\<rparr>)) else None)"
| "track_step (TStamp t now) S =
     (case reqs S t of
        TEntered i \<Rightarrow> Some (set_req t (TStamped i) (S\<lparr>ctl := track_stamp i now (ctl S)\<rparr>)) | _ \<Rightarrow> None)"
| "track_step (TCas t) S =
     (case reqs S t of
        TStamped i \<Rightarrow> (case track_cas i (ctl S) of (won, c) \<Rightarrow>
          Some (set_req t (if won then TWon i else TServing i) (S\<lparr>ctl := c\<rparr>))) | _ \<Rightarrow> None)"
| "track_step (TWake t) S =
     (case reqs S t of
        TWon i \<Rightarrow> (if lk S = LFree then (case track_wake i (ctl S) (chs S) of (a, c, h) \<Rightarrow>
            Some (set_req t (TServing i) (S\<lparr>ctl := c, chs := h, acts := spawned [a] (acts S)\<rparr>)))
          else None) | _ \<Rightarrow> None)"
| "track_step (TLeave t) S =
     (case reqs S t of
        TServing i \<Rightarrow> Some (set_req t (TLeaving i) (S\<lparr>ctl := track_add i (-1) (ctl S)\<rparr>)) | _ \<Rightarrow> None)"
| "track_step (TStampOut t now) S =
     (case reqs S t of
        TLeaving i \<Rightarrow> Some (set_req t TOut (S\<lparr>ctl := track_stamp i now (ctl S)\<rparr>)) | _ \<Rightarrow> None)"
| "track_step _ S = None"

fun yield_exec :: "yev \<Rightarrow> ysys \<Rightarrow> ysys option" where
  "yield_exec (YRefresh reason contended now) S =
     (if lk S = LFree then Some (apply_step (refresh_detect reason contended now (ctl S)) True S) else None)"
| "yield_exec (YSetMode m) S =
     (if lk S = LFree then Some (apply_step ((ctl S)\<lparr>mode := m\<rparr>) False S) else None)"
| "yield_exec (YReset now) S = reset_step now S"
| "yield_exec (YIdle now) S = idle_step now S"
| "yield_exec (AStart i k) S = action_start i k S"
| "yield_exec (AEnd i k) S = action_end i k S"
| "yield_exec (MRun k) S =
     (if k < length (mgrp S)
      then Some (S\<lparr>mgrp := splice_out k (mgrp S), mgrlog := mgrlog S @ [mgrp S ! k]\<rparr>) else None)"
| "yield_exec e S = track_step e S"

text \<open>A controller as the constructor leaves it, perhaps configured, before anything runs.\<close>

definition yield_init :: "Controller \<Rightarrow> heap \<Rightarrow> ysys" where
  "yield_init c cx =
     \<lparr>ctl = c, chs = empty_heap, ctxs = cx, acts = (\<lambda>_. []), calls = (\<lambda>_. []), mgrp = [], mgrlog = [],
      lk = LFree, reqs = (\<lambda>_. TOut), ypanic = False\<rparr>"

definition yield_start :: "ysys \<Rightarrow> bool" where
  "yield_start S \<longleftrightarrow>
     (\<exists>us lbls itv polls now ds mgr c c' cx.
        NewWithConfirmMulti us lbls itv polls now empty_heap = (c, cx) \<and> ConfigureIdle ds c = Some c'
        \<and> S = yield_init (SetGPUManager mgr c') cx)"

section \<open>One instance's chain of actions\<close>

text \<open>
  What \<^verbatim>\<open>startAction\<close> keeps: each action waits on its predecessor's channel, the channels are fresh,
  a channel is closed exactly when its action is over, an action starts only after its predecessor
  ended, and \<open>ad\<close>, the instance's entry of \<^verbatim>\<open>actionDone\<close>, is the last one's channel.
\<close>

definition dones :: "(action \<times> apc) list \<Rightarrow> chan list" where
  "dones l = map (\<lambda>p. a_done (fst p)) l"

definition chain :: "chan option \<Rightarrow> heap \<Rightarrow> (action \<times> apc) list \<Rightarrow> bool" where
  "chain ad h l \<longleftrightarrow>
     (\<forall>k<length l. a_wait (fst (l ! k)) = (if k = 0 then None else Some (dones l ! (k - 1))))
     \<and> (\<forall>k<length l. dones l ! k < nextc h \<and> (dones l ! k \<in> closedc h \<longleftrightarrow> snd (l ! k) = ADone))
     \<and> distinct (dones l)
     \<and> (\<forall>k<length l. snd (l ! k) \<noteq> AWait \<longrightarrow> k = 0 \<or> snd (l ! (k - 1)) = ADone)
     \<and> ad = (if l = [] then None else Some (last (dones l)))"

lemma length_dones [simp]: "length (dones l) = length l"
  by (simp add: dones_def)

lemma dones_nth [simp]: "k < length l \<Longrightarrow> dones l ! k = a_done (fst (l ! k))"
  by (simp add: dones_def)

lemma dones_snoc [simp]: "dones (l @ [p]) = dones l @ [a_done (fst p)]"
  by (simp add: dones_def)

lemma dones_Nil_iff [simp]: "dones l = [] \<longleftrightarrow> l = []"
  by (simp add: dones_def)

lemma dones_update_pc: "k < length l \<Longrightarrow> dones (l[k := (fst (l ! k), pc)]) = dones l"
  by (rule nth_equalityI) (auto simp: dones_def nth_list_update)

lemma chain_dones_old: "chain ad h l \<Longrightarrow> x \<in> set (dones l) \<Longrightarrow> x < nextc h"
  unfolding chain_def in_set_conv_nth by (auto simp: length_dones)

lemma chain_Nil: "chain None h []"
  by (simp add: chain_def dones_def)

lemma last_dones: "l \<noteq> [] \<Longrightarrow> last (dones l) = dones l ! (length l - 1)"
  by (simp add: last_conv_nth del: dones_nth)

lemma chain_snoc:
  assumes "chain ad h l" and "heap_ok h" and "a_wait a = ad" and "a_done a = nextc h"
  shows "chain (Some (nextc h)) (h\<lparr>nextc := Suc (nextc h)\<rparr>) (l @ [(a, AWait)])"
proof -
  have fresh: "nextc h \<notin> set (dones l)" using chain_dones_old [OF assms(1)] by blast
  have open_ch: "nextc h \<notin> closedc h" using assms(2) by (auto simp: heap_ok_def)
  show ?thesis unfolding chain_def
  proof ((intro conjI allI impI), goal_cases)
    case (1 k)
    then show ?case using assms
      by (cases "k < length l") (auto simp: chain_def nth_append last_dones less_Suc_eq)
  next
    case (2 k)
    then show ?case using assms by (cases "k < length l") (auto simp: chain_def nth_append less_Suc_eq)
  next
    case (3 k)
    then show ?case using assms open_ch by (cases "k < length l") (auto simp: chain_def nth_append less_Suc_eq)
  next
    case 4
    then show ?case using assms fresh by (simp add: chain_def)
  next
    case (5 k)
    then have "k < length l" by (cases "k = length l") auto
    with 5 assms show ?case by (auto simp: chain_def nth_append)
  next
    case 6
    then show ?case using assms by simp
  qed
qed

lemma chain_heap:
  assumes "chain ad h l" and "nextc h \<le> nextc h'"
    and "\<forall>x\<in>set (dones l). x \<in> closedc h' \<longleftrightarrow> x \<in> closedc h"
  shows "chain ad h' l"
proof -
  have "dones l ! k \<in> set (dones l)" if "k < length l" for k using that by (metis length_dones nth_mem)
  then show ?thesis using assms unfolding chain_def by (meson less_le_trans)
qed

lemma chain_start_pc:
  assumes "chain ad h l" and "k < length l" and "snd (l ! k) = AWait"
    and "case a_wait (fst (l ! k)) of None \<Rightarrow> True | Some w \<Rightarrow> w \<in> closedc h"
  shows "chain ad h (l[k := (fst (l ! k), ARun)])"
proof -
  let ?l = "l[k := (fst (l ! k), ARun)]"
  have same: "dones ?l = dones l" by (rule dones_update_pc [OF assms(2)])
  have pred: "k = 0 \<or> snd (l ! (k - 1)) = ADone"
    using assms by (cases "k = 0") (auto simp: chain_def)
  show ?thesis using assms pred unfolding chain_def same
    by (auto simp: nth_list_update)
qed

lemma chain_end_pc:
  assumes "chain ad h l" and "k < length l" and "snd (l ! k) = ARun"
    and "close_chan (dones l ! k) h = Some h'"
  shows "chain ad h' (l[k := (fst (l ! k), ADone)])"
proof -
  let ?l = "l[k := (fst (l ! k), ADone)]"
  have same: "dones ?l = dones l" by (rule dones_update_pc [OF assms(2)])
  have h': "h' = h\<lparr>closedc := insert (dones l ! k) (closedc h)\<rparr>" using assms(4) by (simp only: close_chan_Some_iff)
  have inj: "dones l ! j = dones l ! k \<longleftrightarrow> j = k" if "j < length l" for j
    using assms(1,2) that by (simp add: chain_def nth_eq_iff_index_eq del: dones_nth)
  show ?thesis using assms(1-3) inj unfolding chain_def same h'
    by (auto simp: nth_list_update simp del: dones_nth)
qed

lemma chain_open: "chain ad h l \<Longrightarrow> k < length l \<Longrightarrow> snd (l ! k) = ARun \<Longrightarrow> dones l ! k \<notin> closedc h"
  unfolding chain_def by auto

text \<open>The finished actions are an initial segment, with at most one running after them.\<close>

lemma chain_started_before:
  assumes "chain ad h l" and "j < k" and "k < length l" and "snd (l ! k) \<noteq> AWait"
  shows "snd (l ! j) = ADone"
  using assms(2-4)
proof (induction k)
  case 0
  then show ?case by simp
next
  case (Suc k)
  then have "snd (l ! k) = ADone" using assms(1) unfolding chain_def by fastforce
  with Suc show ?case by (cases "j = k") auto
qed

lemma chain_progress:
  assumes "chain ad h l" and "\<exists>p\<in>set l. snd p \<noteq> ADone"
  obtains k where "k < length l" and "snd (l ! k) = ARun"
  | k where "k < length l" and "snd (l ! k) = AWait"
      and "case a_wait (fst (l ! k)) of None \<Rightarrow> True | Some w \<Rightarrow> w \<in> closedc h"
proof -
  let ?P = "\<lambda>k. k < length l \<and> snd (l ! k) \<noteq> ADone"
  define k where "k = (LEAST k. ?P k)"
  have "\<exists>k. ?P k" using assms(2) by (metis in_set_conv_nth)
  then have k: "?P k" unfolding k_def by (rule LeastI_ex)
  have before: "snd (l ! j) = ADone" if "j < k" for j
    using not_less_Least [of j ?P] that k unfolding k_def [symmetric] by auto
  show ?thesis
  proof (cases "snd (l ! k)")
    case AWait
    have "case a_wait (fst (l ! k)) of None \<Rightarrow> True | Some w \<Rightarrow> w \<in> closedc h"
      using assms(1) k before [of "k - 1"] by (cases "k = 0") (auto simp: chain_def)
    with AWait k that(2) show ?thesis by blast
  qed (use k that(1) in auto)
qed

text \<open>How many have started: the calls the \<^verbatim>\<open>Unloader\<close> has seen.\<close>

definition started :: "(action \<times> apc) list \<Rightarrow> kind list" where
  "started l = map (\<lambda>p. a_kind (fst p)) (filter (\<lambda>p. snd p \<noteq> AWait) l)"

lemma started_snoc [simp]: "started (l @ [(a, AWait)]) = started l"
  by (simp add: started_def)

lemma chain_started_prefix:
  assumes "chain ad h l" and "k < length l" and "snd (l ! k) = AWait"
  shows "filter (\<lambda>p. snd p \<noteq> AWait) (drop k l) = []"
proof -
  have "snd (l ! j) = AWait" if "k \<le> j" "j < length l" for j
    using chain_started_before [OF assms(1), of k j] that assms by (cases "k = j") fastforce+
  then have "snd (drop k l ! j) = AWait" if "j < length (drop k l)" for j
    using that by simp
  then show ?thesis by (metis (mono_tags, lifting) filter_False in_set_conv_nth)
qed

lemma chain_started_start:
  assumes "chain ad h l" and "k < length l" and "snd (l ! k) = AWait"
    and "case a_wait (fst (l ! k)) of None \<Rightarrow> True | Some w \<Rightarrow> w \<in> closedc h"
  shows "started (l[k := (fst (l ! k), ARun)]) = started l @ [a_kind (fst (l ! k))]"
proof -
  have l: "l = take k l @ l ! k # drop (Suc k) l" using assms(2) by (rule id_take_nth_drop)
  have tail: "filter (\<lambda>p. snd p \<noteq> AWait) (drop (Suc k) l) = []"
    using chain_started_prefix [OF assms(1-3)] Cons_nth_drop_Suc [OF assms(2)] by (metis filter.simps(2) list.distinct(1))
  have u: "l[k := (fst (l ! k), ARun)] = take k l @ (fst (l ! k), ARun) # drop (Suc k) l"
    using assms(2) by (rule upd_conv_take_nth_drop)
  have "started l = started (take k l)"
    by (subst l) (simp add: started_def assms(3) tail)
  then show ?thesis unfolding u by (simp add: started_def tail)
qed

lemma started_end:
  assumes "k < length l" and "snd (l ! k) = ARun"
  shows "started (l[k := (fst (l ! k), ADone)]) = started l"
proof -
  have l: "l = take k l @ l ! k # drop (Suc k) l" using assms(1) by (rule id_take_nth_drop)
  have u: "l[k := (fst (l ! k), ADone)] = take k l @ (fst (l ! k), ADone) # drop (Suc k) l"
    using assms(1) by (rule upd_conv_take_nth_drop)
  show ?thesis unfolding u by (subst (4) l) (simp add: started_def assms(2))
qed

section \<open>All chains together\<close>

definition ad_at :: "chan option list \<Rightarrow> nat \<Rightarrow> chan option" where
  "ad_at ads i = (if i < length ads then ads ! i else None)"

definition chains :: "chan option list \<Rightarrow> heap \<Rightarrow> (nat \<Rightarrow> (action \<times> apc) list) \<Rightarrow> bool" where
  "chains ads h f \<longleftrightarrow>
     heap_ok h \<and> (\<forall>i. chain (ad_at ads i) h (f i))
     \<and> (\<forall>i j. i \<noteq> j \<longrightarrow> set (dones (f i)) \<inter> set (dones (f j)) = {})"

lemma chainsD:
  assumes "chains ads h f"
  shows "heap_ok h" and "\<And>i. chain (ad_at ads i) h (f i)"
    and "\<And>i j x. x \<in> set (dones (f i)) \<Longrightarrow> x \<in> set (dones (f j)) \<Longrightarrow> i = j"
  using assms unfolding chains_def by blast+

lemma spawn_action_eq:
  "spawn_action k tr i c h =
     (\<lparr>a_inst = i, a_kind = k, a_wait = actionDone c ! i, a_done = nextc h, a_trigger = tr\<rparr>,
      c\<lparr>actionDone := (actionDone c)[i := Some (nextc h)]\<rparr>, h\<lparr>nextc := Suc (nextc h)\<rparr>)"
  by (simp add: spawn_action_def startAction_def make_chan_def Let_def)

lemma chains_spawn:
  assumes "chains ads h f" and "i < length ads" and "a_wait a = ads ! i" and "a_done a = nextc h"
  shows "chains (ads[i := Some (nextc h)]) (h\<lparr>nextc := Suc (nextc h)\<rparr>) (f(i := f i @ [(a, AWait)]))"
proof -
  note I = chainsD [OF assms(1)]
  let ?h = "h\<lparr>nextc := Suc (nextc h)\<rparr>"
  have "heap_ok ?h" using I(1) by (auto simp: heap_ok_def)
  moreover have "chain (ad_at (ads[i := Some (nextc h)]) j) ?h ((f(i := f i @ [(a, AWait)])) j)" for j
  proof (cases "j = i")
    case True
    then show ?thesis using chain_snoc [OF I(2) [of i] I(1)] assms by (simp add: ad_at_def)
  next
    case False
    then have "ad_at (ads[i := Some (nextc h)]) j = ad_at ads j" by (simp add: ad_at_def)
    with False show ?thesis using chain_heap [OF I(2) [of j], of ?h] by simp
  qed
  moreover have "set (dones ((f(i := f i @ [(a, AWait)])) j)) \<inter> set (dones ((f(i := f i @ [(a, AWait)])) l)) = {}"
    if "j \<noteq> l" for j l
  proof -
    have "nextc h \<notin> set (dones (f m))" for m using chain_dones_old [OF I(2) [of m]] by blast
    moreover have "set (dones (f j)) \<inter> set (dones (f l)) = {}" using I(3) that by blast
    ultimately show ?thesis using that assms(4) by auto
  qed
  ultimately show ?thesis unfolding chains_def by blast
qed

lemma spawned_inst: "\<forall>a\<in>set as. a_inst a \<noteq> i \<Longrightarrow> spawned as f i = f i"
  by (induction as arbitrary: f) auto

text \<open>What a round of spawns does to the chains: one action of the kind appended to each instance.\<close>

lemma spawn_each_spec:
  assumes "spawn_each k tr is c h = (as, c', h')" and "chains (actionDone c) h f"
    and "\<forall>i\<in>set is. i < length (actionDone c)" and "distinct is"
  obtains ads where "c' = c\<lparr>actionDone := ads\<rparr>" and "length ads = length (actionDone c)"
    and "chains ads h' (spawned as f)"
    and "map a_inst as = is" and "\<forall>a\<in>set as. a_kind a = k \<and> a_trigger a = tr"
    and "\<forall>i\<in>set is. \<exists>a. a_kind a = k \<and> spawned as f i = f i @ [(a, AWait)]"
    and "\<forall>i. i \<notin> set is \<longrightarrow> spawned as f i = f i"
  using assms
proof (induction "is" arbitrary: c h f as thesis)
  case Nil
  show ?case by (rule Nil.prems(1) [of "actionDone c"]) (use Nil.prems(2,3) in simp_all)
next
  case (Cons i "is")
  let ?a = "\<lparr>a_inst = i, a_kind = k, a_wait = actionDone c ! i, a_done = nextc h, a_trigger = tr\<rparr>"
  let ?c = "c\<lparr>actionDone := (actionDone c)[i := Some (nextc h)]\<rparr>"
  let ?h = "h\<lparr>nextc := Suc (nextc h)\<rparr>" and ?f = "f(i := f i @ [(?a, AWait)])"
  obtain as' where as': "spawn_each k tr is ?c ?h = (as', c', h')" "as = ?a # as'"
    using Cons.prems(2) by (auto simp: spawn_action_eq split: prod.splits)
  have ch: "chains (actionDone ?c) ?h ?f"
    using chains_spawn [OF Cons.prems(3), of i ?a] Cons.prems(4) by simp
  have bnd: "\<forall>j\<in>set is. j < length (actionDone ?c)" and dst: "distinct is"
    using Cons.prems(4,5) by simp_all
  obtain ads where IH: "c' = ?c\<lparr>actionDone := ads\<rparr>" "length ads = length (actionDone ?c)"
    "chains ads h' (spawned as' ?f)" "map a_inst as' = is"
    "\<forall>a\<in>set as'. a_kind a = k \<and> a_trigger a = tr"
    "\<forall>j\<in>set is. \<exists>a. a_kind a = k \<and> spawned as' ?f j = ?f j @ [(a, AWait)]"
    "\<forall>j. j \<notin> set is \<longrightarrow> spawned as' ?f j = ?f j"
    by (rule Cons.IH [OF _ as'(1) ch bnd dst]) (rule that)
  show ?case
  proof (rule Cons.prems(1) [of ads])
    show "\<forall>j\<in>set (i # is). \<exists>a. a_kind a = k \<and> spawned as f j = f j @ [(a, AWait)]"
      using IH(6,7) Cons.prems(5) as'(2) by auto
    show "\<forall>j. j \<notin> set (i # is) \<longrightarrow> spawned as f j = f j"
      using IH(7) as'(2) by simp
  qed (use IH(1-5) as'(2) in simp_all)
qed

lemma spawn_all_spec:
  assumes "spawn_each k tr [0..<n] c h = (as, c', h')" and "chains (actionDone c) h f"
    and "length (actionDone c) = n"
  shows "\<exists>ads. c' = c\<lparr>actionDone := ads\<rparr> \<and> length ads = n \<and> chains ads h' (spawned as f)
    \<and> (\<forall>i<n. \<exists>a. a_kind a = k \<and> spawned as f i = f i @ [(a, AWait)])
    \<and> (\<forall>i. \<not> i < n \<longrightarrow> spawned as f i = f i)"
proof -
  have "\<forall>i\<in>set [0..<n]. i < length (actionDone c)" "distinct [0..<n]" using assms(3) by simp_all
  from spawn_each_spec [OF assms(1,2) this] obtain ads where
    "c' = c\<lparr>actionDone := ads\<rparr>" "length ads = length (actionDone c)" "chains ads h' (spawned as f)"
    "\<forall>i\<in>set [0..<n]. \<exists>a. a_kind a = k \<and> spawned as f i = f i @ [(a, AWait)]"
    "\<forall>i. i \<notin> set [0..<n] \<longrightarrow> spawned as f i = f i"
    by blast
  then show ?thesis using assms(3) by (intro exI [of _ ads]) simp
qed

section \<open>The invariant\<close>

definition shape :: "Controller \<Rightarrow> bool" where
  "shape c \<longleftrightarrow>
     length (labels c) = length (unloaders c) \<and> length (actionDone c) = length (unloaders c)
     \<and> length (idleTimeouts c) = length (unloaders c) \<and> length (lastDispatch c) = length (unloaders c)
     \<and> length (inFlight c) = length (unloaders c) \<and> length (idleUnloaded c) = length (unloaders c)"

definition serve_ok :: "ysys \<Rightarrow> bool" where
  "serve_ok S \<longleftrightarrow>
     heap_ok (ctxs S) \<and> serveCtx (ctl S) < nextc (ctxs S)
     \<and> effective (ctl S) = fst (computeLocked (ctl S))
     \<and> (serveCtx (ctl S) \<in> closedc (ctxs S) \<longleftrightarrow> effective (ctl S))
     \<and> {..<nextc (ctxs S)} \<subseteq> insert (serveCtx (ctl S)) (closedc (ctxs S))"

definition chains_ok :: "ysys \<Rightarrow> bool" where
  "chains_ok S \<longleftrightarrow>
     chains (actionDone (ctl S)) (chs S) (acts S) \<and> (\<forall>i. calls S i = started (acts S i)) \<and> \<not> ypanic S"

text \<open>What instance \<open>i\<close> was last asked to do; an instance starts loaded.\<close>

definition requested :: "ysys \<Rightarrow> nat \<Rightarrow> kind" where
  "requested S i = (if acts S i = [] then Reload else a_kind (fst (last (acts S i))))"

definition idle_ok :: "ysys \<Rightarrow> bool" where
  "idle_ok S \<longleftrightarrow>
     (\<forall>i<n_inst S. \<not> effective (ctl S) \<and> \<not> idleUnloaded (ctl S) ! i \<and> requested S i = Unload
        \<longrightarrow> (\<exists>t. reqs S t = TWon i))
     \<and> (\<forall>i b fr. lk S = LReset i b fr \<longrightarrow> \<not> effective (ctl S) \<and> (\<forall>j<n_inst S. requested S j = Reload))
     \<and> (\<forall>i s. lk S = LIdle i s \<and> s \<ge> 1 \<longrightarrow>
          i < n_inst S \<and> \<not> effective (ctl S) \<and> idleTimeouts (ctl S) ! i \<noteq> 0)"

text \<open>The instance a tracked request counts for, between its two atomic additions.\<close>

definition counts_for :: "tpc \<Rightarrow> nat option" where
  "counts_for p = (case p of TEntered i \<Rightarrow> Some i | TStamped i \<Rightarrow> Some i | TWon i \<Rightarrow> Some i
     | TServing i \<Rightarrow> Some i | _ \<Rightarrow> None)"

definition count_ok :: "ysys \<Rightarrow> bool" where
  "count_ok S \<longleftrightarrow>
     (\<forall>i<n_inst S. finite {t. counts_for (reqs S t) = Some i}
        \<and> inFlight (ctl S) ! i = int (card {t. counts_for (reqs S t) = Some i}))
     \<and> (\<forall>t i. counts_for (reqs S t) = Some i \<longrightarrow> i < n_inst S)
     \<and> (\<forall>t i. reqs S t = TLeaving i \<longrightarrow> i < n_inst S)"

definition yield_inv :: "ysys \<Rightarrow> bool" where
  "yield_inv S \<longleftrightarrow> shape (ctl S) \<and> serve_ok S \<and> chains_ok S \<and> idle_ok S \<and> count_ok S"

lemma yield_invD:
  assumes "yield_inv S"
  shows "shape (ctl S)" "serve_ok S" "chains_ok S" "idle_ok S" "count_ok S"
  using assms by (simp_all add: yield_inv_def)

subsection \<open>The transition\<close>

text \<open>
  The three outcomes of \<^verbatim>\<open>applyLocked\<close>'s switch, as the proofs use them: the fields it leaves alone,
  and the actions it spawned on every instance.
\<close>

lemma applyLocked_switch_cases:
  assumes "applyLocked_switch c h cx = (ev, as, mgr, c', h', cx')"
  obtains (same) "ev = NoTransition" "as = []" "mgr = None" "c' = c" "h' = h" "cx' = cx"
      "fst (computeLocked c) = effective c"
  | (start) r where "ev = YieldStart r" "cx' = cancel_ctx (serveCtx c) cx" "fst (computeLocked c)"
      "\<not> effective c"
      "spawn_each Unload triggerYield [0..<length (unloaders c)] (c\<lparr>effective := True\<rparr>) h = (as, c', h')"
      "mgr = (if gpuMgr c' then Some True else None)"
  | (stop) "ev = YieldStop" "cx' = cx\<lparr>nextc := Suc (nextc cx)\<rparr>" "\<not> fst (computeLocked c)" "effective c"
      "spawn_each Reload triggerYield [0..<length (unloaders c)] (c\<lparr>effective := False, serveCtx := nextc cx\<rparr>) h
        = (as, c', h')"
      "mgr = (if gpuMgr c' then Some False else None)"
  using assms unfolding applyLocked_switch_def make_chan_def
  by (auto simp: Let_def split: prod.splits if_splits)

text \<open>A controller that differs only in the override and the detection state.\<close>

definition same_core :: "Controller \<Rightarrow> Controller \<Rightarrow> bool" where
  "same_core c d \<longleftrightarrow>
     unloaders c = unloaders d \<and> labels c = labels d \<and> effective c = effective d \<and> serveCtx c = serveCtx d
     \<and> actionDone c = actionDone d \<and> idleTimeouts c = idleTimeouts d \<and> lastDispatch c = lastDispatch d
     \<and> inFlight c = inFlight d \<and> idleUnloaded c = idleUnloaded d"

lemma same_core_mode: "same_core (c\<lparr>mode := m\<rparr>) c"
  by (simp add: same_core_def)

lemma same_core_refresh: "same_core (refresh_detect reason contended now c) c"
  by (simp add: same_core_def refresh_detect_def debounceLocked_def Let_def)

lemma computeLocked_core [simp]:
  "computeLocked (c\<lparr>effective := b\<rparr>) = computeLocked c"
  "computeLocked (c\<lparr>serveCtx := x\<rparr>) = computeLocked c"
  "computeLocked (c\<lparr>actionDone := ads\<rparr>) = computeLocked c"
  "computeLocked (c\<lparr>inFlight := fl\<rparr>) = computeLocked c"
  "computeLocked (c\<lparr>lastDispatch := ld\<rparr>) = computeLocked c"
  "computeLocked (c\<lparr>idleUnloaded := iu\<rparr>) = computeLocked c"
  by (simp_all add: computeLocked_def split: Mode.split)

text \<open>
  What the transition did to the system: the controller's new effective flag, the chains, and the
  last request on every instance.
\<close>

lemma apply_step_cases:
  assumes "yield_inv S" and "same_core c (ctl S)" and "apply_step c fr S = S'"
  obtains (same) "ctl S' = c" "acts S' = acts S" "chs S' = chs S" "ctxs S' = ctxs S"
      "lk S' = (if fr then LIdle 0 0 else LFree)" "fst (computeLocked c) = effective (ctl S)"
      "mgrp S' = mgrp S"
  | (start) ads where "ctl S' = c\<lparr>effective := True, actionDone := ads\<rparr>" "length ads = length (actionDone c)"
      "chains ads (chs S') (acts S')" "\<forall>i<n_inst S. \<exists>a. a_kind a = Unload \<and> acts S' i = acts S i @ [(a, AWait)]"
      "\<forall>i. \<not> i < n_inst S \<longrightarrow> acts S' i = acts S i"
      "ctxs S' = cancel_ctx (serveCtx c) (ctxs S)" "lk S' = (if fr then LIdle 0 0 else LFree)"
      "fst (computeLocked c)" "\<not> effective (ctl S)"
      "mgrp S' = mgrp S @ (if gpuMgr c then [True] else [])"
  | (stop) ads where "ctl S' = c\<lparr>effective := False, serveCtx := nextc (ctxs S), actionDone := ads\<rparr>"
      "length ads = length (actionDone c)" "chains ads (chs S') (acts S')"
      "\<forall>i<n_inst S. \<exists>a. a_kind a = Reload \<and> acts S' i = acts S i @ [(a, AWait)]"
      "\<forall>i. \<not> i < n_inst S \<longrightarrow> acts S' i = acts S i"
      "ctxs S' = (ctxs S)\<lparr>nextc := Suc (nextc (ctxs S))\<rparr>" "lk S' = LReset 0 False fr"
      "\<not> fst (computeLocked c)" "effective (ctl S)"
      "mgrp S' = mgrp S @ (if gpuMgr c then [False] else [])"
proof -
  note I = yield_invD [OF assms(1)]
  have core: "unloaders c = unloaders (ctl S)" "actionDone c = actionDone (ctl S)" "effective c = effective (ctl S)"
    using assms(2) by (simp_all add: same_core_def)
  have n: "n_inst S = length (unloaders c)" "length (actionDone c) = length (unloaders c)"
    using I(1) core by (simp_all add: n_inst_def shape_def)
  have ch: "chains (actionDone c) (chs S) (acts S)" using I(3) core by (simp add: chains_ok_def)
  obtain ev as mgr c' h' cx' where sw: "applyLocked_switch c (chs S) (ctxs S) = (ev, as, mgr, c', h', cx')"
    by (metis prod_cases6)
  have S': "S' = S\<lparr>ctl := c', chs := h', ctxs := cx', acts := spawned as (acts S),
        mgrp := mgrp S @ (case mgr of None \<Rightarrow> [] | Some b \<Rightarrow> [b]),
        lk := (if ev = YieldStop then LReset 0 False fr else if fr then LIdle 0 0 else LFree)\<rparr>"
    using assms(3) sw by (simp add: apply_step_def)
  from sw show thesis
  proof (cases rule: applyLocked_switch_cases)
    case same
    then show thesis using that(1) S' core(3) by simp
  next
    case (start r)
    from spawn_all_spec [OF start(5), of "acts S"] obtain ads where
      "c' = c\<lparr>effective := True, actionDone := ads\<rparr>" "length ads = length (actionDone c)"
      "chains ads h' (spawned as (acts S))"
      "\<forall>i<length (unloaders c). \<exists>a. a_kind a = Unload \<and> spawned as (acts S) i = acts S i @ [(a, AWait)]"
      "\<forall>i. \<not> i < length (unloaders c) \<longrightarrow> spawned as (acts S) i = acts S i"
      using ch n(2) by auto
    then show thesis using that(2) [of ads] S' n(1) start core(3) by simp
  next
    case stop
    from spawn_all_spec [OF stop(5), of "acts S"] obtain ads where
      "c' = c\<lparr>effective := False, serveCtx := nextc (ctxs S), actionDone := ads\<rparr>"
      "length ads = length (actionDone c)" "chains ads h' (spawned as (acts S))"
      "\<forall>i<length (unloaders c). \<exists>a. a_kind a = Reload \<and> spawned as (acts S) i = acts S i @ [(a, AWait)]"
      "\<forall>i. \<not> i < length (unloaders c) \<longrightarrow> spawned as (acts S) i = acts S i"
      using ch n(2) by auto
    note sp = this
    show thesis
      by (rule that(3) [of ads]) (use S' n(1) stop(1-4,6) core(3) sp in simp_all)
  qed
qed

subsection \<open>Every event keeps the invariant\<close>

lemma heap_ok_cancel: "heap_ok cx \<Longrightarrow> x < nextc cx \<Longrightarrow> heap_ok (cancel_ctx x cx)"
  by (auto simp: heap_ok_def cancel_ctx_def)

lemma heap_ok_next: "heap_ok h \<Longrightarrow> heap_ok (h\<lparr>nextc := Suc (nextc h)\<rparr>)"
  by (auto simp: heap_ok_def)

lemma requested_snoc: "acts S i = l @ [(a, pc)] \<Longrightarrow> requested S i = a_kind a"
  by (simp add: requested_def)

lemma apply_step_frame:
  "calls (apply_step c fr S) = calls S" "reqs (apply_step c fr S) = reqs S"
  "ypanic (apply_step c fr S) = ypanic S" "mgrlog (apply_step c fr S) = mgrlog S"
  by (simp_all add: apply_step_def split: prod.splits)

lemma apply_step_inv:
  assumes "yield_inv S" and "same_core c (ctl S)" and "lk S = LFree"
  shows "yield_inv (apply_step c fr S)"
proof -
  let ?S = "apply_step c fr S"
  note I = yield_invD [OF assms(1)]
  note core = assms(2) [unfolded same_core_def]
  note frame = apply_step_frame [of c fr S]
  show ?thesis using assms(1,2) refl [of ?S]
  proof (cases rule: apply_step_cases)
    case same
    then show ?thesis using I core frame assms(3)
      by (auto simp: yield_inv_def shape_def serve_ok_def chains_ok_def idle_ok_def count_ok_def n_inst_def requested_def)
  next
    case (start ads)
    have n: "n_inst ?S = n_inst S" using start(1) core by (simp add: n_inst_def)
    have "shape (ctl ?S)" using I(1) core start(1,2) by (simp add: shape_def)
    moreover have "serve_ok ?S"
      using I(2) core start heap_ok_cancel by (auto simp: serve_ok_def cancel_ctx_def)
    moreover have "started (acts ?S i) = started (acts S i)" for i
      using start(4,5) by (cases "i < n_inst S") fastforce+
    then have "chains_ok ?S" using I(3) start(1,3) frame by (simp add: chains_ok_def)
    moreover have "idle_ok ?S" using start(1,7) by (simp add: idle_ok_def split: if_splits)
    moreover have "count_ok ?S" using I(5) core start(1) frame n by (simp add: count_ok_def)
    ultimately show ?thesis by (simp add: yield_inv_def)
  next
    case (stop ads)
    have n: "n_inst ?S = n_inst S" using stop(1) core by (simp add: n_inst_def)
    have "shape (ctl ?S)" using I(1) core stop(1,2) by (simp add: shape_def)
    moreover have "nextc (ctxs S) \<notin> closedc (ctxs S)" using I(2) by (auto simp: serve_ok_def heap_ok_def)
    then have "serve_ok ?S"
      using I(2) stop(1,6,8,9) heap_ok_next by (auto simp: serve_ok_def less_Suc_eq)
    moreover have "started (acts ?S i) = started (acts S i)" for i
      using stop(4,5) by (cases "i < n_inst S") fastforce+
    then have "chains_ok ?S" using I(3) stop(1,3) frame by (simp add: chains_ok_def)
    moreover have "requested ?S i = Reload" if "i < n_inst S" for i
      using stop(4) that requested_snoc by fastforce
    then have "idle_ok ?S" using stop(1,7) n by (auto simp: idle_ok_def)
    moreover have "count_ok ?S" using I(5) core stop(1) frame n by (simp add: count_ok_def)
    ultimately show ?thesis by (simp add: yield_inv_def)
  qed
qed

lemmas yield_parts = yield_inv_def shape_def serve_ok_def chains_ok_def idle_ok_def count_ok_def n_inst_def

lemma reset_step_inv:
  assumes "yield_inv S" and "reset_step now S = Some S'"
  shows "yield_inv S'"
proof -
  obtain i stamped fr where lk: "lk S = LReset i stamped fr"
    using assms(2) by (auto simp: reset_step_def split: lockpc.splits)
  note I = yield_invD [OF assms(1)]
  have r: "requested S' j = requested S j" for j
    using assms(2) lk by (auto simp: reset_step_def requested_def split: if_splits)
  have "idle_ok S'" using I(4,1) assms(2) lk r
    by (auto simp: reset_step_def reset_dispatch_def reset_flag_def idle_ok_def n_inst_def shape_def
        nth_list_update split: if_splits)
  moreover have "shape (ctl S')" using I(1) assms(2) lk
    by (auto simp: reset_step_def reset_dispatch_def reset_flag_def shape_def split: if_splits)
  moreover have "serve_ok S'" using I(2) assms(2) lk
    by (auto simp: reset_step_def reset_dispatch_def reset_flag_def serve_ok_def split: if_splits)
  moreover have "chains_ok S'" using I(3) assms(2) lk
    by (auto simp: reset_step_def reset_dispatch_def reset_flag_def chains_ok_def split: if_splits)
  moreover have "count_ok S'" using I(5) assms(2) lk
    by (auto simp: reset_step_def reset_dispatch_def reset_flag_def count_ok_def n_inst_def split: if_splits)
  ultimately show ?thesis by (simp add: yield_inv_def)
qed

lemma yield_inv_spawn:
  assumes "yield_inv S" and "i < n_inst S"
    and a: "a = \<lparr>a_inst = i, a_kind = k, a_wait = actionDone (ctl S) ! i, a_done = nextc (chs S), a_trigger = tr\<rparr>"
    and S': "ctl S' = (ctl S)\<lparr>actionDone := (actionDone (ctl S))[i := Some (nextc (chs S))], idleUnloaded := iu\<rparr>"
      "chs S' = (chs S)\<lparr>nextc := Suc (nextc (chs S))\<rparr>" "acts S' = (acts S)(i := acts S i @ [(a, AWait)])"
      "ctxs S' = ctxs S" "calls S' = calls S" "ypanic S' = ypanic S"
    and "length iu = length (idleUnloaded (ctl S))" and "idle_ok S'" and "count_ok S'"
  shows "yield_inv S'"
proof -
  note I = yield_invD [OF assms(1)]
  have "chains (actionDone (ctl S')) (chs S') (acts S')"
    using chains_spawn [of _ _ _ i a] I(1,3) assms(2) a S' by (simp add: chains_ok_def n_inst_def shape_def)
  moreover have "started (acts S' j) = started (acts S j)" for j by (simp add: S')
  ultimately have "chains_ok S'" using I(3) S' by (simp add: chains_ok_def)
  moreover have "shape (ctl S')" using I(1) assms(10) S' by (simp add: shape_def)
  moreover have "serve_ok S'" using I(2) S' by (simp add: serve_ok_def)
  ultimately show ?thesis using assms(11,12) by (simp add: yield_inv_def)
qed

lemma idle_step_cases:
  assumes "idle_step now S = Some S'" and "shape (ctl S)"
  obtains (over) i s where "lk S = LIdle i s" "S' = S\<lparr>lk := LFree\<rparr>"
  | (skip) i s where "lk S = LIdle i s" "S' = S\<lparr>lk := LIdle (Suc i) 0\<rparr>"
  | (first) i where "lk S = LIdle i 0" "S' = S\<lparr>lk := LIdle i 1\<rparr>" "i < n_inst S" "idle_guard i (ctl S)"
  | (more) i s s' where "lk S = LIdle i s" "s \<ge> 1" "S' = S\<lparr>lk := LIdle i s'\<rparr>" "i < n_inst S"
  | (fire) i s where "lk S = LIdle i s" "s \<ge> 1" "i < n_inst S" "\<not> idleUnloaded (ctl S) ! i"
      "S' = S\<lparr>ctl := (ctl S)\<lparr>actionDone := (actionDone (ctl S))[i := Some (nextc (chs S))],
                 idleUnloaded := (idleUnloaded (ctl S))[i := True]\<rparr>,
             chs := (chs S)\<lparr>nextc := Suc (nextc (chs S))\<rparr>,
             acts := (acts S)(i := acts S i @ [(\<lparr>a_inst = i, a_kind = Unload, a_wait = actionDone (ctl S) ! i,
                a_done = nextc (chs S), a_trigger = triggerIdle\<rparr>, AWait)]),
             lk := LIdle (Suc i) 0\<rparr>"
proof -
  obtain i s where lk: "lk S = LIdle i s"
    using assms(1) by (auto simp: idle_step_def split: lockpc.splits)
  have n: "length (idleTimeouts (ctl S)) = n_inst S" using assms(2) by (simp add: shape_def n_inst_def)
  note step = assms(1) [unfolded idle_step_def lk lockpc.case option.inject Let_def n]
  show thesis
  proof (cases "n_inst S \<le> i")
    case True
    then show thesis using step over [OF lk] by simp
  next
    case False
    consider (0) "s = 0" | (1) "s = 1" | (2) "s = 2" | (3) "s \<ge> 3" by linarith
    then show thesis
    proof cases
      case 0
      with step False have "S' = (if idle_guard i (ctl S) then S\<lparr>lk := LIdle i 1\<rparr> else S\<lparr>lk := LIdle (Suc i) 0\<rparr>)"
        by simp
      then show thesis using first [of i] skip [OF lk] lk 0 False by (metis not_le)
    next
      case 1
      with step False have "S' = (if idle_flag_clear i (ctl S) then S\<lparr>lk := LIdle i 2\<rparr> else S\<lparr>lk := LIdle (Suc i) 0\<rparr>)"
        by simp
      then show thesis using more [OF lk] skip [OF lk] 1 False by (metis le_refl not_le)
    next
      case 2
      with step False have "S' = (if idle_elapsed i now (ctl S) then S\<lparr>lk := LIdle i 3\<rparr> else S\<lparr>lk := LIdle (Suc i) 0\<rparr>)"
        by simp
      then show thesis using more [OF lk] skip [OF lk] 2 False by (metis not_le one_le_numeral)
    next
      case 3
      with step False have st: "S' = (case idle_fire i (ctl S) (chs S) of (as, c1, h1) \<Rightarrow>
          S\<lparr>ctl := c1, chs := h1, acts := spawned as (acts S), lk := LIdle (Suc i) 0\<rparr>)" by simp
      show thesis
      proof (cases "idleUnloaded (ctl S) ! i")
        case True
        then show thesis using st by (intro skip [OF lk]) (simp add: idle_fire_def)
      next
        case flag: False
        show thesis
          by (rule fire [OF lk]) (use st flag False 3 in \<open>simp_all add: idle_fire_def spawn_action_eq\<close>)
      qed
    qed
  qed
qed

lemma idle_step_inv:
  assumes "yield_inv S" and "idle_step now S = Some S'"
  shows "yield_inv S'"
proof -
  note I = yield_invD [OF assms(1)]
  note idle = I(4) [unfolded idle_ok_def n_inst_def]
  from assms(2) I(1) show ?thesis
  proof (cases rule: idle_step_cases)
    case (first i)
    then show ?thesis using I by (simp add: yield_parts requested_def idle_guard_def)
  next
    case (fire i s)
    have "idle_ok S'" using I(4,1) fire
      by (auto simp: idle_ok_def n_inst_def shape_def requested_def nth_list_update)
    moreover have "count_ok S'" using I(5) fire(5) by (simp add: count_ok_def n_inst_def)
    ultimately show ?thesis
      by (intro yield_inv_spawn [where iu = "(idleUnloaded (ctl S))[i := True]", OF assms(1) fire(3) refl]) (simp_all add: fire(5))
  qed (use I in \<open>auto simp: yield_parts requested_def\<close>)
qed

subsection \<open>Tracked requests\<close>

lemma counts_insert:
  assumes "finite {t. counts_for (f t) = Some i}" and "counts_for (f u) = None" and "counts_for p = Some i"
  shows "{t. counts_for ((f(u := p)) t) = Some i} = insert u {t. counts_for (f t) = Some i}"
    and "card {t. counts_for ((f(u := p)) t) = Some i} = Suc (card {t. counts_for (f t) = Some i})"
proof -
  show eq: "{t. counts_for ((f(u := p)) t) = Some i} = insert u {t. counts_for (f t) = Some i}"
    using assms by auto
  show "card {t. counts_for ((f(u := p)) t) = Some i} = Suc (card {t. counts_for (f t) = Some i})"
    unfolding eq using assms by simp
qed

lemma counts_delete:
  assumes "finite {t. counts_for (f t) = Some i}" and "counts_for (f u) = Some i" and "counts_for p = None"
  shows "{t. counts_for ((f(u := p)) t) = Some i} = {t. counts_for (f t) = Some i} - {u}"
    and "card {t. counts_for (f t) = Some i} = Suc (card {t. counts_for ((f(u := p)) t) = Some i})"
proof -
  show eq: "{t. counts_for ((f(u := p)) t) = Some i} = {t. counts_for (f t) = Some i} - {u}"
    using assms by auto
  have "u \<in> {t. counts_for (f t) = Some i}" using assms by simp
  then show "card {t. counts_for (f t) = Some i} = Suc (card {t. counts_for ((f(u := p)) t) = Some i})"
    unfolding eq using assms(1) by (metis card.remove)
qed

lemma counts_same:
  "counts_for (f u) \<noteq> Some i \<Longrightarrow> counts_for p \<noteq> Some i \<Longrightarrow>
    {t. counts_for ((f(u := p)) t) = Some i} = {t. counts_for (f t) = Some i}"
  "counts_for p = counts_for (f u) \<Longrightarrow>
    {t. counts_for ((f(u := p)) t) = Some i} = {t. counts_for (f t) = Some i}"
  by (auto split: if_splits)

text \<open>A step of a tracked request that changes no list but the atomics.\<close>

lemma track_inv_frame:
  assumes "yield_inv S" and "acts S' = acts S" "calls S' = calls S" "chs S' = chs S" "ctxs S' = ctxs S"
      "ypanic S' = ypanic S"
    and "ctl S' = (ctl S)\<lparr>lastDispatch := ld, inFlight := fl, idleUnloaded := iu\<rparr>"
    and "length ld = length (lastDispatch (ctl S))" "length fl = length (inFlight (ctl S))"
      "length iu = length (idleUnloaded (ctl S))"
    and "idle_ok S'" and "count_ok S'"
  shows "yield_inv S'"
  using yield_invD [OF assms(1)] assms by (simp add: yield_inv_def shape_def serve_ok_def chains_ok_def)

lemma count_ok_bound: "count_ok S \<Longrightarrow> counts_for (reqs S t) = Some i \<Longrightarrow> i < n_inst S"
  unfolding count_ok_def by blast

lemma count_ok_move:
  assumes "count_ok S" and "reqs S' = (reqs S)(t := p)" and "counts_for p = counts_for (reqs S t)"
    and "inFlight (ctl S') = inFlight (ctl S)" and "n_inst S' = n_inst S" and "\<forall>i. p = TLeaving i \<longrightarrow> i < n_inst S"
  shows "count_ok S'"
  using assms counts_same(2) [of p "reqs S" t] by (auto simp: count_ok_def)

lemma count_ok_enter:
  assumes "count_ok S" and "shape (ctl S)" and "reqs S t = TOut" and "i < n_inst S"
  shows "count_ok (set_req t (TEntered i) (S\<lparr>ctl := track_add i 1 (ctl S)\<rparr>))"
proof -
  have i: "finite {u. counts_for (reqs S u) = Some i}"
    "inFlight (ctl S) ! i = int (card {u. counts_for (reqs S u) = Some i})"
    using assms by (simp_all add: count_ok_def)
  note C = counts_insert [of "reqs S" i t "TEntered i"]
  have o: "{u. counts_for (((reqs S)(t := TEntered i)) u) = Some j} = {u. counts_for (reqs S u) = Some j}" if "j \<noteq> i" for j
    using that assms(3) by (intro counts_same(1)) (auto simp: counts_for_def)
  show ?thesis unfolding count_ok_def
  proof (intro conjI allI impI, goal_cases)
    case (1 j)
    then show ?case using assms(1) C i assms(3) o by (cases "j = i") (auto simp: set_req_def counts_for_def count_ok_def n_inst_def track_add_def)
  next
    case (2 j)
    then show ?case using assms C i o
      by (cases "j = i") (auto simp: set_req_def counts_for_def count_ok_def n_inst_def track_add_def shape_def)
  qed (use assms in \<open>auto simp: set_req_def count_ok_def counts_for_def n_inst_def track_add_def split: if_splits\<close>)
qed

lemma count_ok_leave:
  assumes "count_ok S" and "shape (ctl S)" and "reqs S t = TServing i"
  shows "count_ok (set_req t (TLeaving i) (S\<lparr>ctl := track_add i (-1) (ctl S)\<rparr>))"
proof -
  have t: "counts_for (reqs S t) = Some i" using assms(3) by (simp add: counts_for_def)
  then have n: "i < n_inst S" using assms(1) by (auto simp: count_ok_def)
  then have i: "finite {u. counts_for (reqs S u) = Some i}"
    "inFlight (ctl S) ! i = int (card {u. counts_for (reqs S u) = Some i})"
    using assms by (simp_all add: count_ok_def)
  note C = counts_delete [of "reqs S" i t "TLeaving i", OF i(1) t]
  have o: "{u. counts_for (((reqs S)(t := TLeaving i)) u) = Some j} = {u. counts_for (reqs S u) = Some j}" if "j \<noteq> i" for j
    using that t by (intro counts_same(1)) (auto simp: counts_for_def)
  show ?thesis unfolding count_ok_def
  proof (intro conjI allI impI, goal_cases)
    case (1 j)
    then show ?case using assms(1) C i o by (cases "j = i") (auto simp: set_req_def counts_for_def count_ok_def n_inst_def track_add_def)
  next
    case (2 j)
    then show ?case using assms C i o n
      by (cases "j = i") (auto simp: set_req_def counts_for_def count_ok_def n_inst_def track_add_def shape_def)
  qed (use assms n in \<open>auto simp: set_req_def count_ok_def counts_for_def n_inst_def track_add_def split: if_splits\<close>)
qed

text \<open>A move of request \<open>t\<close> that is not the end of a pending wake keeps the idle part.\<close>

lemma idle_ok_move:
  assumes "idle_ok S" and "reqs S' = (reqs S)(t := p)" and "\<forall>i. reqs S t \<noteq> TWon i"
    and "acts S' = acts S" and "lk S' = lk S" and "effective (ctl S') = effective (ctl S)"
    and "idleTimeouts (ctl S') = idleTimeouts (ctl S)" and "n_inst S' = n_inst S"
    and "\<forall>i<n_inst S. idleUnloaded (ctl S) ! i \<and> \<not> idleUnloaded (ctl S') ! i \<longrightarrow> p = TWon i"
  shows "idle_ok S'"
proof -
  have r: "requested S' i = requested S i" for i using assms(4) by (simp add: requested_def)
  have w: "\<exists>u. reqs S' u = TWon i" if "\<exists>u. reqs S u = TWon i" for i using that assms(2,3) by (metis fun_upd_other)
  have "\<exists>u. reqs S' u = TWon i" if "p = TWon i" for i using that assms(2) by (metis fun_upd_same)
  with w r assms show ?thesis unfolding idle_ok_def by metis
qed

lemma track_cas_inv:
  assumes "yield_inv S" and "track_step (TCas t) S = Some S'"
  shows "yield_inv S'"
proof -
  note I = yield_invD [OF assms(1)] and defs = set_req_def n_inst_def
  let ?c = "ctl S"
  obtain i where g: "reqs S t = TStamped i" using assms(2) by (auto split: tpc.splits)
  define p iu where "p = (if idleUnloaded ?c ! i then TWon i else TServing i)"
    and "iu = (if idleUnloaded ?c ! i then (idleUnloaded ?c)[i := False] else idleUnloaded ?c)"
  have S': "S' = set_req t p (S\<lparr>ctl := ?c\<lparr>idleUnloaded := iu\<rparr>\<rparr>)"
    using assms(2) g by (auto simp: track_cas_def p_def iu_def)
  have "i < n_inst S" by (rule count_ok_bound [OF I(5), of t]) (simp add: g counts_for_def)
  then have "idle_ok S'" using g I(1)
    by (intro idle_ok_move [OF I(4), of S' t p]) (auto simp: S' defs p_def iu_def shape_def nth_list_update split: if_splits)
  moreover have "count_ok S'"
    using g by (intro count_ok_move [OF I(5), of S' t p]) (simp_all add: S' defs counts_for_def p_def)
  ultimately show ?thesis
    by (intro track_inv_frame [OF assms(1), where ld = "lastDispatch ?c" and fl = "inFlight ?c" and iu = iu]) (simp_all add: S' defs iu_def)
qed

lemma track_wake_inv:
  assumes "yield_inv S" and "track_step (TWake t) S = Some S'"
  shows "yield_inv S'"
proof -
  note I = yield_invD [OF assms(1)] and defs = set_req_def n_inst_def
  let ?c = "ctl S"
  obtain i where g: "reqs S t = TWon i" "lk S = LFree"
    and S': "S' = set_req t (TServing i) (S\<lparr>ctl := ?c\<lparr>actionDone := (actionDone ?c)[i := Some (nextc (chs S))]\<rparr>,
        chs := (chs S)\<lparr>nextc := Suc (nextc (chs S))\<rparr>,
        acts := (acts S)(i := acts S i @ [(\<lparr>a_inst = i, a_kind = Reload, a_wait = actionDone ?c ! i,
          a_done = nextc (chs S), a_trigger = triggerIdle\<rparr>, AWait)])\<rparr>)"
    using assms(2) by (auto simp: track_wake_def spawn_action_eq split: tpc.splits if_splits)
  have i: "i < n_inst S" by (rule count_ok_bound [OF I(5), of t]) (simp add: g counts_for_def)
  have "idle_ok S'" using I(4) g(2) unfolding idle_ok_def
    by (auto simp: S' defs requested_def) (metis g(1) tpc.inject(3))
  moreover have "count_ok S'"
    using g by (intro count_ok_move [OF I(5), of S' t "TServing i"]) (simp_all add: S' defs counts_for_def)
  ultimately show ?thesis
    by (intro yield_inv_spawn [where iu = "idleUnloaded ?c", OF assms(1) i refl]) (simp_all add: S' defs)
qed

lemma track_step_inv:
  assumes "yield_inv S" and "track_step e S = Some S'"
  shows "yield_inv S'"
proof -
  note I = yield_invD [OF assms(1)]
  let ?c = "ctl S"
  note frame = track_inv_frame [OF assms(1)]
  note defs = set_req_def track_add_def track_stamp_def n_inst_def
  from assms(2) show ?thesis
  proof (cases e)
    case (TEnter t i)
    with assms(2) have g: "reqs S t = TOut" "i < n_inst S"
      and S': "S' = set_req t (TEntered i) (S\<lparr>ctl := track_add i 1 ?c\<rparr>)" by (auto split: if_splits)
    have "idle_ok S'" using g by (intro idle_ok_move [OF I(4), of S' t]) (simp_all add: S' defs)
    moreover have "count_ok S'" unfolding S' by (rule count_ok_enter [OF I(5,1) g])
    ultimately show ?thesis
      by (intro frame [where ld = "lastDispatch ?c" and fl = "(inFlight ?c)[i := inFlight ?c ! i + 1]" and iu = "idleUnloaded ?c"]) (simp_all add: S' defs)
  next
    case (TStamp t now)
    with assms(2) obtain i where g: "reqs S t = TEntered i"
      and S': "S' = set_req t (TStamped i) (S\<lparr>ctl := track_stamp i now ?c\<rparr>)" by (auto split: tpc.splits)
    have "idle_ok S'" using g by (intro idle_ok_move [OF I(4), of S' t]) (simp_all add: S' defs)
    moreover have "count_ok S'"
      using g by (intro count_ok_move [OF I(5), of S' t "TStamped i"]) (simp_all add: S' defs counts_for_def)
    ultimately show ?thesis
      by (intro frame [where ld = "(lastDispatch ?c)[i := now]" and fl = "inFlight ?c" and iu = "idleUnloaded ?c"]) (simp_all add: S' defs)
  next
    case (TCas t)
    then show ?thesis using track_cas_inv [OF assms(1)] assms(2) by blast
  next
    case (TWake t)
    then show ?thesis using track_wake_inv [OF assms(1)] assms(2) by blast
  next
    case (TLeave t)
    with assms(2) obtain i where g: "reqs S t = TServing i"
      and S': "S' = set_req t (TLeaving i) (S\<lparr>ctl := track_add i (-1) ?c\<rparr>)" by (auto split: tpc.splits)
    have "idle_ok S'" using g by (intro idle_ok_move [OF I(4), of S' t]) (simp_all add: S' defs)
    moreover have "count_ok S'" unfolding S' by (rule count_ok_leave [OF I(5,1) g])
    ultimately show ?thesis
      by (intro frame [where ld = "lastDispatch ?c" and fl = "(inFlight ?c)[i := inFlight ?c ! i + -1]" and iu = "idleUnloaded ?c"]) (simp_all add: S' defs)
  next
    case (TStampOut t now)
    with assms(2) obtain i where g: "reqs S t = TLeaving i"
      and S': "S' = set_req t TOut (S\<lparr>ctl := track_stamp i now ?c\<rparr>)" by (auto split: tpc.splits)
    have "idle_ok S'" using g by (intro idle_ok_move [OF I(4), of S' t]) (simp_all add: S' defs)
    moreover have "count_ok S'"
      using g by (intro count_ok_move [OF I(5), of S' t TOut]) (simp_all add: S' defs counts_for_def)
    ultimately show ?thesis
      by (intro frame [where ld = "(lastDispatch ?c)[i := now]" and fl = "inFlight ?c" and iu = "idleUnloaded ?c"]) (simp_all add: S' defs)
  qed simp_all
qed

subsection \<open>The action goroutines\<close>

lemma map_fst_update_pc: "k < length l \<Longrightarrow> map fst (l[k := (fst (l ! k), pc)]) = map fst l"
  by (rule nth_equalityI) (auto simp: nth_list_update)

lemma requested_map_fst:
  "map fst (acts S' i) = map fst (acts S i) \<Longrightarrow> requested S' i = requested S i"
  unfolding requested_def by (metis last_map map_is_Nil_conv)

lemma chains_update:
  assumes "chains ads h f" and "heap_ok h'" and "nextc h \<le> nextc h'"
    and "chain (ad_at ads i) h' l" and "dones l = dones (f i)"
    and "\<forall>x. x \<notin> set (dones (f i)) \<longrightarrow> (x \<in> closedc h' \<longleftrightarrow> x \<in> closedc h)"
  shows "chains ads h' (f(i := l))"
proof -
  note I = chainsD [OF assms(1)]
  have "chain (ad_at ads j) h' (f j)" if "j \<noteq> i" for j
    using chain_heap [OF I(2) [of j] assms(3)] assms(6) I(3) that by blast
  then have "\<forall>j. chain (ad_at ads j) h' ((f(i := l)) j)" using assms(4) by simp
  moreover have "set (dones ((f(i := l)) j)) \<inter> set (dones ((f(i := l)) m)) = {}" if "j \<noteq> m" for j m
    using I(3) assms(5) that by auto
  ultimately show ?thesis using assms(2) unfolding chains_def by blast
qed

text \<open>What an action's step changes outside its chain: nothing.\<close>

lemma action_inv_frame:
  assumes "yield_inv S" and "ctl S' = ctl S" "ctxs S' = ctxs S" "lk S' = lk S" "reqs S' = reqs S"
    and "\<forall>j. map fst (acts S' j) = map fst (acts S j)" and "chains_ok S'"
  shows "yield_inv S'"
proof -
  note I = yield_invD [OF assms(1)]
  have r: "requested S' j = requested S j" for j
    using assms(6) by (intro requested_map_fst) blast
  have "idle_ok S'" using I(4) by (simp only: idle_ok_def n_inst_def assms(2-5) r)
  moreover have "count_ok S'" using I(5) assms(2,5) by (simp add: count_ok_def n_inst_def)
  moreover have "serve_ok S'" "shape (ctl S')" using I(1,2) assms(2,3) by (simp_all add: serve_ok_def)
  ultimately show ?thesis using assms(7) by (simp add: yield_inv_def)
qed

lemma action_start_inv:
  assumes "yield_inv S" and "action_start i k S = Some S'"
  shows "yield_inv S'"
proof -
  let ?l = "acts S i" and ?h = "chs S"
  let ?l' = "?l[k := (fst (?l ! k), ARun)]"
  from assms(2) have g: "k < length ?l" "snd (?l ! k) = AWait"
      "case a_wait (fst (?l ! k)) of None \<Rightarrow> True | Some w \<Rightarrow> w \<in> closedc ?h"
    and S': "S' = (set_pc i k ARun S)\<lparr>calls := (calls S)(i := calls S i @ [a_kind (fst (?l ! k))])\<rparr>"
    by (auto simp: action_start_def split: if_splits)
  have ch: "chains (actionDone (ctl S)) ?h (acts S)" "calls S = (\<lambda>j. started (acts S j))" "\<not> ypanic S"
    using yield_invD(3) [OF assms(1)] by (auto simp: chains_ok_def)
  note C = chainsD [OF ch(1)]
  have "chains (actionDone (ctl S)) ?h ((acts S)(i := ?l'))"
    using chain_start_pc [OF C(2) g] dones_update_pc [OF g(1)] C(1) by (intro chains_update [OF ch(1)]) simp_all
  moreover have "calls S' j = started (acts S' j)" for j
    using chain_started_start [OF C(2) g] ch(2) by (simp add: S' set_pc_def)
  ultimately have "chains_ok S'" using ch(3) by (simp add: chains_ok_def S' set_pc_def)
  then show ?thesis
    using map_fst_update_pc [OF g(1)] by (intro action_inv_frame [OF assms(1)]) (simp_all add: S' set_pc_def)
qed

lemma action_end_inv:
  assumes "yield_inv S" and "action_end i k S = Some S'"
  shows "yield_inv S'"
proof -
  let ?l = "acts S i" and ?h = "chs S"
  let ?l' = "?l[k := (fst (?l ! k), ADone)]"
  have ch: "chains (actionDone (ctl S)) ?h (acts S)" "calls S = (\<lambda>j. started (acts S j))" "\<not> ypanic S"
    using yield_invD(3) [OF assms(1)] by (auto simp: chains_ok_def)
  note C = chainsD [OF ch(1)]
  from assms(2) have g: "k < length ?l" "snd (?l ! k) = ARun" by (auto simp: action_end_def split: if_splits)
  have "dones ?l ! k \<notin> closedc ?h" by (rule chain_open [OF C(2) g])
  then obtain h' where h': "close_chan (dones ?l ! k) ?h = Some h'"
    by (simp add: close_chan_def del: dones_nth)
  then have S': "S' = (set_pc i k ADone S)\<lparr>chs := h'\<rparr>"
    using assms(2) g by (simp add: action_end_def)
  have heap: "h' = ?h\<lparr>closedc := insert (dones ?l ! k) (closedc ?h)\<rparr>"
    using h' by (simp add: close_chan_Some_iff del: dones_nth)
  have k: "dones ?l ! k \<in> set (dones ?l)" using g(1) by (metis length_dones nth_mem)
  have "heap_ok h'"
    using C(1) chain_dones_old [OF C(2) k] unfolding heap by (simp add: heap_ok_def del: dones_nth)
  moreover have "\<forall>x. x \<notin> set (dones ?l) \<longrightarrow> (x \<in> closedc h' \<longleftrightarrow> x \<in> closedc ?h)"
    using k unfolding heap by (auto simp del: dones_nth)
  ultimately have "chains (actionDone (ctl S)) h' ((acts S)(i := ?l'))"
    using chain_end_pc [OF C(2) g h'] dones_update_pc [OF g(1)] heap
    by (intro chains_update [OF ch(1)]) simp_all
  moreover have "calls S' j = started (acts S' j)" for j
    using started_end [OF g] ch(2) by (simp add: S' set_pc_def)
  ultimately have "chains_ok S'" using ch(3) by (simp add: chains_ok_def S' set_pc_def)
  then show ?thesis
    using map_fst_update_pc [OF g(1)] by (intro action_inv_frame [OF assms(1)]) (simp_all add: S' set_pc_def)
qed

lemma yield_exec_inv:
  assumes "yield_inv S" and "yield_exec e S = Some S'"
  shows "yield_inv S'"
proof (cases e)
  case (YRefresh reason contended now)
  then show ?thesis using assms apply_step_inv same_core_refresh by (auto split: if_splits)
next
  case (YSetMode m)
  then show ?thesis using assms apply_step_inv same_core_mode by (auto split: if_splits)
next
  case (MRun k)
  then show ?thesis using assms
    by (intro action_inv_frame [OF assms(1)]) (auto simp: chains_ok_def yield_inv_def split: if_splits)
next
  case (YReset now)
  then show ?thesis using assms reset_step_inv by simp
next
  case (YIdle now)
  then show ?thesis using assms idle_step_inv by simp
next
  case (AStart i k)
  then show ?thesis using assms action_start_inv by simp
next
  case (AEnd i k)
  then show ?thesis using assms action_end_inv by simp
qed (rule track_step_inv [OF assms(1), of e], use assms(2) in simp)+

text \<open>The constructor and the configuration step leave a state that satisfies it.\<close>

lemma filter_unloaders_lengths:
  "filter_unloaders i post lbls us = (fu, fl, o2f) \<Longrightarrow> length fl = length fu \<and> length o2f = length us"
  by (induction i post lbls us arbitrary: fu fl o2f rule: filter_unloaders.induct) (auto split: prod.splits)

lemma ConfigureIdle_loop_length: "ConfigureIdle_loop ds ps ts = Some ts' \<Longrightarrow> length ts' = length ts"
  by (induction ds ps ts arbitrary: ts' rule: ConfigureIdle_loop.induct) (auto split: if_splits)

lemma yield_startE:
  assumes "yield_start S"
  obtains us lbls itv pl now ts mgr fu fl o2f where "filter_unloaders 0 0 lbls us = (fu, fl, o2f)"
    and "length ts = length fu" and "1 \<le> pl"
    and "S = yield_init \<lparr>unloaders = fu, labels = fl, gpuMgr = mgr, interval = itv, confirmPolls = pl,
            mode = ModeAuto, autoContended = False, autoReason = [], effective = False, lastPoll = None,
            confirmCount = 0, confirmReason = [], serveCtx = 0, actionDone = replicate (length fu) None,
            idleTimeouts = ts, lastDispatch = replicate (length fu) now,
            inFlight = replicate (length fu) 0, idleUnloaded = replicate (length fu) False,
            origToFiltered = o2f\<rparr> \<lparr>nextc = 1, closedc = {}\<rparr>"
proof -
  obtain us lbls itv polls now ds mgr c c' cx where
    new: "NewWithConfirmMulti us lbls itv polls now empty_heap = (c, cx)"
    and conf: "ConfigureIdle ds c = Some c'" and S: "S = yield_init (SetGPUManager mgr c') cx"
    using assms unfolding yield_start_def by blast
  obtain fu fl o2f where f: "filter_unloaders 0 0 lbls us = (fu, fl, o2f)" by (metis prod_cases3)
  obtain ts where ts: "c' = c\<lparr>idleTimeouts := ts\<rparr>" "length ts = length (idleTimeouts c)"
    using conf ConfigureIdle_loop_length by (auto simp: ConfigureIdle_def split: if_splits)
  note new = new [unfolded NewWithConfirmMulti_def f make_chan_def empty_heap_def, simplified]
  show thesis
    by (rule that [OF f, of ts "if polls < 1 then 1 else polls" mgr itv now])
      (use new ts in \<open>auto simp: S SetGPUManager_def\<close>)
qed

lemma yield_start_inv: "yield_start S \<Longrightarrow> yield_inv S"
proof (erule yield_startE)
  fix us :: "unloader option list" and lbls itv pl now ts mgr fu fl o2f
  assume f: "filter_unloaders 0 0 lbls us = (fu, fl, o2f)" and ts: "length ts = length fu"
    and S: "S = yield_init \<lparr>unloaders = fu, labels = fl, gpuMgr = mgr, interval = itv, confirmPolls = pl,
            mode = ModeAuto, autoContended = False, autoReason = [], effective = False, lastPoll = None,
            confirmCount = 0, confirmReason = [], serveCtx = 0, actionDone = replicate (length fu) None,
            idleTimeouts = ts, lastDispatch = replicate (length fu) now,
            inFlight = replicate (length fu) 0, idleUnloaded = replicate (length fu) False,
            origToFiltered = o2f\<rparr> \<lparr>nextc = 1, closedc = {}\<rparr>"
  have "chains (replicate n None) empty_heap (\<lambda>_. [])" for n
    by (simp add: chains_def heap_ok_def empty_heap_def ad_at_def chain_Nil)
  then show "yield_inv S"
    using ts filter_unloaders_lengths [OF f]
    by (auto simp: S yield_init_def yield_parts heap_ok_def computeLocked_def started_def
        requested_def counts_for_def)
qed

interpretation yields: event_system yield_exec yield_start yield_inv
  by unfold_locales (auto intro: yield_start_inv yield_exec_inv)

section \<open>The admission contract\<close>

text \<open>
  What the gate and the job worker rely on (\<^verbatim>\<open>queue.Admission\<close>): a state is yielding or not, it hands
  out serve contexts, and a context that was handed out is cancelled by the time the state yields
  and stays cancelled. The client's fact is proved once: whatever happens between taking a context
  and a later yield, the in-flight call that derives from it is aborted.
\<close>

locale admission = event_system exec start inv
  for exec :: "'e \<Rightarrow> 's \<Rightarrow> 's option" and start :: "'s \<Rightarrow> bool" and inv :: "'s \<Rightarrow> bool" +
  fixes yielding :: "'s \<Rightarrow> bool"
    and current :: "'s \<Rightarrow> nat"
    and handed :: "'s \<Rightarrow> nat \<Rightarrow> bool"
    and cancelled :: "'s \<Rightarrow> nat \<Rightarrow> bool"
  assumes current_handed: "inv s \<Longrightarrow> handed s (current s)"
    and current_live: "inv s \<Longrightarrow> cancelled s (current s) \<longleftrightarrow> yielding s"
    and yielding_cancels: "inv s \<Longrightarrow> yielding s \<Longrightarrow> handed s x \<Longrightarrow> cancelled s x"
    and handed_stays: "exec e s = Some s' \<Longrightarrow> handed s x \<Longrightarrow> handed s' x"
    and cancelled_stays: "exec e s = Some s' \<Longrightarrow> cancelled s x \<Longrightarrow> cancelled s' x"
begin

lemma run_handed: "run_events exec es s = Some s' \<Longrightarrow> handed s x \<Longrightarrow> handed s' x"
  by (induction es arbitrary: s) (auto split: option.splits dest: handed_stays)

lemma run_cancelled: "run_events exec es s = Some s' \<Longrightarrow> cancelled s x \<Longrightarrow> cancelled s' x"
  by (induction es arbitrary: s) (auto split: option.splits dest: cancelled_stays)

text \<open>A context taken at \<open>s\<close> is cancelled after a run that yields anywhere on the way.\<close>

lemma taken_aborted:
  assumes "inv s" and "run_events exec es s = Some s1" and "yielding s1" and "run_events exec fs s1 = Some s2"
  shows "cancelled s2 (current s)"
proof -
  have "inv s1" by (rule run_from_inv [OF assms(1,2)])
  moreover have "handed s1 (current s)" using run_handed [OF assms(2)] current_handed [OF assms(1)] .
  ultimately have "cancelled s1 (current s)" using yielding_cancels assms(3) by blast
  then show ?thesis by (rule run_cancelled [OF assms(4)])
qed

end

lemma apply_step_ctxs:
  "nextc (ctxs S) \<le> nextc (ctxs (apply_step c fr S)) \<and> closedc (ctxs S) \<subseteq> closedc (ctxs (apply_step c fr S))"
  by (auto simp: apply_step_def applyLocked_switch_def cancel_ctx_def make_chan_def Let_def split: prod.splits)

lemma track_step_ctxs: "track_step e S = Some S' \<Longrightarrow> ctxs S' = ctxs S"
  by (cases e) (auto simp: set_req_def split: if_splits tpc.splits prod.splits)

lemma yield_exec_ctxs:
  assumes "yield_exec e S = Some S'"
  shows "nextc (ctxs S) \<le> nextc (ctxs S')" and "closedc (ctxs S) \<subseteq> closedc (ctxs S')"
proof -
  have "nextc (ctxs S) \<le> nextc (ctxs S') \<and> closedc (ctxs S) \<subseteq> closedc (ctxs S')"
  proof (cases e)
    case (YIdle now)
    then show ?thesis using assms
      by (auto simp: idle_step_def Let_def split: lockpc.splits if_splits prod.splits)
  qed (use assms apply_step_ctxs track_step_ctxs [of e S S'] in
      \<open>auto simp: reset_step_def action_start_def action_end_def set_pc_def
        split: lockpc.splits if_splits option.splits\<close>)
  then show "nextc (ctxs S) \<le> nextc (ctxs S')" "closedc (ctxs S) \<subseteq> closedc (ctxs S')" by blast+
qed

interpretation adm: admission yield_exec yield_start yield_inv
  "\<lambda>S. fst (Yielding (ctl S))" "\<lambda>S. ServeContext (ctl S)" "\<lambda>S x. x < nextc (ctxs S)"
  "\<lambda>S x. x \<in> closedc (ctxs S)"
proof unfold_locales
  fix S :: ysys and e :: yev and S' :: ysys and x :: nat
  show "x < nextc (ctxs S')" if "yield_exec e S = Some S'" "x < nextc (ctxs S)"
    using yield_exec_ctxs [OF that(1)] that(2) by simp
  show "x \<in> closedc (ctxs S')" if "yield_exec e S = Some S'" "x \<in> closedc (ctxs S)"
    using yield_exec_ctxs [OF that(1)] that(2) by blast
qed (auto simp: Yielding_def ServeContext_def dest!: yield_invD(2) simp: serve_ok_def)

end
