(* ===== verification/Yield_Properties.thy ===== *)
theory Yield_Properties
  imports Yield_System
begin

text \<open>
  What the yield controller guarantees, over every run of its system and for its constructor: the
  debounce, the abort of in-flight work, the ordering and progress of the unload and reload calls,
  the idle unload, and the index spaces of the instances.
\<close>

section \<open>Debounce\<close>

text \<open>The polls of a run, in order.\<close>

fun polls :: "yev list \<Rightarrow> (string \<times> bool) list" where
  "polls [] = []"
| "polls (YRefresh reason contended _ # es) = (reason, contended) # polls es"
| "polls (_ # es) = polls es"

lemma polls_append [simp]: "polls (es @ fs) = polls es @ polls fs"
  by (induction es rule: polls.induct) auto

text \<open>The detection state: what \<^verbatim>\<open>debounceLocked\<close> reads and writes.\<close>

definition detect_state :: "Controller \<Rightarrow> int \<times> int \<times> string \<times> bool \<times> string" where
  "detect_state c = (confirmPolls c, confirmCount c, confirmReason c, autoContended c, autoReason c)"

lemma spawn_each_detect: "spawn_each k tr is c h = (as, c', h') \<Longrightarrow> detect_state c' = detect_state c"
  by (induction "is" arbitrary: c h as)
    (fastforce simp: spawn_action_eq detect_state_def split: prod.splits)+

lemma apply_step_detect: "detect_state (ctl (apply_step c fr S)) = detect_state c"
  by (auto simp: apply_step_def applyLocked_switch_def Let_def split: prod.splits if_splits
      dest!: spawn_each_detect) (simp_all add: detect_state_def)

lemma yield_exec_detect:
  assumes "yield_exec e S = Some S'"
  shows "detect_state (ctl S') = (case e of
      YRefresh reason contended now \<Rightarrow> detect_state (refresh_detect reason contended now (ctl S))
    | _ \<Rightarrow> detect_state (ctl S))"
proof (cases e)
  case (YIdle now)
  then show ?thesis using assms
    by (auto simp: idle_step_def idle_fire_def spawn_action_eq Let_def detect_state_def
        split: lockpc.splits if_splits)
next
  case (YReset now)
  then show ?thesis using assms
    by (auto simp: reset_step_def reset_dispatch_def reset_flag_def detect_state_def
        split: lockpc.splits if_splits)
next
  case (YSetMode m)
  then show ?thesis using assms apply_step_detect [of "(ctl S)\<lparr>mode := m\<rparr>" False S]
    by (auto simp: detect_state_def split: if_splits)
qed (use assms apply_step_detect in \<open>auto simp: detect_state_def set_req_def track_add_def track_stamp_def
      track_cas_def track_wake_def spawn_action_eq action_start_def action_end_def set_pc_def
      split: if_splits tpc.splits option.splits\<close>)

text \<open>The detection state as a function of the polls, the latest first.\<close>

definition streak :: "(string \<times> bool) list \<Rightarrow> nat" where
  "streak h = (case h of [] \<Rightarrow> 0 | d # _ \<Rightarrow> if snd d then length (takeWhile (\<lambda>x. x = d) h) else 0)"

definition detected :: "int \<Rightarrow> (string \<times> bool) list \<Rightarrow> int \<times> int \<times> string \<times> bool \<times> string" where
  "detected k h =
     (let r = (case h of [] \<Rightarrow> [] | d # _ \<Rightarrow> if snd d then fst d else []);
          hit = (h \<noteq> [] \<and> snd (hd h) \<and> k \<le> int (streak h))
      in (k, int (streak h), r, hit, if hit then r else []))"

lemma refresh_detect_detected:
  assumes "detect_state c = detected k h"
  shows "detect_state (refresh_detect reason contended now c) = detected k ((reason, contended) # h)"
  using assms
  by (cases h) (auto simp: detect_state_def detected_def refresh_detect_def debounceLocked_def streak_def Let_def
      split: if_splits)

lemma run_detected:
  assumes "run_events yield_exec es S = Some S'" and "detect_state (ctl S) = detected k h"
  shows "detect_state (ctl S') = detected k (rev (polls es) @ h)"
  using assms
proof (induction es arbitrary: S h)
  case Nil
  then show ?case by simp
next
  case (Cons e es)
  from Cons.prems(1) obtain U where U: "yield_exec e S = Some U" "run_events yield_exec es U = Some S'"
    by (rule run_events_ConsE)
  have "detect_state (ctl U) = detected k (rev (polls [e]) @ h)"
    using yield_exec_detect [OF U(1)] refresh_detect_detected [OF Cons.prems(2)] Cons.prems(2)
    by (cases e) simp_all
  from Cons.IH [OF U(2) this] show ?case by (cases e) simp_all
qed

lemma streak_ge_iff:
  assumes "1 \<le> k"
  shows "(h \<noteq> [] \<and> snd (hd h) \<and> k \<le> streak h) \<longleftrightarrow> (\<exists>r. take k h = replicate k (r, True))"
proof (cases h)
  case Nil
  then show ?thesis using assms by auto
next
  case (Cons d h')
  have takeWhile_ge: "k \<le> length (takeWhile (\<lambda>x. x = d) xs) \<longleftrightarrow> take k xs = replicate k d" for k xs
  proof (induction xs arbitrary: k)
    case Nil
    then show ?case by (cases k) auto
  next
    case (Cons x xs)
    then show ?case by (cases k) auto
  qed
  have "fst d = r \<and> snd d" if "take k h = replicate k (r, True)" for r
    using that assms Cons by (cases k) auto
  then show ?thesis using takeWhile_ge [of k h] Cons assms
    by (auto simp: streak_def) (metis prod.collapse)+
qed

lemma yield_start_detected:
  assumes "yield_start S"
  shows "detect_state (ctl S) = detected (confirmPolls (ctl S)) []" and "1 \<le> confirmPolls (ctl S)"
  using assms
  by (auto elim!: yield_startE simp: yield_init_def detect_state_def detected_def streak_def)

text \<open>
  Contention is reported exactly after sustained detection. In every run, whatever overrides,
  requests and actions interleave, the controller is auto-contended if and only if the last
  \<^verbatim>\<open>confirmPolls\<close> polls all reported contention for one and the same reason, which is then the
  reason it gives; a clear poll or a change of reason starts over, and clearing is immediate.
\<close>

theorem debounce_exact:
  assumes "yield_start S0" and "run_events yield_exec es S0 = Some S"
  shows "confirmPolls (ctl S) = confirmPolls (ctl S0) \<and> 1 \<le> confirmPolls (ctl S)
     \<and> (autoContended (ctl S) \<longleftrightarrow>
          (\<exists>r. take (nat (confirmPolls (ctl S))) (rev (polls es)) = replicate (nat (confirmPolls (ctl S))) (r, True)))
     \<and> (autoContended (ctl S) \<longrightarrow> (\<exists>ps. polls es = ps @ [(autoReason (ctl S), True)]))"
proof -
  let ?k = "confirmPolls (ctl S0)" and ?h = "rev (polls es)"
  note start = yield_start_detected [OF assms(1)]
  have d: "detect_state (ctl S) = detected ?k ?h" using run_detected [OF assms(2) start(1)] by simp
  then have "confirmPolls (ctl S) = ?k"
    and ac: "autoContended (ctl S) \<longleftrightarrow> ?h \<noteq> [] \<and> snd (hd ?h) \<and> nat ?k \<le> streak ?h"
    and ar: "autoContended (ctl S) \<longrightarrow> autoReason (ctl S) = fst (hd ?h)"
    using start(2) by (auto simp: detect_state_def detected_def Let_def nat_le_iff split: list.splits if_splits)
  moreover have "1 \<le> nat ?k" using start(2) by simp
  note iff = streak_ge_iff [OF this, of ?h]
  moreover have "\<exists>ps. polls es = ps @ [(autoReason (ctl S), True)]" if "autoContended (ctl S)"
  proof -
    have "polls es \<noteq> []" "hd ?h = (autoReason (ctl S), True)"
      using that ac ar by (auto simp: prod_eq_iff)
    then have "last (polls es) = (autoReason (ctl S), True)" by (simp add: hd_rev)
    with \<open>polls es \<noteq> []\<close> show ?thesis by (metis append_butlast_last_id)
  qed
  ultimately show ?thesis using start(2) by auto
qed

text \<open>A controller for the examples: the given instances, two polls to confirm, a GPU manager.\<close>

definition demo_controller :: "unloader option list \<Rightarrow> duration list \<Rightarrow> int \<Rightarrow> ysys" where
  "demo_controller us ds pl =
     (case NewWithConfirmMulti us [] 5 pl 0 empty_heap of (c, cx) \<Rightarrow>
        yield_init (SetGPUManager True (c\<lparr>idleTimeouts := ds\<rparr>)) cx)"

lemma demo_controller_start:
  assumes "length ds = length us" and "\<forall>u\<in>set us. u \<noteq> None"
  shows "yield_start (demo_controller us ds pl)"
proof -
  have f: "length fu = length us \<and> o2f = map int [post..<post + length us]"
    if "filter_unloaders i post lbls us = (fu, fl, o2f)" for i post lbls fu fl o2f
    using that assms(2)
    by (induction i post lbls us arbitrary: fu fl o2f rule: filter_unloaders.induct)
      (auto split: prod.splits simp: upt_conv_Cons simp del: upt_Suc)
  have loop: "ConfigureIdle_loop ds (map int [length ts..<length ts + length ds]) (ts @ replicate (length ds) x) = Some (ts @ ds)"
    for ts x
  proof (induction ds arbitrary: ts)
    case Nil
    then show ?case by simp
  next
    case (Cons d ds)
    then show ?case using Cons [of "ts @ [d]"]
      by (simp add: upt_conv_Cons list_update_append del: upt_Suc)
  qed
  obtain c cx where new: "NewWithConfirmMulti us [] 5 pl 0 empty_heap = (c, cx)" by fastforce
  then have "ConfigureIdle ds c = Some (c\<lparr>idleTimeouts := ds\<rparr>)"
    using f [of 0 0 "[]"] loop [of "[]" 0] assms(1)
    by (fastforce simp: NewWithConfirmMulti_def ConfigureIdle_def make_chan_def split: prod.splits)
  with new show ?thesis unfolding yield_start_def demo_controller_def by fastforce
qed

lemmas yield_eval = demo_controller_def NewWithConfirmMulti_def make_chan_def empty_heap_def yield_init_def
  SetGPUManager_def label_of_def apply_step_def applyLocked_switch_def computeLocked_def refresh_detect_def
  debounceLocked_def cancel_ctx_def spawn_action_eq idle_step_def idle_fire_def idle_guard_def
  idle_flag_clear_def idle_elapsed_def reset_step_def reset_dispatch_def reset_flag_def n_inst_def
  set_req_def track_add_def track_stamp_def track_cas_def track_wake_def action_start_def action_end_def
  set_pc_def close_chan_def splice_out_def Let_def numeral_eq_Suc

theorem debounce_exact_witness:
  "\<exists>S. run_events yield_exec [YRefresh ''g'' True 1, YIdle 1, YRefresh ''g'' True 6] (demo_controller [] [] 2) = Some S
     \<and> autoContended (ctl S) \<and> autoReason (ctl S) = ''g''"
proof -
  let ?es = "[YRefresh ''g'' True 1, YIdle 1, YRefresh ''g'' True 6]"
  obtain S where S: "run_events yield_exec ?es (demo_controller [] [] 2) = Some S" "confirmPolls (ctl S) = 2"
    by (simp add: yield_eval)
  have "yield_start (demo_controller [] [] 2)" by (simp add: demo_controller_start)
  from debounce_exact [OF this S(1)] S show ?thesis by (auto simp: numeral_eq_Suc)
qed

section \<open>In-flight work\<close>

text \<open>
  C11. Yielding aborts everything in flight. In every run from the constructor: \<^verbatim>\<open>Yielding\<close> reports the
  effective state, the context \<^verbatim>\<open>ServeContext\<close> hands out is cancelled exactly while yielding, and a
  context taken at any earlier point is cancelled once a yield has begun after that point, even if
  the yield has ended since, so a call that was admitted before the yield never outlives it.
\<close>

theorem yield_aborts_in_flight:
  assumes "yield_start S0" and "run_events yield_exec es S0 = Some S"
    and "run_events yield_exec fs S = Some S1" and "fst (Yielding (ctl S1))"
    and "run_events yield_exec gs S1 = Some S2"
  shows "ServeContext (ctl S) \<in> closedc (ctxs S2)
     \<and> (ServeContext (ctl S2) \<in> closedc (ctxs S2) \<longleftrightarrow> fst (Yielding (ctl S2)))
     \<and> fst (Yielding (ctl S2)) = effective (ctl S2)"
proof -
  have inv: "yield_inv S" by (rule yields.run_inv [OF assms(1,2)])
  then have inv2: "yield_inv S2" using yields.run_from_inv assms(3,5) by blast
  show ?thesis
    using adm.taken_aborted [OF inv assms(3,4,5)] adm.current_live [OF inv2] yield_invD(2) [OF inv2]
    by (simp add: Yielding_def serve_ok_def)
qed

theorem yield_aborts_in_flight_witness:
  "\<exists>S1 S2. run_events yield_exec [YSetMode ModeForceYield] (demo_controller [] [] 2) = Some S1
     \<and> run_events yield_exec [YSetMode ModeAuto] S1 = Some S2
     \<and> ServeContext (ctl (demo_controller [] [] 2)) \<in> closedc (ctxs S2) \<and> \<not> fst (Yielding (ctl S2))"
proof -
  let ?S = "demo_controller [] [] 2"
  obtain S1 where S1: "run_events yield_exec [YSetMode ModeForceYield] ?S = Some S1" "fst (Yielding (ctl S1))"
    "\<exists>S2. run_events yield_exec [YSetMode ModeAuto] S1 = Some S2 \<and> \<not> fst (Yielding (ctl S2))"
    by (simp add: yield_eval Yielding_def)
  then obtain S2 where S2: "run_events yield_exec [YSetMode ModeAuto] S1 = Some S2" "\<not> fst (Yielding (ctl S2))"
    by blast
  have "yield_start ?S" by (simp add: demo_controller_start)
  moreover have "run_events yield_exec [] ?S = Some ?S" by simp
  ultimately show ?thesis using yield_aborts_in_flight [OF _ _ S1(1,2) S2(1)] S1(1) S2 by blast
qed

section \<open>Unload and reload calls\<close>

text \<open>
  C12. The calls to one \<^verbatim>\<open>Unloader\<close> run one at a time, in the order the transitions happened. In every
  run, the calls an instance received are an initial segment of the actions spawned for it, in spawn
  order; while one is running all earlier ones have returned and no later one has begun; an
  instance's chain never depends on another's; and no \<^verbatim>\<open>done\<close> channel is closed twice.
\<close>

theorem actions_in_order:
  assumes "yield_start S0" and "run_events yield_exec es S0 = Some S"
  shows "\<exists>m\<le>length (acts S i). calls S i = map (\<lambda>p. a_kind (fst p)) (take m (acts S i))
       \<and> (\<forall>k<length (acts S i). snd (acts S i ! k) = AWait \<longleftrightarrow> m \<le> k)
       \<and> (\<forall>k. Suc k < m \<longrightarrow> snd (acts S i ! k) = ADone)
     \<and> \<not> ypanic S"
proof -
  have ok: "chains_ok S" by (rule yield_invD(3) [OF yields.run_inv [OF assms]])
  then have ch: "chain (ad_at (actionDone (ctl S)) i) (chs S) (acts S i)" "calls S i = started (acts S i)" "\<not> ypanic S"
    by (simp_all add: chains_ok_def chains_def)
  let ?l = "acts S i" and ?w = "\<lambda>p. snd p \<noteq> AWait"
  define m where "m = length (takeWhile ?w ?l)"
  have wait: "snd (?l ! k) = AWait \<longleftrightarrow> m \<le> k" if "k < length ?l" for k
  proof
    show "m \<le> k" if w: "snd (?l ! k) = AWait"
    proof (rule ccontr)
      assume "\<not> m \<le> k"
      then have k: "k < length (takeWhile ?w ?l)" by (simp add: m_def)
      then have "?l ! k \<in> set (takeWhile ?w ?l)" using takeWhile_nth [OF k] nth_mem [OF k] by simp
      then show False using w by (auto dest: set_takeWhileD)
    qed
  next
    assume "m \<le> k"
    then have "m < length ?l" using \<open>k < length ?l\<close> by simp
    then have "snd (?l ! m) = AWait" unfolding m_def using nth_length_takeWhile by blast
    then show "snd (?l ! k) = AWait"
      using chain_started_before [OF ch(1), of m k] \<open>m \<le> k\<close> \<open>k < length ?l\<close> by (cases "m = k") fastforce+
  qed
  have le: "m \<le> length ?l" unfolding m_def by (rule length_takeWhile_le)
  have "filter ?w (drop m ?l) = []"
    using wait le by (auto simp: filter_empty_conv in_set_conv_nth) (metis add.commute le_add1 less_diff_conv snd_conv)
  moreover have "filter ?w (take m ?l) = take m ?l"
    unfolding m_def takeWhile_eq_take [symmetric] by (auto simp: filter_id_conv dest: set_takeWhileD)
  ultimately have "calls S i = map (\<lambda>p. a_kind (fst p)) (take m ?l)"
    using ch(2) unfolding started_def by (metis append_Nil2 append_take_drop_id filter_append)
  moreover have "snd (?l ! k) = ADone" if "Suc k < m" for k
    using chain_started_before [OF ch(1), of k "m - 1"] wait [of "m - 1"] that le by auto
  ultimately show ?thesis using wait le ch(3) by blast
qed

text \<open>
  C13. The chain never gets stuck: in every reachable state in which some action of an instance is not
  over, one of its actions can start or is running and can end, so each action is eventually run
  whatever another instance does.
\<close>

theorem actions_progress:
  assumes "yield_start S0" and "run_events yield_exec es S0 = Some S"
    and "\<exists>p\<in>set (acts S i). snd p \<noteq> ADone"
  shows "\<exists>k S'. yield_exec (AStart i k) S = Some S' \<or> yield_exec (AEnd i k) S = Some S'"
proof -
  have "chains_ok S" by (rule yield_invD(3) [OF yields.run_inv [OF assms(1,2)]])
  then have "chain (ad_at (actionDone (ctl S)) i) (chs S) (acts S i)" by (simp add: chains_ok_def chains_def)
  from this assms(3) show ?thesis
  proof (rule chain_progress)
    fix k
    assume "k < length (acts S i)" "snd (acts S i ! k) = ARun"
    then show ?thesis by (intro exI [of _ k]) (auto simp: action_end_def)
  next
    fix k
    assume "k < length (acts S i)" "snd (acts S i ! k) = AWait"
      "case a_wait (fst (acts S i ! k)) of None \<Rightarrow> True | Some w \<Rightarrow> w \<in> closedc (chs S)"
    then show ?thesis by (intro exI [of _ k]) (auto simp: action_start_def)
  qed
qed

text \<open>One instance, a yield forced and lifted before either action has run: the fast flap.\<close>

definition flap :: "yev list" where
  "flap = [YSetMode ModeForceYield, YSetMode ModeAuto, YReset 1, YReset 1, YReset 1]"

lemma demo1_start: "yield_start (demo_controller [Some 7] [10] 1)"
  by (simp add: demo_controller_start)

lemma flap_run:
  "\<exists>S. run_events yield_exec flap (demo_controller [Some 7] [10] 1) = Some S \<and> \<not> effective (ctl S)
     \<and> map (\<lambda>p. (a_kind (fst p), snd p)) (acts S 0) = [(Unload, AWait), (Reload, AWait)] \<and> lk S = LFree"
  by (simp add: flap_def yield_eval)

theorem actions_in_order_witness:
  "\<exists>S. run_events yield_exec (flap @ [AStart 0 0, AEnd 0 0, AStart 0 1]) (demo_controller [Some 7] [10] 1) = Some S
     \<and> calls S 0 = [Unload, Reload] \<and> snd (acts S 0 ! 0) = ADone"
proof -
  let ?es = "flap @ [AStart 0 0, AEnd 0 0, AStart 0 1]"
  obtain S where S: "run_events yield_exec ?es (demo_controller [Some 7] [10] 1) = Some S"
    "calls S 0 = [Unload, Reload]"
    by (simp add: flap_def yield_eval)
  from actions_in_order [OF demo1_start S(1), of 0] S(2) obtain m where
    "[Unload, Reload] = map (\<lambda>p. a_kind (fst p)) (take m (acts S 0))" "m \<le> length (acts S 0)"
    "\<forall>k. Suc k < m \<longrightarrow> snd (acts S 0 ! k) = ADone" by metis
  moreover from this(1,2) have "m = 2" by (metis length_Cons length_map length_take list.size(3) min.absorb2 numeral_2_eq_2)
  ultimately show ?thesis using S by auto
qed

theorem actions_progress_witness:
  "\<exists>S k S'. run_events yield_exec flap (demo_controller [Some 7] [10] 1) = Some S
     \<and> (yield_exec (AStart 0 k) S = Some S' \<or> yield_exec (AEnd 0 k) S = Some S')"
proof -
  obtain S where S: "run_events yield_exec flap (demo_controller [Some 7] [10] 1) = Some S"
    "map (\<lambda>p. (a_kind (fst p), snd p)) (acts S 0) = [(Unload, AWait), (Reload, AWait)]"
    using flap_run by (elim exE conjE)
  then have "\<exists>p\<in>set (acts S 0). snd p \<noteq> ADone" by (cases "acts S 0") auto
  from actions_progress [OF demo1_start S(1) this] S(1) show ?thesis by blast
qed

text \<open>
  C14. No instance is left stopped while the broker serves. In every reachable state in which the
  broker is not yielding, an instance that is not marked idle-unloaded, has no request about to wake
  it and has no action outstanding was last told to load (or was never touched): neither a fast
  yield flap nor a race between the idle check and a waking request can strand it.
\<close>

theorem instance_not_left_stopped:
  assumes "yield_start S0" and "run_events yield_exec es S0 = Some S"
    and "\<not> effective (ctl S)" and "i < n_inst S" and "\<not> idleUnloaded (ctl S) ! i"
    and "\<forall>t. reqs S t \<noteq> TWon i" and "\<forall>p\<in>set (acts S i). snd p = ADone"
  shows "calls S i = [] \<or> last (calls S i) = Reload"
proof -
  note I = yield_invD [OF yields.run_inv [OF assms(1,2)]]
  have "requested S i \<noteq> Unload" using I(4) assms(3-6) unfolding idle_ok_def by blast
  moreover have "filter (\<lambda>p. snd p \<noteq> AWait) (acts S i) = acts S i"
    using assms(7) by (simp add: filter_id_conv)
  then have "calls S i = map (\<lambda>p. a_kind (fst p)) (acts S i)"
    using I(3) by (simp add: chains_ok_def started_def)
  ultimately show ?thesis
    by (cases "acts S i = []") (auto simp: requested_def last_map intro: kind.exhaust [of "a_kind _"])
qed

theorem instance_not_left_stopped_witness:
  "\<exists>S. run_events yield_exec (flap @ [AStart 0 0, AEnd 0 0, AStart 0 1, AEnd 0 1]) (demo_controller [Some 7] [10] 1) = Some S
     \<and> calls S 0 \<noteq> [] \<and> last (calls S 0) = Reload"
proof -
  let ?es = "flap @ [AStart 0 0, AEnd 0 0, AStart 0 1, AEnd 0 1]"
  obtain S where S: "run_events yield_exec ?es (demo_controller [Some 7] [10] 1) = Some S"
    "\<not> effective (ctl S)" "0 < n_inst S" "\<not> idleUnloaded (ctl S) ! 0" "\<forall>t. reqs S t \<noteq> TWon 0"
    "\<forall>p\<in>set (acts S 0). snd p = ADone" "calls S 0 \<noteq> []"
    by (simp add: flap_def yield_eval)
  from instance_not_left_stopped [OF demo1_start S(1-6)] S(1,7) show ?thesis by blast
qed

section \<open>Idle unload\<close>

lemma checkIdle_one_spec:
  assumes "shape c" and "checkIdle_one i now c h = (as, c', h')"
  shows "shape c' \<and> effective c' = effective c \<and> idleTimeouts c' = idleTimeouts c \<and> inFlight c' = inFlight c
     \<and> lastDispatch c' = lastDispatch c \<and> (\<forall>j. j \<noteq> i \<longrightarrow> idleUnloaded c' ! j = idleUnloaded c ! j)
     \<and> map a_inst as = (if idle_guard i c \<and> idle_flag_clear i c \<and> idle_elapsed i now c then [i] else [])
     \<and> (\<forall>a\<in>set as. a_kind a = Unload \<and> a_trigger a = triggerIdle)"
  using assms
  by (auto simp: checkIdle_one_def idle_fire_def idle_flag_clear_def spawn_action_eq shape_def split: if_splits)

lemma checkIdle_from_spec:
  assumes "shape c" and "checkIdle_from clk is c h = (as, c', h')" and "distinct is"
  shows "map a_inst as = filter (\<lambda>i. idle_guard i c \<and> idle_flag_clear i c \<and> idle_elapsed i (clk i) c) is
     \<and> (\<forall>a\<in>set as. a_kind a = Unload \<and> a_trigger a = triggerIdle)"
  using assms
proof (induction "is" arbitrary: c h as)
  case Nil
  then show ?case by simp
next
  case (Cons i "is")
  obtain as1 c1 h1 where one: "checkIdle_one i (clk i) c h = (as1, c1, h1)" by (metis prod_cases3)
  obtain as2 where rest: "checkIdle_from clk is c1 h1 = (as2, c', h')" "as = as1 @ as2"
    using Cons.prems(2) one by (auto split: prod.splits)
  note O = checkIdle_one_spec [OF Cons.prems(1) one]
  have "idle_guard j c1 \<and> idle_flag_clear j c1 \<and> idle_elapsed j (clk j) c1 \<longleftrightarrow>
      idle_guard j c \<and> idle_flag_clear j c \<and> idle_elapsed j (clk j) c" if "j \<in> set is" for j
    using O that Cons.prems(3) by (auto simp: idle_guard_def idle_flag_clear_def idle_elapsed_def)
  then have "filter (\<lambda>i. idle_guard i c1 \<and> idle_flag_clear i c1 \<and> idle_elapsed i (clk i) c1) is
      = filter (\<lambda>i. idle_guard i c \<and> idle_flag_clear i c \<and> idle_elapsed i (clk i) c) is"
    by (intro filter_cong) auto
  with Cons.IH [of c1 h1 as2] O rest Cons.prems(3) show ?case by auto
qed

text \<open>
  The idle check unloads exactly the idle instances. On a tick, the actions spawned are one
  \<^verbatim>\<open>Unload\<close>, in index order, for each instance that has a timeout configured, while the broker is not
  yielding, whose in-flight count is zero, that is not already idle-unloaded and whose last dispatch
  is at least its timeout ago; no other instance is touched.
\<close>

theorem idle_check_exact:
  assumes "shape c" and "checkIdleLocked clk c h = (as, c', h')"
  shows "map a_inst as = filter (\<lambda>i. idleTimeouts c ! i \<noteq> 0 \<and> \<not> effective c \<and> \<not> inFlight c ! i > 0
         \<and> \<not> idleUnloaded c ! i \<and> clk i - lastDispatch c ! i \<ge> idleTimeouts c ! i) [0..<length (unloaders c)]
     \<and> (\<forall>a\<in>set as. a_kind a = Unload \<and> a_trigger a = triggerIdle)"
proof -
  have "length (idleTimeouts c) = length (unloaders c)" using assms(1) by (simp add: shape_def)
  with checkIdle_from_spec [OF assms(1), of clk "[0..<length (unloaders c)]" h as c' h'] assms(2)
  show ?thesis by (simp add: checkIdleLocked_def idle_guard_def idle_flag_clear_def idle_elapsed_def)
qed

theorem idle_check_exact_witness:
  "\<exists>as c' h'. checkIdleLocked (\<lambda>_. 20) ((ctl (demo_controller [Some 7, Some 8] [10, 30] 1))) empty_heap = (as, c', h')
     \<and> map a_inst as = [0]"
proof -
  let ?c = "ctl (demo_controller [Some 7, Some 8] [10, 30] 1)"
  obtain as c' h' where run: "checkIdleLocked (\<lambda>_. 20) ?c empty_heap = (as, c', h')" by (metis prod_cases3)
  have "shape ?c" by (simp add: demo_controller_def NewWithConfirmMulti_def make_chan_def empty_heap_def
        yield_init_def SetGPUManager_def shape_def)
  from idle_check_exact [OF this run] run show ?thesis
    by (simp add: demo_controller_def NewWithConfirmMulti_def make_chan_def empty_heap_def
        yield_init_def SetGPUManager_def upt_rec)
qed

lemma spawned_eq: "spawned as f i = f i @ map (\<lambda>a. (a, AWait)) (filter (\<lambda>a. a_inst a = i) as)"
  by (induction as arbitrary: f) auto

lemma spawn_each_trigger: "spawn_each k tr is c h = (as, c', h') \<Longrightarrow> \<forall>a\<in>set as. a_trigger a = tr"
  by (induction "is" arbitrary: c h as) (fastforce simp: spawn_action_eq split: prod.splits)+

text \<open>A transition's actions carry the yield trigger.\<close>

lemma apply_step_trigger:
  assumes "acts (apply_step c fr S) i = acts S i @ [(a, AWait)]"
  shows "a_trigger a = triggerYield"
proof -
  obtain ev as mgr c' h' cx' where sw: "applyLocked_switch c (chs S) (ctxs S) = (ev, as, mgr, c', h', cx')"
    by (metis prod_cases6)
  then have "map (\<lambda>a. (a, AWait)) (filter (\<lambda>a. a_inst a = i) as) = [(a, AWait)]"
    using assms by (simp add: apply_step_def spawned_eq)
  then have a: "a \<in> set as" by (auto simp: map_eq_Cons_conv filter_eq_Cons_iff)
  from sw show ?thesis
    by (cases rule: applyLocked_switch_cases) (use a in \<open>auto dest: spawn_each_trigger\<close>)
qed



section \<open>Instances and their indices\<close>

lemma filter_unloaders_nth:
  assumes "filter_unloaders i0 post lbls us = (fu, fl, o2f)" and "i < length us"
  shows "case us ! i of
      None \<Rightarrow> o2f ! i = -1
    | Some u \<Rightarrow> \<exists>p<length fu. o2f ! i = int (post + p) \<and> fu ! p = u \<and> fl ! p = label_of lbls (i0 + i)"
  using assms
proof (induction i0 post lbls us arbitrary: fu fl o2f i rule: filter_unloaders.induct)
  case (1 i0 post lbls)
  then show ?case by simp
next
  case (2 i0 post lbls us)
  obtain o2f' where r: "filter_unloaders (Suc i0) post lbls us = (fu, fl, o2f')" "o2f = -1 # o2f'"
    using 2(2) by (auto split: prod.splits)
  show ?case using 2(1) [OF r(1), of "i - 1"] 2(3) r(2) by (cases i) (auto split: option.splits)
next
  case (3 i0 post lbls u us)
  obtain fu' fl' o2f' where r: "filter_unloaders (Suc i0) (Suc post) lbls us = (fu', fl', o2f')"
    "fu = u # fu'" "fl = label_of lbls i0 # fl'" "o2f = int post # o2f'"
    using 3(2) by (auto split: prod.splits)
  show ?case
  proof (cases i)
    case 0
    then show ?thesis using r by (auto intro: exI [of _ 0])
  next
    case (Suc j)
    then have "case us ! j of None \<Rightarrow> o2f' ! j = -1 | Some u \<Rightarrow> \<exists>p<length fu'. o2f' ! j = int (Suc post + p)
        \<and> fu' ! p = u \<and> fl' ! p = label_of lbls (Suc i0 + j)"
      using 3(1) [OF r(1), of j] 3(3) by simp
    then show ?thesis using Suc r
      by (cases "us ! j") (auto simp: Ex_less_Suc2 algebra_simps)
  qed
qed

lemma filter_unloaders_range:
  "filter_unloaders i0 post lbls us = (fu, fl, o2f) \<Longrightarrow>
    filter (\<lambda>p. p \<noteq> -1) o2f = map int [post..<post + length fu] \<and> fu = List.map_filter id us"
  by (induction i0 post lbls us arbitrary: fu fl o2f rule: filter_unloaders.induct)
    (auto split: prod.splits simp: upt_conv_Cons List.map_filter_simps simp del: upt_Suc)

lemma ConfigureIdle_loop_spec:
  assumes "length ds = length ps" and "distinct (filter (\<lambda>p. p \<noteq> -1) ps)"
    and "\<forall>p\<in>set ps. p = -1 \<or> 0 \<le> p \<and> nat p < length ts"
  shows "(ConfigureIdle_loop ds ps ts \<noteq> None \<longleftrightarrow> (\<forall>i<length ps. ps ! i = -1 \<longrightarrow> ds ! i = 0))
     \<and> (\<forall>ts'. ConfigureIdle_loop ds ps ts = Some ts' \<longrightarrow>
          (\<forall>i<length ps. ps ! i \<noteq> -1 \<longrightarrow> ts' ! nat (ps ! i) = ds ! i)
          \<and> (\<forall>q. int q \<notin> set ps \<longrightarrow> ts' ! q = ts ! q))"
  using assms
proof (induction ds ps arbitrary: ts rule: list_induct2)
  case Nil
  then show ?case by simp
next
  case (Cons d ds p ps)
  show ?case
  proof (cases "p = -1")
    case True
    then show ?thesis using Cons.IH [of ts] Cons.prems by (simp add: All_less_Suc2)
  next
    case False
    then have p: "0 \<le> p" "nat p < length ts" "int (nat p) \<notin> set ps" "p \<notin> set ps"
      using Cons.prems by auto
    from Cons.IH [of "ts[nat p := d]"] Cons.prems False
    have IH: "ConfigureIdle_loop ds ps (ts[nat p := d]) \<noteq> None \<longleftrightarrow> (\<forall>i<length ps. ps ! i = -1 \<longrightarrow> ds ! i = 0)"
      "\<And>ts'. ConfigureIdle_loop ds ps (ts[nat p := d]) = Some ts' \<Longrightarrow>
        (\<forall>i<length ps. ps ! i \<noteq> -1 \<longrightarrow> ts' ! nat (ps ! i) = ds ! i)
        \<and> (\<forall>q. int q \<notin> set ps \<longrightarrow> ts' ! q = ts[nat p := d] ! q)"
      by auto
    have "ts' ! nat p = d" if "ConfigureIdle_loop ds ps (ts[nat p := d]) = Some ts'" for ts'
      using IH(2) [OF that] p by (metis nth_list_update_eq)
    moreover have "ts' ! q = ts ! q"
      if "ConfigureIdle_loop ds ps (ts[nat p := d]) = Some ts'" "int q \<noteq> p" "int q \<notin> set ps" for ts' q
      using IH(2) [OF that(1)] that(2,3) p(1) by (metis int_nat_eq nth_list_update_neq)
    ultimately show ?thesis using IH False by (simp add: All_less_Suc2)
  qed
qed

text \<open>
  The three index spaces line up. The constructor keeps the non-nil unloaders in order; the
  configured (pre-filter) index of each maps to its position among the kept ones, with its label, and
  a nil one maps to -1; idle timeouts given by configured index land on the right instance; and
  \<^verbatim>\<open>ConfigureIdle\<close> panics exactly on a length mismatch or a timeout for an instance without unloader.
\<close>

lemma instance_indices:
  assumes "NewWithConfirmMulti us lbls itv pl now cx = (c, cx')"
  shows "unloaders c = List.map_filter id us \<and> length (labels c) = length (unloaders c)
     \<and> (\<forall>i<length us. case us ! i of
          None \<Rightarrow> TrackActivity (int i) c = None
        | Some u \<Rightarrow> \<exists>p<length (unloaders c). TrackActivity (int i) c = Some p
             \<and> unloaders c ! p = u \<and> labels c ! p = label_of lbls i)
     \<and> (ConfigureIdle ds c \<noteq> None \<longleftrightarrow>
          length ds = length us \<and> (\<forall>i<length us. us ! i = None \<longrightarrow> ds ! i = 0))
     \<and> (\<forall>c' i p. ConfigureIdle ds c = Some c' \<and> i < length us \<and> TrackActivity (int i) c = Some p
          \<longrightarrow> idleTimeouts c' ! p = ds ! i)"
proof -
  obtain fu fl o2f where f: "filter_unloaders 0 0 lbls us = (fu, fl, o2f)" by (metis prod_cases3)
  note len = filter_unloaders_lengths [OF f] and nth = filter_unloaders_nth [OF f]
    and rng = filter_unloaders_range [OF f]
  have c: "unloaders c = fu" "labels c = fl" "origToFiltered c = o2f" "idleTimeouts c = replicate (length fu) 0"
    using assms f by (auto simp: NewWithConfirmMulti_def make_chan_def)
  have track: "TrackActivity (int i) c = (if o2f ! i = -1 then None else Some (nat (o2f ! i)))" if "i < length us" for i
    using that len c(3) by (simp add: TrackActivity_def Let_def)
  have one: "case us ! i of None \<Rightarrow> TrackActivity (int i) c = None
      | Some u \<Rightarrow> \<exists>p<length (unloaders c). TrackActivity (int i) c = Some p
           \<and> unloaders c ! p = u \<and> labels c ! p = label_of lbls i"
    and nil: "us ! i = None \<longleftrightarrow> o2f ! i = -1" if "i < length us" for i
    using nth [OF that] track [OF that] c(1,2) by (auto split: option.splits)
  have "p \<in> int ` {0..<length fu}" if "p \<in> set o2f" "p \<noteq> -1" for p
    using that arg_cong [OF conjunct1 [OF rng], of set] by auto
  then have "\<forall>p\<in>set o2f. p = -1 \<or> 0 \<le> p \<and> nat p < length (replicate (length fu) (0::int))" by fastforce
  moreover have "distinct (filter (\<lambda>p. p \<noteq> -1) o2f)" using rng by (simp add: distinct_map)
  ultimately have conf: "length ds = length o2f \<Longrightarrow>
      (ConfigureIdle_loop ds o2f (replicate (length fu) 0) \<noteq> None \<longleftrightarrow> (\<forall>i<length o2f. o2f ! i = -1 \<longrightarrow> ds ! i = 0))
      \<and> (\<forall>ts'. ConfigureIdle_loop ds o2f (replicate (length fu) 0) = Some ts' \<longrightarrow>
          (\<forall>i<length o2f. o2f ! i \<noteq> -1 \<longrightarrow> ts' ! nat (o2f ! i) = ds ! i))"
    using ConfigureIdle_loop_spec [of ds o2f "replicate (length fu) 0"] by blast
  have "ConfigureIdle ds c \<noteq> None \<longleftrightarrow> length ds = length us \<and> (\<forall>i<length us. us ! i = None \<longrightarrow> ds ! i = 0)"
    using conf len nil c by (auto simp: ConfigureIdle_def)
  moreover have "idleTimeouts c' ! p = ds ! i"
    if "ConfigureIdle ds c = Some c'" "i < length us" "TrackActivity (int i) c = Some p" for c' i p
    using that conf len c track [OF that(2)] by (auto simp: ConfigureIdle_def split: if_splits)
  moreover have "unloaders c = List.map_filter id us" "length (labels c) = length (unloaders c)"
    using len rng c(1,2) by simp_all
  ultimately show ?thesis using one by blast
qed

section \<open>Two races the ordering does not cover\<close>

text \<open>
  The wake of an idle-unloaded instance is not tied to the yield state: a request that was
  admitted and counted before a yield can win the wake after it began, and then the instance's last
  call, after every action has run, is a \<^verbatim>\<open>Reload\<close> although the broker is yielding the GPU.
\<close>

theorem wake_reloads_during_yield:
  "\<exists>es S. run_events yield_exec es (demo_controller [Some 7] [10] 1) = Some S \<and> effective (ctl S)
     \<and> map snd (acts S 0) = [ADone, ADone, ADone] \<and> last (calls S 0) = Reload"
proof -
  let ?idle = "[YRefresh '''' False 20, YIdle 20, YIdle 20, YIdle 20, YIdle 20, YIdle 20]"
  let ?yield = "[YRefresh ''gaming'' True 22, YIdle 22, YIdle 22]"
  let ?run = "[AStart 0 0, AEnd 0 0, AStart 0 1, AEnd 0 1, AStart 0 2, AEnd 0 2]"
  let ?es = "?idle @ [TEnter 0 0, TStamp 0 21] @ ?yield @ [TCas 0, TWake 0] @ ?run"
  have "\<exists>S. run_events yield_exec ?es (demo_controller [Some 7] [10] 1) = Some S \<and> effective (ctl S)
     \<and> map snd (acts S 0) = [ADone, ADone, ADone] \<and> last (calls S 0) = Reload"
    by (simp add: yield_eval)
  then show ?thesis by (rule exI [of _ ?es])
qed

text \<open>
  The pause and resume of the external GPU manager are not ordered: after a yield that ends before
  its pause was delivered, the manager can receive the resume first and the pause last, and is left
  paused while the broker serves.
\<close>

theorem gpu_manager_left_paused:
  "\<exists>es S. run_events yield_exec es (demo_controller [] [] 1) = Some S
     \<and> \<not> effective (ctl S) \<and> mgrp S = [] \<and> mgrlog S = [False, True]"
proof -
  let ?es = "[YSetMode ModeForceYield, YSetMode ModeAuto, YReset 1, MRun 1, MRun 0]"
  have "\<exists>S. run_events yield_exec ?es (demo_controller [] [] 1) = Some S
     \<and> \<not> effective (ctl S) \<and> mgrp S = [] \<and> mgrlog S = [False, True]"
    by (simp add: yield_eval)
  then show ?thesis by blast
qed

end
