(* ===== verification/Backend_Router.thy ===== *)
theory Backend_Router
  imports Config_Properties Yield_Properties
    "HOL-Library.AList" "HOL-Library.Char_ord" "HOL-Library.List_Lexorder" "HOL-Library.Product_Lexorder"
begin

text \<open>
  \<^verbatim>\<open>internal/backend\<close>: the backends, activity tracking and the per-model router. A backend is known by
  what it was built from: its family, URL, key and unit, the handle of its unloader, and the configured
  index under which its requests are tracked, if they are. What the streaming JSON decoder sees of a
  request body is the argument \<open>scan\<close>: the document and how many bytes it read.
\<close>

section \<open>Backends\<close>

record backend =
  bk_family :: string
  bk_url :: "URL option"
  bk_apiKey :: string
  bk_unit :: string
  bk_unloader :: "unloader option"
  bk_track :: "nat option"

text \<open>The constructors; \<open>n\<close> is the handle of the unloader that is created.\<close>

definition newOllamaBackend :: "nat \<Rightarrow> URL option \<Rightarrow> backend" where
  "newOllamaBackend n u = \<lparr>bk_family = ''ollama'', bk_url = u, bk_apiKey = [], bk_unit = [],
     bk_unloader = Some n, bk_track = None\<rparr>"

definition newOpenAIBackend :: "nat \<Rightarrow> URL option \<Rightarrow> string \<Rightarrow> string \<Rightarrow> backend" where
  "newOpenAIBackend n u apiKey unit = \<lparr>bk_family = ''openai'', bk_url = u, bk_apiKey = apiKey, bk_unit = unit,
     bk_unloader = (if unit \<noteq> [] then Some n else None), bk_track = None\<rparr>"

definition backend_New :: "Config \<Rightarrow> string + backend" where
  "backend_New cfg =
     (if UpstreamBackend cfg = ''ollama'' then Inr (newOllamaBackend 0 (OllamaURL cfg))
      else if UpstreamBackend cfg = ''openai''
      then Inr (newOpenAIBackend 0 (UpstreamURL cfg) (UpstreamAPIKey cfg) (UpstreamUnitName cfg))
      else Inl (UpstreamBackend cfg))"

definition NewInstance :: "nat \<Rightarrow> string \<Rightarrow> URL \<Rightarrow> string \<Rightarrow> string \<Rightarrow> string + backend" where
  "NewInstance n family u apiKey unit =
     (if family = ''ollama'' then Inr (newOllamaBackend n (Some u))
      else if family = ''openai'' then Inr (newOpenAIBackend n (Some u) apiKey unit)
      else Inl family)"

definition WithActivityTracking :: "nat \<Rightarrow> backend \<Rightarrow> backend" where
  "WithActivityTracking origIdx b = b\<lparr>bk_track := Some origIdx\<rparr>"

section \<open>Finding the model\<close>

definition peekLimit :: nat where "peekLimit = 64 * 1024"

text \<open>
  What the decoder reports: no first token, a first token that does not open an object, or the fields
  of the object as far as they can be read. A value decodes into a string, is something else, or fails.
\<close>

datatype jval = VString string | VOther | VErr

datatype jfield = FErr | FNotString | Field string jval

datatype jdoc = DErr | DNotObject | DObject "jfield list"

fun peek_fields :: "jfield list \<Rightarrow> string" where
  "peek_fields [] = []"
| "peek_fields (FErr # fs) = []"
| "peek_fields (FNotString # fs) = []"
| "peek_fields (Field key v # fs) =
     (if key = ''model'' then (case v of VString s \<Rightarrow> s | _ \<Rightarrow> [])
      else (case v of VErr \<Rightarrow> [] | _ \<Rightarrow> peek_fields fs))"

type_synonym scanner = "string \<Rightarrow> jdoc \<times> nat"

definition peekModel :: "scanner \<Rightarrow> string \<Rightarrow> string \<times> string" where
  "peekModel scan raw =
     (let limited = take peekLimit raw; (doc, n) = scan limited
      in (case doc of DErr \<Rightarrow> [] | DNotObject \<Rightarrow> [] | DObject fs \<Rightarrow> peek_fields fs, take n limited))"

section \<open>The router\<close>

type_synonym routeEntry = "backend \<times> string"

record Router =
  rt_def :: backend
  rt_routes :: "(string \<times> routeEntry) list"

definition NewRouter :: "backend \<Rightarrow> Router" where
  "NewRouter d = \<lparr>rt_def = d, rt_routes = []\<rparr>"

definition AddRoute :: "string \<Rightarrow> string \<Rightarrow> backend \<Rightarrow> Router \<Rightarrow> Router" where
  "AddRoute model lane b r = r\<lparr>rt_routes := AList.update model (b, lane) (rt_routes r)\<rparr>"

text \<open>\<^verbatim>\<open>resolve\<close>: the backend, and the body as the backend will read it; \<open>None\<close> is a request without body.\<close>

definition resolve_body :: "scanner \<Rightarrow> string option \<Rightarrow> string \<Rightarrow> Router \<Rightarrow> backend \<times> string option" where
  "resolve_body scan reqBody lane r =
     (case reqBody of
        None \<Rightarrow> (rt_def r, None)
      | Some b \<Rightarrow>
          (let (model, consumed) = peekModel scan b;
               restored = consumed @ drop (length consumed) b
           in (if model = [] then rt_def r
               else case map_of (rt_routes r) model of
                 None \<Rightarrow> rt_def r
               | Some (bk, l) \<Rightarrow> (if l \<noteq> [] \<and> l \<noteq> lane then rt_def r else bk),
               Some restored)))"

definition ProxyForLane :: "scanner \<Rightarrow> (backend \<Rightarrow> string option \<Rightarrow> 'r) \<Rightarrow> string \<Rightarrow> string option \<Rightarrow> Router \<Rightarrow> 'r" where
  "ProxyForLane scan proxy lane reqBody r = (case resolve_body scan reqBody lane r of (b, body') \<Rightarrow> proxy b body')"

text \<open>\<^verbatim>\<open>Router.Generate\<close> and \<^verbatim>\<open>Router.Reachable\<close>: which backend is asked.\<close>

definition Router_Generate :: "string \<Rightarrow> Router \<Rightarrow> backend" where
  "Router_Generate model r = (case map_of (rt_routes r) model of Some (b, _) \<Rightarrow> b | None \<Rightarrow> rt_def r)"

definition Router_Reachable :: "Router \<Rightarrow> backend" where
  "Router_Reachable r = rt_def r"

definition Router_Unloader :: "Router \<Rightarrow> unloader option" where
  "Router_Unloader r = None"

record RouteSummary =
  rs_Models :: "string list"
  rs_Lane :: string

definition RoutingSummary :: "Router \<Rightarrow> RouteSummary list" where
  "RoutingSummary r =
     sort_key (\<lambda>s. (rs_Lane s, hd (rs_Models s)))
       (map (\<lambda>e. \<lparr>rs_Models = sort (map fst (filter (\<lambda>p. snd p = e) (rt_routes r))), rs_Lane = snd e\<rparr>)
          (remdups (map snd (rt_routes r))))"

section \<open>Lemmas\<close>

text \<open>The body a backend reads is byte for byte the one the client sent.\<close>

lemma resolve_restores: "snd (resolve_body scan reqBody lane r) = reqBody"
proof (cases reqBody)
  case (Some b)
  obtain m n where p: "peekModel scan b = (m, n)" by fastforce
  then obtain k where "n = take k (take peekLimit b)"
    by (auto simp: peekModel_def Let_def split: prod.splits)
  then have "n @ drop (length n) b = b" by (simp add: min_def)
  then show ?thesis using Some p by (simp add: resolve_body_def)
qed (simp add: resolve_body_def)

lemma AddRoute_lookup:
  "map_of (rt_routes (AddRoute m l b r)) = (map_of (rt_routes r))(m \<mapsto> (b, l))" "rt_def (AddRoute m l b r) = rt_def r"
  by (simp_all add: AddRoute_def update_conv')

end
