(* ===== verification/Broker_Wiring.thy ===== *)
theory Broker_Wiring
  imports Backend_Router
begin

text \<open>
  \<^verbatim>\<open>cmd/broker/main.go\<close>: \<^verbatim>\<open>buildBroker\<close> and \<^verbatim>\<open>buildRoutes\<close>, which wire the configuration, the backends, the
  yield controller and the router together. \<open>None\<close> is a panic, \<open>Inl\<close> the error that ends the process.
\<close>

section \<open>Definitions\<close>

fun buildRoutes_from :: "nat \<Rightarrow> RouteBackend list \<Rightarrow> string + (backend list \<times> unloader option list \<times> string list)" where
  "buildRoutes_from i [] = Inr ([], [], [])"
| "buildRoutes_from i (rb # rbs) =
     bindE (NewInstance (Suc i) (rb_Backend rb) (rb_URL rb) (rb_APIKey rb) (rb_UnitName rb)) (\<lambda>b.
     bindE (buildRoutes_from (Suc i) rbs) (\<lambda>(bs, us, ls).
     Inr (b # bs, bk_unloader b # us, u_String (rb_URL rb) # ls)))"

definition buildRoutes :: "Config \<Rightarrow> string + (backend list \<times> unloader option list \<times> string list)" where
  "buildRoutes cfg = buildRoutes_from 0 (cf_Routes cfg)"

text \<open>The decoration loop over the routes; route \<open>i\<close> has the configured index \<open>i + 1\<close>.\<close>

definition decorate :: "nat \<Rightarrow> duration \<Rightarrow> backend \<Rightarrow> backend" where
  "decorate origIdx idle b = (if idle \<noteq> 0 then WithActivityTracking origIdx b else b)"

fun decorate_routes :: "nat \<Rightarrow> RouteBackend list \<Rightarrow> backend list \<Rightarrow> backend list" where
  "decorate_routes i (rb # rbs) (b # bs) = decorate (Suc i) (rb_IdleTimeout rb) b # decorate_routes (Suc i) rbs bs"
| "decorate_routes i _ _ = []"

fun add_routes :: "(RouteBackend \<times> backend) list \<Rightarrow> Router \<Rightarrow> Router" where
  "add_routes [] r = r"
| "add_routes ((rb, b) # ps) r = add_routes ps (fold (\<lambda>model. AddRoute model (rb_Lane rb) b) (rb_Models rb) r)"

record broker =
  br_router :: "Router option"
  br_single :: backend          \<comment> \<open>the backend used directly when there is no router\<close>
  br_ctrl :: Controller
  br_idleStatus :: bool

definition buildBroker :: "Config \<Rightarrow> backend \<Rightarrow> instant \<Rightarrow> heap \<Rightarrow> (string + broker) option" where
  "buildBroker cfg be now cx =
     (let idleConfigured = (UpstreamIdleTimeout cfg \<noteq> 0 \<or> list_ex (\<lambda>rb. rb_IdleTimeout rb \<noteq> 0) (cf_Routes cfg)) in
      if cf_Routes cfg = [] then
        (let unl = bk_unloader be; ctrl = fst (NewWithConfirm unl (DetectInterval cfg) (YieldConfirmPolls cfg) now cx) in
         if unl \<noteq> None then
           (case ConfigureIdle [UpstreamIdleTimeout cfg] ctrl of
              None \<Rightarrow> None
            | Some ctrl' \<Rightarrow> Some (Inr \<lparr>br_router = None, br_single = decorate 0 (UpstreamIdleTimeout cfg) be,
                br_ctrl = ctrl', br_idleStatus = idleConfigured\<rparr>))
         else Some (Inr \<lparr>br_router = None, br_single = be, br_ctrl = ctrl, br_idleStatus = idleConfigured\<rparr>))
      else
        (case buildRoutes cfg of
           Inl e \<Rightarrow> Some (Inl e)
         | Inr (bs, us, ls) \<Rightarrow>
             (let ctrl = fst (NewWithConfirmMulti (bk_unloader be # us) (''default'' # ls) (DetectInterval cfg)
                    (YieldConfirmPolls cfg) now cx)
              in case ConfigureIdle (UpstreamIdleTimeout cfg # map rb_IdleTimeout (cf_Routes cfg)) ctrl of
                   None \<Rightarrow> None
                 | Some ctrl' \<Rightarrow>
                     (let be' = decorate 0 (UpstreamIdleTimeout cfg) be;
                          bs' = decorate_routes 0 (cf_Routes cfg) bs;
                          r = add_routes (zip (cf_Routes cfg) bs') (NewRouter be')
                      in Some (Inr \<lparr>br_router = Some r, br_single = be', br_ctrl = ctrl', br_idleStatus = idleConfigured\<rparr>)))))"

text \<open>Who serves a synchronous request for a model in a lane, and who runs a Job for it.\<close>

definition serves :: "broker \<Rightarrow> string \<Rightarrow> string \<Rightarrow> backend" where
  "serves br lane model =
     (case br_router br of
        None \<Rightarrow> br_single br
      | Some r \<Rightarrow> fst (resolve_body (\<lambda>_. (DObject [Field ''model'' (VString model)], 0)) (Some []) lane r))"

definition runs_job :: "broker \<Rightarrow> string \<Rightarrow> backend" where
  "runs_job br model = (case br_router br of None \<Rightarrow> br_single br | Some r \<Rightarrow> Router_Generate model r)"

section \<open>Lemmas\<close>

lemma buildRoutes_ok:
  assumes "list_all route_ok rbs"
  shows "\<exists>bs us ls. buildRoutes_from i rbs = Inr (bs, us, ls) \<and> length bs = length rbs \<and> length ls = length rbs
     \<and> us = map bk_unloader bs
     \<and> (\<forall>k<length rbs. NewInstance (Suc (i + k)) (rb_Backend (rbs ! k)) (rb_URL (rbs ! k)) (rb_APIKey (rbs ! k)) (rb_UnitName (rbs ! k)) = Inr (bs ! k))"
  using assms
proof (induction rbs arbitrary: i)
  case (Cons rb rbs)
  have "list_all route_ok rbs" using Cons.prems by simp
  from Cons.IH [OF this, of "Suc i"] obtain bs us ls where IH: "buildRoutes_from (Suc i) rbs = Inr (bs, us, ls)"
    "length bs = length rbs" "length ls = length rbs" "us = map bk_unloader bs"
    "\<And>k. k < length rbs \<Longrightarrow> NewInstance (Suc (Suc i + k)) (rb_Backend (rbs ! k)) (rb_URL (rbs ! k)) (rb_APIKey (rbs ! k)) (rb_UnitName (rbs ! k)) = Inr (bs ! k)"
    by blast
  obtain b where b: "NewInstance (Suc i) (rb_Backend rb) (rb_URL rb) (rb_APIKey rb) (rb_UnitName rb) = Inr b"
    using Cons.prems by (auto simp: route_ok_def NewInstance_def)
  show ?case using IH b by (auto simp: nth_Cons split: nat.splits)
qed simp

lemma decorate_routes_nth:
  "length rbs = length bs \<Longrightarrow> length (decorate_routes i rbs bs) = length bs
     \<and> (\<forall>k<length bs. decorate_routes i rbs bs ! k = decorate (Suc (i + k)) (rb_IdleTimeout (rbs ! k)) (bs ! k))"
proof (induction i rbs bs rule: decorate_routes.induct)
  case (1 i rb rbs b bs)
  then show ?case by (auto simp: nth_Cons split: nat.splits)
qed auto

lemma fold_AddRoute:
  "map_of (rt_routes (fold (\<lambda>m. AddRoute m l b) ms r)) x = (if x \<in> set ms then Some (b, l) else map_of (rt_routes r) x)
     \<and> rt_def (fold (\<lambda>m. AddRoute m l b) ms r) = rt_def r"
  by (induction ms arbitrary: r) (auto simp: AddRoute_lookup)

lemma add_routes_lookup:
  assumes "distinct (concat (map (\<lambda>p. rb_Models (fst p)) ps))"
  shows "rt_def (add_routes ps r) = rt_def r
     \<and> (\<forall>k<length ps. \<forall>x\<in>set (rb_Models (fst (ps ! k))). map_of (rt_routes (add_routes ps r)) x = Some (snd (ps ! k), rb_Lane (fst (ps ! k))))
     \<and> (\<forall>x. x \<notin> set (concat (map (\<lambda>p. rb_Models (fst p)) ps)) \<longrightarrow> map_of (rt_routes (add_routes ps r)) x = map_of (rt_routes r) x)"
  using assms
proof (induction ps arbitrary: r)
  case (Cons p ps)
  obtain rb b where p: "p = (rb, b)" by fastforce
  let ?r = "fold (\<lambda>model. AddRoute model (rb_Lane rb) b) (rb_Models rb) r"
  have d: "distinct (concat (map (\<lambda>p. rb_Models (fst p)) ps))" "set (rb_Models rb) \<inter> set (concat (map (\<lambda>p. rb_Models (fst p)) ps)) = {}"
    using Cons.prems p by auto
  note IH = Cons.IH [OF d(1), of ?r] and F = fold_AddRoute [of "rb_Lane rb" b "rb_Models rb" r]
  have "map_of (rt_routes (add_routes ps ?r)) x = Some (b, rb_Lane rb)" if "x \<in> set (rb_Models rb)" for x
  proof -
    have "x \<notin> set (concat (map (\<lambda>p. rb_Models (fst p)) ps))" using d(2) that by blast
    then show ?thesis using IH F [of x] that by simp
  qed
  then show ?case using IH F p by (auto simp: nth_Cons split: nat.splits)
qed simp

lemma NewInstance_ok:
  assumes "NewInstance n f u k unit = Inr b"
  shows "bk_url b = Some u" "bk_family b = f" "bk_track b = None" "unit \<noteq> [] \<Longrightarrow> bk_unloader b = Some n"
  using assms by (auto simp: NewInstance_def newOllamaBackend_def newOpenAIBackend_def split: if_splits)

lemma decorate_frame [simp]:
  "bk_url (decorate i d b) = bk_url b" "bk_family (decorate i d b) = bk_family b" "bk_unloader (decorate i d b) = bk_unloader b"
  by (simp_all add: decorate_def WithActivityTracking_def)

text \<open>
  Instance \<open>k\<close> is tracked exactly when it may be idle-unloaded, under its own index, and the controller
  keeps under that index its unloader and its timeout.
\<close>

definition inst_ok :: "nat \<Rightarrow> duration \<Rightarrow> backend \<Rightarrow> Controller \<Rightarrow> bool" where
  "inst_ok k idle b ctrl \<longleftrightarrow>
     (if idle = 0 then bk_track b = None
      else bk_track b = Some k \<and> (\<exists>p u. TrackActivity (int k) ctrl = Some p \<and> p < length (unloaders ctrl)
             \<and> bk_unloader b = Some u \<and> unloaders ctrl ! p = u \<and> idleTimeouts ctrl ! p = idle))"

lemma ConfigureIdle_frame:
  assumes "ConfigureIdle ds c = Some c'"
  shows "unloaders c' = unloaders c" "TrackActivity i c' = TrackActivity i c"
  using assms by (auto simp: ConfigureIdle_def TrackActivity_def split: if_splits)

lemma inst_ok_decorate:
  assumes "NewWithConfirmMulti us lbls itv pl now cx = (c, cx')" and "ConfigureIdle ds c = Some c'"
    and "k < length us" and "us ! k = bk_unloader b" and "bk_track b = None" and "ds ! k \<noteq> 0 \<Longrightarrow> bk_unloader b \<noteq> None"
  shows "inst_ok k (ds ! k) (decorate k (ds ! k) b) c'"
proof (cases "ds ! k = 0")
  case True
  then show ?thesis using assms(5) by (simp add: inst_ok_def decorate_def)
next
  case False
  then obtain u where u: "bk_unloader b = Some u" using assms(6) by blast
  note I = instance_indices [OF assms(1), of ds]
  have "us ! k = Some u" using assms(4) u by simp
  moreover have "case us ! k of None \<Rightarrow> TrackActivity (int k) c = None
      | Some u \<Rightarrow> \<exists>p<length (unloaders c). TrackActivity (int k) c = Some p
           \<and> unloaders c ! p = u \<and> labels c ! p = label_of lbls k" using I assms(3) by blast
  ultimately obtain p where p: "p < length (unloaders c)" "TrackActivity (int k) c = Some p" "unloaders c ! p = u" by auto
  then have "idleTimeouts c' ! p = ds ! k" using I assms(2,3) by blast
  then show ?thesis using False u p ConfigureIdle_frame [OF assms(2)]
    by (simp add: inst_ok_def decorate_def WithActivityTracking_def)
qed

lemma backend_New_ok:
  assumes "core_ok c"
  shows "\<exists>be. backend_New c = Inr be \<and> bk_url be = default_url c \<and> bk_track be = None
     \<and> (UpstreamIdleTimeout c \<noteq> 0 \<longrightarrow> bk_unloader be \<noteq> None)"
  using assms
  by (auto simp: core_ok_def upstream_ok_def backend_New_def default_url_def newOllamaBackend_def newOpenAIBackend_def)

lemma serves_lookup:
  assumes "br_router br = Some r" and "model \<noteq> []"
  shows "serves br lane model = (case map_of (rt_routes r) model of
     None \<Rightarrow> rt_def r | Some (b, l) \<Rightarrow> (if l \<in> {[], lane} then b else rt_def r))"
  using assms by (auto simp: serves_def resolve_body_def peekModel_def Let_def split: option.splits)

section \<open>The wiring\<close>

lemma wired_single:
  assumes "core_ok c" and "cf_Routes c = []" and "backend_New c = Inr be" and "bk_track be = None"
    and "UpstreamIdleTimeout c \<noteq> 0 \<longrightarrow> bk_unloader be \<noteq> None"
  shows "\<exists>br. buildBroker c be now cx = Some (Inr br) \<and> br_router br = None
     \<and> br_single br = decorate 0 (UpstreamIdleTimeout c) be \<and> inst_ok 0 (UpstreamIdleTimeout c) (br_single br) (br_ctrl br)"
proof (cases "bk_unloader be")
  case None
  then have "UpstreamIdleTimeout c = 0" using assms(5) by auto
  then show ?thesis using None assms(2,4) by (simp add: buildBroker_def decorate_def inst_ok_def)
next
  case (Some u)
  obtain ct cx' where ct: "NewWithConfirmMulti [Some u] [] (DetectInterval c) (YieldConfirmPolls c) now cx = (ct, cx')" by fastforce
  let ?ds = "[UpstreamIdleTimeout c]"
  have "ConfigureIdle ?ds ct \<noteq> None" using instance_indices [OF ct, of ?ds] by auto
  then obtain ct' where ct': "ConfigureIdle ?ds ct = Some ct'" by blast
  have "inst_ok 0 (?ds ! 0) (decorate 0 (?ds ! 0) be) ct'"
    by (rule inst_ok_decorate [OF ct ct']) (use Some assms(4) in auto)
  then show ?thesis using Some assms(2) ct ct' by (simp add: buildBroker_def NewWithConfirm_def)
qed

lemma wired_routes:
  assumes "core_ok c" and "cf_Routes c \<noteq> []" and "list_all route_ok (cf_Routes c)"
    and "distinct (concat (map rb_Models (cf_Routes c)))" and "bk_track be = None"
    and "UpstreamIdleTimeout c \<noteq> 0 \<longrightarrow> bk_unloader be \<noteq> None"
  shows "\<exists>br r. buildBroker c be now cx = Some (Inr br) \<and> br_router br = Some r
     \<and> br_single br = decorate 0 (UpstreamIdleTimeout c) be \<and> rt_def r = br_single br
     \<and> inst_ok 0 (UpstreamIdleTimeout c) (br_single br) (br_ctrl br)
     \<and> (\<forall>k<length (cf_Routes c). \<exists>b. bk_url b = Some (rb_URL (cf_Routes c ! k)) \<and> bk_family b = rb_Backend (cf_Routes c ! k)
          \<and> inst_ok (Suc k) (rb_IdleTimeout (cf_Routes c ! k)) b (br_ctrl br)
          \<and> (\<forall>m\<in>set (rb_Models (cf_Routes c ! k)). map_of (rt_routes r) m = Some (b, rb_Lane (cf_Routes c ! k))))
     \<and> (\<forall>m. m \<notin> set (concat (map rb_Models (cf_Routes c))) \<longrightarrow> map_of (rt_routes r) m = None)"
proof -
  let ?R = "cf_Routes c" and ?n = "length (cf_Routes c)"
  obtain bs us ls where B: "buildRoutes_from 0 ?R = Inr (bs, us, ls)" "length bs = ?n" "length ls = ?n" "us = map bk_unloader bs"
    "\<And>k. k < ?n \<Longrightarrow> NewInstance (Suc k) (rb_Backend (?R ! k)) (rb_URL (?R ! k)) (rb_APIKey (?R ! k)) (rb_UnitName (?R ! k)) = Inr (bs ! k)"
    using buildRoutes_ok [OF assms(3), of 0] by auto
  let ?us = "bk_unloader be # us" and ?ds = "UpstreamIdleTimeout c # map rb_IdleTimeout ?R"
  obtain ct cx' where ct: "NewWithConfirmMulti ?us (''default'' # ls) (DetectInterval c) (YieldConfirmPolls c) now cx = (ct, cx')"
    by fastforce
  have rok: "route_ok (?R ! k)" if "k < ?n" for k using assms(3) that by (simp add: list_all_length)
  have idle: "bk_unloader (bs ! k) \<noteq> None" if "k < ?n" "rb_IdleTimeout (?R ! k) \<noteq> 0" for k
    using NewInstance_ok(4) [OF B(5) [OF that(1)]] rok [OF that(1)] that(2) by (simp add: route_ok_def)
  have idle0: "rb_IdleTimeout (?R ! k) = 0" if "k < ?n" "bk_unloader (bs ! k) = None" for k using idle that by blast
  have "\<forall>i<length ?us. ?us ! i = None \<longrightarrow> ?ds ! i = 0"
    using assms(6) idle0 B(2,4) by (auto simp: nth_Cons split: nat.splits)
  moreover have "length ?ds = length ?us" using B(2,4) by simp
  ultimately have "ConfigureIdle ?ds ct \<noteq> None" using instance_indices [OF ct, of ?ds] by blast
  then obtain ct' where ct': "ConfigureIdle ?ds ct = Some ct'" by blast
  have inst: "inst_ok i (?ds ! i) (decorate i (?ds ! i) b) ct'"
    if "i < length ?us" "?us ! i = bk_unloader b" "bk_track b = None" "?ds ! i \<noteq> 0 \<Longrightarrow> bk_unloader b \<noteq> None" for i b
    by (rule inst_ok_decorate [OF ct ct' that])
  define bs' where "bs' = decorate_routes 0 ?R bs"
  have D: "length bs' = ?n" "\<And>k. k < ?n \<Longrightarrow> bs' ! k = decorate (Suc k) (rb_IdleTimeout (?R ! k)) (bs ! k)"
    using decorate_routes_nth [of ?R bs 0] B(2) by (auto simp: bs'_def)
  let ?be = "decorate 0 (UpstreamIdleTimeout c) be"
  let ?r = "add_routes (zip ?R bs') (NewRouter ?be)"
  have zip: "map (\<lambda>p. rb_Models (fst p)) (zip ?R bs') = map rb_Models ?R"
    using D(1) by (intro nth_equalityI) simp_all
  note A = add_routes_lookup [of "zip ?R bs'" "NewRouter ?be", unfolded zip, OF assms(4)]
  define br where "br = \<lparr>br_router = Some ?r, br_single = ?be, br_ctrl = ct',
      br_idleStatus = (UpstreamIdleTimeout c \<noteq> 0 \<or> list_ex (\<lambda>rb. rb_IdleTimeout rb \<noteq> 0) ?R)\<rparr>"
  have build: "buildBroker c be now cx = Some (Inr br)"
    using assms(2) B(1) ct ct' by (simp add: buildBroker_def buildRoutes_def bs'_def br_def Let_def)
  have each: "\<exists>b. bk_url b = Some (rb_URL (?R ! k)) \<and> bk_family b = rb_Backend (?R ! k)
      \<and> inst_ok (Suc k) (rb_IdleTimeout (?R ! k)) b (br_ctrl br)
      \<and> (\<forall>m\<in>set (rb_Models (?R ! k)). map_of (rt_routes ?r) m = Some (b, rb_Lane (?R ! k)))" if k: "k < ?n" for k
    by (rule exI [of _ "bs' ! k"])
      (use NewInstance_ok [OF B(5) [OF k]] inst [of "Suc k" "bs ! k"] k B(2,4) idle D A in \<open>auto simp: br_def\<close>)
  have "inst_ok 0 (UpstreamIdleTimeout c) (br_single br) (br_ctrl br)" using inst [of 0 be] assms(5,6) by (simp add: br_def)
  moreover have "map_of (rt_routes ?r) m = None" if "m \<notin> set (concat (map rb_Models ?R))" for m
    using A that by (simp add: NewRouter_def)
  moreover have "rt_def ?r = br_single br" "br_router br = Some ?r" "br_single br = ?be" using A by (simp_all add: NewRouter_def br_def)
  ultimately show ?thesis using build each by (intro exI [of _ br] exI [of _ ?r]) blast
qed

lemma broker_builds:
  assumes "Load pu pd env = Inr c"
  shows "\<exists>be br. backend_New c = Inr be \<and> buildBroker c be now cx = Some (Inr br) \<and>
     (br_router br = None \<longleftrightarrow> cf_Routes c = [])"
proof -
  have ok: "core_ok c" "list_all route_ok (cf_Routes c)" "distinct (concat (map rb_Models (cf_Routes c)))"
    using loaded_config [OF assms] by auto
  obtain be where be: "backend_New c = Inr be" "bk_track be = None"
    "UpstreamIdleTimeout c \<noteq> 0 \<longrightarrow> bk_unloader be \<noteq> None" using backend_New_ok [OF ok(1)] by blast
  show ?thesis
  proof (cases "cf_Routes c = []")
    case True
    then show ?thesis using wired_single [OF ok(1) True be, of now cx] be(1) by auto
  next
    case False
    from wired_routes [OF ok(1) False ok(2,3) be(2,3), of now cx] obtain br r where
      "buildBroker c be now cx = Some (Inr br)" "br_router br = Some r" by blast
    then show ?thesis using be(1) False by (intro exI [of _ be] exI [of _ br]) simp
  qed
qed

text \<open>
  C30. The broker is wired as it is configured. For every configuration that loads, building the broker
  neither fails nor panics, and: a request for a configured model in a lane goes to the backend built
  from that model's route if the route is open to the lane, and to the default backend otherwise; a Job
  for the model goes to the route's backend in any case; every other model goes to the default backend,
  which has the configured default URL. Each instance is tracked for idleness exactly if it has an idle
  timeout, under its own index, where the controller keeps its own unloader and its own timeout, so
  traffic on one instance can never keep another one loaded or have it unloaded.
\<close>

theorem broker_wired_as_configured:
  assumes "Load pu pd env = Inr c"
  shows "\<exists>be br. backend_New c = Inr be \<and> buildBroker c be now cx = Some (Inr br)
     \<and> bk_url (br_single br) = default_url c \<and> inst_ok 0 (UpstreamIdleTimeout c) (br_single br) (br_ctrl br)
     \<and> (\<forall>k<length (cf_Routes c). \<forall>m\<in>set (rb_Models (cf_Routes c ! k)).
          bk_url (runs_job br m) = Some (rb_URL (cf_Routes c ! k)) \<and> bk_family (runs_job br m) = rb_Backend (cf_Routes c ! k)
          \<and> inst_ok (Suc k) (rb_IdleTimeout (cf_Routes c ! k)) (runs_job br m) (br_ctrl br)
          \<and> serves br lane m = (if rb_Lane (cf_Routes c ! k) \<in> {[], lane} then runs_job br m else br_single br))
     \<and> (\<forall>m. m \<notin> set (concat (map rb_Models (cf_Routes c))) \<longrightarrow> runs_job br m = br_single br \<and> serves br lane m = br_single br)"
proof -
  have ok: "core_ok c" "list_all route_ok (cf_Routes c)" "distinct (concat (map rb_Models (cf_Routes c)))"
    using loaded_config [OF assms] by auto
  obtain be where be: "backend_New c = Inr be" "bk_url be = default_url c" "bk_track be = None"
    "UpstreamIdleTimeout c \<noteq> 0 \<longrightarrow> bk_unloader be \<noteq> None" using backend_New_ok [OF ok(1)] by blast
  show ?thesis
  proof (cases "cf_Routes c = []")
    case True
    from wired_single [OF ok(1) True be(1,3,4), of now cx] obtain br where br: "buildBroker c be now cx = Some (Inr br)"
      "br_router br = None" "br_single br = decorate 0 (UpstreamIdleTimeout c) be"
      "inst_ok 0 (UpstreamIdleTimeout c) (br_single br) (br_ctrl br)" by blast
    show ?thesis
      by (rule exI [of _ be], rule exI [of _ br]) (use br be True in \<open>simp add: runs_job_def serves_def\<close>)
  next
    case False
    from wired_routes [OF ok(1) False ok(2,3) be(3,4), of now cx] obtain br r where br: "buildBroker c be now cx = Some (Inr br)"
      "br_router br = Some r" "br_single br = decorate 0 (UpstreamIdleTimeout c) be" "rt_def r = br_single br"
      "inst_ok 0 (UpstreamIdleTimeout c) (br_single br) (br_ctrl br)"
      and R: "\<And>k. k < length (cf_Routes c) \<Longrightarrow> \<exists>b. bk_url b = Some (rb_URL (cf_Routes c ! k)) \<and> bk_family b = rb_Backend (cf_Routes c ! k)
          \<and> inst_ok (Suc k) (rb_IdleTimeout (cf_Routes c ! k)) b (br_ctrl br)
          \<and> (\<forall>m\<in>set (rb_Models (cf_Routes c ! k)). map_of (rt_routes r) m = Some (b, rb_Lane (cf_Routes c ! k)))"
      and N: "\<And>m. m \<notin> set (concat (map rb_Models (cf_Routes c))) \<Longrightarrow> map_of (rt_routes r) m = None" by metis
    have "bk_url (runs_job br m) = Some (rb_URL (cf_Routes c ! k)) \<and> bk_family (runs_job br m) = rb_Backend (cf_Routes c ! k)
          \<and> inst_ok (Suc k) (rb_IdleTimeout (cf_Routes c ! k)) (runs_job br m) (br_ctrl br)
          \<and> serves br lane m = (if rb_Lane (cf_Routes c ! k) \<in> {[], lane} then runs_job br m else br_single br)"
      if k: "k < length (cf_Routes c)" and m: "m \<in> set (rb_Models (cf_Routes c ! k))" for k m
    proof -
      obtain b where b: "bk_url b = Some (rb_URL (cf_Routes c ! k))" "bk_family b = rb_Backend (cf_Routes c ! k)"
        "inst_ok (Suc k) (rb_IdleTimeout (cf_Routes c ! k)) b (br_ctrl br)"
        "map_of (rt_routes r) m = Some (b, rb_Lane (cf_Routes c ! k))" using R [OF k] m by blast
      have "m \<noteq> []" using ok(2) k m by (auto simp: list_all_length route_ok_def)
      then show ?thesis using b br(2,4) serves_lookup [OF br(2)] by (simp add: runs_job_def Router_Generate_def)
    qed
    moreover have "runs_job br m = br_single br \<and> serves br lane m = br_single br"
      if "m \<notin> set (concat (map rb_Models (cf_Routes c)))" for m
      using N [OF that] br(2,4) serves_lookup [OF br(2), of m lane]
      by (cases "m = []") (auto simp: runs_job_def Router_Generate_def serves_def resolve_body_def peekModel_def Let_def)
    ultimately show ?thesis using be br by (intro exI [of _ be] exI [of _ br]) auto
  qed
qed

theorem broker_wired_as_configured_witness:
  "\<exists>c be br. Load demo_url (\<lambda>_. None) demo_env = Inr c \<and> backend_New c = Inr be
     \<and> buildBroker c be 0 empty_heap = Some (Inr br)
     \<and> map_option u_String (bk_url (runs_job br ''m2'')) = Some ''http://vllm''
     \<and> serves br ''interactive'' ''m2'' = br_single br"
proof -
  obtain c where c: "Load demo_url (\<lambda>_. None) demo_env = Inr c" "map rb_Models (cf_Routes c) = [[''m1'', ''m2'']]"
    "map rb_Lane (cf_Routes c) = [''batch'']" "map (u_String \<circ> rb_URL) (cf_Routes c) = [''http://vllm'']"
    by (rule demo_load)
  then obtain rb where rb: "cf_Routes c = [rb]" "rb_Models rb = [''m1'', ''m2'']" "rb_Lane rb = ''batch''"
    "u_String (rb_URL rb) = ''http://vllm''" by auto
  obtain be br where W: "backend_New c = Inr be" "buildBroker c be 0 empty_heap = Some (Inr br)"
    "\<forall>k<length (cf_Routes c). \<forall>m\<in>set (rb_Models (cf_Routes c ! k)).
          bk_url (runs_job br m) = Some (rb_URL (cf_Routes c ! k)) \<and> bk_family (runs_job br m) = rb_Backend (cf_Routes c ! k)
          \<and> inst_ok (Suc k) (rb_IdleTimeout (cf_Routes c ! k)) (runs_job br m) (br_ctrl br)
          \<and> serves br ''interactive'' m = (if rb_Lane (cf_Routes c ! k) \<in> {[], ''interactive''} then runs_job br m else br_single br)"
    using broker_wired_as_configured [OF c(1), of 0 empty_heap "''interactive''"] by blast
  from W(3) rb have "bk_url (runs_job br ''m2'') = Some (rb_URL rb)" "serves br ''interactive'' ''m2'' = br_single br" by auto
  with c(1) W(1,2) rb(4) show ?thesis by (intro exI [of _ c] exI [of _ be] exI [of _ br]) simp
qed

end
