(* ===== verification/Job_Store.thy ===== *)
theory Job_Store
  imports Broker_Prelude "HOL-Library.Product_Lexorder"
begin

text \<open>
  \<^verbatim>\<open>internal/job/job.go\<close>, \<^verbatim>\<open>store.go\<close> and \<^verbatim>\<open>sqlite.go\<close>: the durable Job table. The database is a list
  of rows in insertion order; a statement is a filter, an update or a deletion on it. The driver may
  fail on any call of an operation: \<open>ok n\<close> says whether the operation's \<open>n\<close>-th driver call succeeds,
  and a failed call leaves the table as it was, since every operation is one statement or one
  transaction that is rolled back.
\<close>

section \<open>Jobs\<close>

datatype JobState = StateQueued | StateRunning | StateSucceeded | StateFailed | StateCanceled

definition Terminal :: "JobState \<Rightarrow> bool" where
  "Terminal s = (case s of StateSucceeded \<Rightarrow> True | StateFailed \<Rightarrow> True | StateCanceled \<Rightarrow> True | _ \<Rightarrow> False)"

definition State_string :: "JobState \<Rightarrow> string" where
  "State_string s = (case s of StateQueued \<Rightarrow> ''QUEUED'' | StateRunning \<Rightarrow> ''RUNNING''
     | StateSucceeded \<Rightarrow> ''SUCCEEDED'' | StateFailed \<Rightarrow> ''FAILED'' | StateCanceled \<Rightarrow> ''CANCELED'')"

definition DefaultMaxAttempts :: int where "DefaultMaxAttempts = 3"

datatype err = ErrNotFound | ErrNotReady | ErrAlreadyTerminal | ErrDb | ErrMarshal

text \<open>The zero \<^verbatim>\<open>time.Time\<close>, which marks an unset creation time.\<close>

definition zeroTime :: instant where "zeroTime = -62135596800 * second"

record Job =
  ID :: string
  IdempotencyKey :: string
  Source :: string
  Owner :: string
  JState :: JobState
  Attempts :: int
  Model :: string
  ParamsJSON :: string
  Prompt :: string
  Result :: string
  JError :: string
  PositionHint :: int
  CreatedAt :: instant
  StartedAt :: "instant option"
  FinishedAt :: "instant option"
  FetchedAt :: "instant option"

type_synonym table = "Job list"

type_synonym driver = "nat \<Rightarrow> bool"

type_synonym 'a db = "(err + 'a) \<times> table"

record Filter =
  f_Source :: string
  f_Owner :: string
  f_State :: string
  f_Limit :: int

record Counts =
  n_Queued :: nat
  n_Running :: nat
  n_Succeeded :: nat
  n_Failed :: nat
  n_Canceled :: nat

section \<open>Statements\<close>

definition in_state :: "JobState \<Rightarrow> Job \<Rightarrow> bool" where
  "in_state s j \<longleftrightarrow> JState j = s"

definition has_id :: "string \<Rightarrow> Job \<Rightarrow> bool" where
  "has_id i j \<longleftrightarrow> ID j = i"

definition update_where :: "(Job \<Rightarrow> bool) \<Rightarrow> (Job \<Rightarrow> Job) \<Rightarrow> table \<Rightarrow> table" where
  "update_where P f t = map (\<lambda>j. if P j then f j else j) t"

definition affected :: "(Job \<Rightarrow> bool) \<Rightarrow> table \<Rightarrow> nat" where
  "affected P t = length (filter P t)"

text \<open>\<^verbatim>\<open>scanOne\<close> on a query: the first row, or \<^verbatim>\<open>ErrNotFound\<close>.\<close>

definition scanOne :: "Job list \<Rightarrow> err + Job" where
  "scanOne rows = (case rows of [] \<Rightarrow> Inl ErrNotFound | j # _ \<Rightarrow> Inr j)"

text \<open>\<^verbatim>\<open>COALESCE(MAX(position_hint), 0) + 1\<close> and \<^verbatim>\<open>COALESCE(MIN(position_hint), 0) - 1 ... WHERE state = QUEUED\<close>.\<close>

definition next_hint :: "table \<Rightarrow> int" where
  "next_hint t = (case map PositionHint t of [] \<Rightarrow> 0 | x # xs \<Rightarrow> fold max xs x) + 1"

definition front_hint :: "table \<Rightarrow> int" where
  "front_hint t = (case map PositionHint (filter (in_state StateQueued) t) of [] \<Rightarrow> 0 | x # xs \<Rightarrow> fold min xs x) - 1"

text \<open>\<^verbatim>\<open>ORDER BY position_hint ASC, created_at ASC\<close> over the queued rows.\<close>

definition queued_rows :: "table \<Rightarrow> Job list" where
  "queued_rows t = sort_key (\<lambda>j. (PositionHint j, CreatedAt j)) (filter (in_state StateQueued) t)"

definition mustAffect :: "nat \<Rightarrow> err + unit" where
  "mustAffect n = (if n = 0 then Inl ErrNotFound else Inr ())"

section \<open>Operations\<close>

text \<open>
  \<^verbatim>\<open>Submit\<close>: begin, look the idempotency key up, compute the hint, insert (refused when the primary
  key is taken), commit.
\<close>

definition Submit :: "driver \<Rightarrow> instant \<Rightarrow> Job \<Rightarrow> table \<Rightarrow> (Job \<times> bool) db" where
  "Submit ok now j t =
     (if \<not> ok 0 \<or> \<not> ok 1 then (Inl ErrDb, t)
      else case scanOne (filter (\<lambda>r. IdempotencyKey r = IdempotencyKey j) t) of
        Inr existing \<Rightarrow> ((if ok 2 then Inr (existing, False) else Inl ErrDb), t)
      | Inl _ \<Rightarrow>
          (if \<not> ok 2 then (Inl ErrDb, t)
           else let j' = j\<lparr>JState := StateQueued, Attempts := 0, PositionHint := next_hint t,
                         CreatedAt := (if CreatedAt j = zeroTime then now else CreatedAt j)\<rparr>;
                    row = j'\<lparr>Result := [], JError := [], StartedAt := None, FinishedAt := None, FetchedAt := None\<rparr>
                in if \<not> ok 3 \<or> list_ex (has_id (ID j)) t \<or> \<not> ok 4 then (Inl ErrDb, t)
                   else (Inr (j', True), t @ [row])))"

definition Get :: "driver \<Rightarrow> string \<Rightarrow> table \<Rightarrow> err + Job" where
  "Get ok i t = (if \<not> ok 0 then Inl ErrDb else scanOne (filter (has_id i) t))"

definition ListJobs :: "driver \<Rightarrow> Filter \<Rightarrow> table \<Rightarrow> err + Job list" where
  "ListJobs ok f t =
     (if \<not> ok 0 then Inl ErrDb
      else let limit = (if f_Limit f \<le> 0 \<or> f_Limit f > 1000 then 200 else f_Limit f)
           in Inr (take (nat limit) (sort_key (\<lambda>j. - CreatedAt j) (filter (\<lambda>j.
               (f_Source f \<noteq> [] \<longrightarrow> Source j = f_Source f) \<and> (f_Owner f \<noteq> [] \<longrightarrow> Owner j = f_Owner f)
               \<and> (f_State f \<noteq> [] \<longrightarrow> State_string (JState j) = f_State f)) t))))"

definition HasQueued :: "driver \<Rightarrow> table \<Rightarrow> err + bool" where
  "HasQueued ok t = (if \<not> ok 0 then Inl ErrDb else Inr (list_ex (in_state StateQueued) t))"

definition ClaimNext :: "driver \<Rightarrow> instant \<Rightarrow> table \<Rightarrow> Job db" where
  "ClaimNext ok now t =
     (if \<not> ok 0 \<or> \<not> ok 1 then (Inl ErrDb, t)
      else case scanOne (queued_rows t) of
        Inl e \<Rightarrow> (Inl e, t)
      | Inr j \<Rightarrow>
          (if \<not> ok 2 \<or> \<not> ok 3 then (Inl ErrDb, t)
           else (Inr (j\<lparr>JState := StateRunning, StartedAt := Some now, JError := []\<rparr>),
                 update_where (\<lambda>r. has_id (ID j) r \<and> in_state StateQueued r)
                   (\<lambda>r. r\<lparr>JState := StateRunning, StartedAt := Some now, JError := []\<rparr>) t)))"

definition Succeed :: "driver \<Rightarrow> instant \<Rightarrow> string \<Rightarrow> string \<Rightarrow> table \<Rightarrow> unit db" where
  "Succeed ok now i result t =
     (let P = (\<lambda>r. has_id i r \<and> in_state StateRunning r) in
      if \<not> ok 0 then (Inl ErrDb, t)
      else (mustAffect (affected P t),
            update_where P (\<lambda>r. r\<lparr>JState := StateSucceeded, Result := result, FinishedAt := Some now, JError := []\<rparr>) t))"

definition Preempt :: "driver \<Rightarrow> string \<Rightarrow> table \<Rightarrow> unit db" where
  "Preempt ok i t =
     (let P = (\<lambda>r. has_id i r \<and> in_state StateRunning r) in
      if \<not> ok 0 then (Inl ErrDb, t)
      else (mustAffect (affected P t),
            update_where P (\<lambda>r. r\<lparr>JState := StateQueued, StartedAt := None, PositionHint := front_hint t\<rparr>) t))"

definition fail_row :: "instant \<Rightarrow> int \<Rightarrow> string \<Rightarrow> string \<Rightarrow> table \<Rightarrow> table" where
  "fail_row now attempts msg i t = update_where (has_id i)
     (\<lambda>r. r\<lparr>JState := StateFailed, Attempts := attempts, JError := msg, FinishedAt := Some now\<rparr>) t"

definition FailOrRetry :: "driver \<Rightarrow> instant \<Rightarrow> string \<Rightarrow> string \<Rightarrow> int \<Rightarrow> table \<Rightarrow> bool db" where
  "FailOrRetry ok now i msg maxAttempts t =
     (if \<not> ok 0 \<or> \<not> ok 1 then (Inl ErrDb, t)
      else case scanOne (filter (has_id i) t) of
        Inl e \<Rightarrow> (Inl e, t)
      | Inr j \<Rightarrow>
          (if JState j \<noteq> StateRunning then (Inl ErrAlreadyTerminal, t)
           else let attempts = Attempts j + 1 in
             if \<not> ok 2 \<or> \<not> ok 3 then (Inl ErrDb, t)
             else if attempts \<ge> maxAttempts then (Inr True, fail_row now attempts msg i t)
             else (Inr False, update_where (has_id i) (\<lambda>r. r\<lparr>JState := StateQueued, Attempts := attempts,
                     JError := msg, StartedAt := None, PositionHint := front_hint t\<rparr>) t)))"

text \<open>The loop of \<^verbatim>\<open>RecoverRunning\<close> over the records it read.\<close>

fun recover_loop :: "instant \<Rightarrow> int \<Rightarrow> (string \<times> int) list \<Rightarrow> table \<Rightarrow> table" where
  "recover_loop now m [] t = t"
| "recover_loop now m ((i, a) # recs) t =
     (let attempts = a + 1 in
      recover_loop now m recs
        (if attempts \<ge> m then fail_row now attempts ''exceeded attempts after restart'' i t
         else update_where (has_id i) (\<lambda>r. r\<lparr>JState := StateQueued, Attempts := attempts,
                StartedAt := None, PositionHint := front_hint t\<rparr>) t))"

definition running_recs :: "table \<Rightarrow> (string \<times> int) list" where
  "running_recs t = map (\<lambda>j. (ID j, Attempts j)) (sort_key CreatedAt (filter (in_state StateRunning) t))"

definition RecoverRunning :: "driver \<Rightarrow> instant \<Rightarrow> int \<Rightarrow> table \<Rightarrow> nat db" where
  "RecoverRunning ok now maxAttempts t =
     (let recs = running_recs t in
      if \<exists>n < length recs + 3. \<not> ok n then (Inl ErrDb, t)
      else (Inr (length recs), recover_loop now maxAttempts recs t))"

definition Cancel :: "driver \<Rightarrow> instant \<Rightarrow> string \<Rightarrow> table \<Rightarrow> Job db" where
  "Cancel ok now i t =
     (if \<not> ok 0 \<or> \<not> ok 1 then (Inl ErrDb, t)
      else case scanOne (filter (has_id i) t) of
        Inl e \<Rightarrow> (Inl e, t)
      | Inr j \<Rightarrow>
          (if Terminal (JState j) then ((if ok 2 then Inr j else Inl ErrDb), t)
           else if \<not> ok 2 \<or> \<not> ok 3 then (Inl ErrDb, t)
           else (Inr (j\<lparr>JState := StateCanceled, FinishedAt := Some now\<rparr>),
                 update_where (has_id i) (\<lambda>r. r\<lparr>JState := StateCanceled, FinishedAt := Some now\<rparr>) t)))"

definition Position :: "driver \<Rightarrow> string \<Rightarrow> table \<Rightarrow> err + nat" where
  "Position ok i t =
     (case Get ok i t of
        Inl e \<Rightarrow> Inl e
      | Inr j \<Rightarrow>
          (if JState j \<noteq> StateQueued then Inr 0
           else if \<not> ok 1 then Inl ErrDb
           else Inr (affected (\<lambda>r. in_state StateQueued r \<and> (PositionHint r < PositionHint j
                  \<or> PositionHint r = PositionHint j \<and> CreatedAt r < CreatedAt j)) t + 1)))"

definition StampFetched :: "driver \<Rightarrow> instant \<Rightarrow> string \<Rightarrow> table \<Rightarrow> unit db" where
  "StampFetched ok now i t =
     (if \<not> ok 0 then (Inl ErrDb, t)
      else (Inr (), update_where (\<lambda>r. has_id i r \<and> in_state StateSucceeded r \<and> FetchedAt r = None)
             (\<lambda>r. r\<lparr>FetchedAt := Some now\<rparr>) t))"

text \<open>The \<^verbatim>\<open>WHERE\<close> clause of \<^verbatim>\<open>Prune\<close>.\<close>

definition prunable :: "duration \<Rightarrow> duration \<Rightarrow> instant \<Rightarrow> Job \<Rightarrow> bool" where
  "prunable fetchedGrace hardCap now j \<longleftrightarrow>
     (JState j = StateSucceeded \<and> (case FetchedAt j of None \<Rightarrow> False | Some f \<Rightarrow> f < now - fetchedGrace))
     \<or> (JState j \<in> {StateSucceeded, StateFailed, StateCanceled}
         \<and> (case FinishedAt j of None \<Rightarrow> False | Some f \<Rightarrow> f < now - hardCap))"

definition Prune :: "driver \<Rightarrow> duration \<Rightarrow> duration \<Rightarrow> instant \<Rightarrow> table \<Rightarrow> nat db" where
  "Prune ok fetchedGrace hardCap now t =
     (if \<not> ok 0 then (Inl ErrDb, t)
      else (Inr (affected (prunable fetchedGrace hardCap now) t),
            filter (\<lambda>j. \<not> prunable fetchedGrace hardCap now j) t))"

definition CountJobs :: "driver \<Rightarrow> table \<Rightarrow> err + Counts" where
  "CountJobs ok t =
     (if \<not> ok 0 then Inl ErrDb
      else Inr \<lparr>n_Queued = affected (in_state StateQueued) t, n_Running = affected (in_state StateRunning) t,
                n_Succeeded = affected (in_state StateSucceeded) t, n_Failed = affected (in_state StateFailed) t,
                n_Canceled = affected (in_state StateCanceled) t\<rparr>)"

end
