(* ===== verification/Job_Line.thy ===== *)
theory Job_Line
  imports Job_Store
begin

text \<open>
  The Job table as a durable queue: its invariant, the line of waiting Jobs it represents, and what
  every operation of the store does to both.
\<close>

section \<open>Invariant\<close>

text \<open>What a row's state says about its other columns.\<close>

definition row_ok :: "Job \<Rightarrow> bool" where
  "row_ok j \<longleftrightarrow> 0 \<le> Attempts j \<and>
     (case JState j of
        StateQueued \<Rightarrow> StartedAt j = None \<and> FinishedAt j = None \<and> FetchedAt j = None \<and> Result j = []
      | StateRunning \<Rightarrow> StartedAt j \<noteq> None \<and> FinishedAt j = None \<and> FetchedAt j = None \<and> Result j = [] \<and> JError j = []
      | StateSucceeded \<Rightarrow> FinishedAt j \<noteq> None \<and> JError j = []
      | StateFailed \<Rightarrow> FinishedAt j \<noteq> None \<and> FetchedAt j = None \<and> Result j = []
      | StateCanceled \<Rightarrow> FinishedAt j \<noteq> None \<and> FetchedAt j = None \<and> Result j = [])"

definition queued_set :: "table \<Rightarrow> Job set" where
  "queued_set t = {j \<in> set t. JState j = StateQueued}"

definition store_inv :: "table \<Rightarrow> bool" where
  "store_inv t \<longleftrightarrow>
     distinct (map ID t) \<and> distinct (map IdempotencyKey t)
     \<and> inj_on PositionHint (queued_set t) \<and> (\<forall>j\<in>set t. row_ok j)"

text \<open>The ids of the waiting Jobs, next to run first.\<close>

definition line :: "table \<Rightarrow> string list" where
  "line t = map ID (queued_rows t)"

lemma store_invD:
  assumes "store_inv t"
  shows "distinct (map ID t)" "distinct (map IdempotencyKey t)" "inj_on PositionHint (queued_set t)"
    "\<And>j. j \<in> set t \<Longrightarrow> row_ok j"
  using assms by (auto simp: store_inv_def)

lemma store_inv_inj: "store_inv t \<Longrightarrow> a \<in> set t \<Longrightarrow> b \<in> set t \<Longrightarrow> ID a = ID b \<Longrightarrow> a = b"
  unfolding store_inv_def distinct_map inj_on_def by blast

section \<open>The line is the queued rows in hint order\<close>

lemma set_queued_rows [simp]: "set (queued_rows t) = queued_set t"
  by (auto simp: queued_rows_def queued_set_def in_state_def)

lemma sorted_fst_key: "sorted (map (\<lambda>x. (f x, g x)) xs) \<Longrightarrow> sorted (map f xs)"
  for f :: "'a \<Rightarrow> 'b::linorder" and g :: "'a \<Rightarrow> 'c::linorder"
  by (induction xs) (auto simp: less_eq_prod_simp)

lemma queued_rows_sorted: "sorted (map PositionHint (queued_rows t))"
  unfolding queued_rows_def by (rule sorted_fst_key) (rule sorted_sort_key)

lemma queued_rows_distinct: "store_inv t \<Longrightarrow> distinct (queued_rows t)"
  by (auto simp: store_inv_def queued_rows_def distinct_map intro: distinct_filter)

lemma queued_rows_distinct_hints:
  assumes "store_inv t"
  shows "distinct (map PositionHint (queued_rows t))"
  using queued_rows_distinct [OF assms] store_invD(3) [OF assms] by (simp add: distinct_map)

lemma queued_rows_unique:
  assumes "store_inv t" and "set L = queued_set t" and "sorted (map PositionHint L)" and "distinct (map PositionHint L)"
  shows "queued_rows t = L"
proof (rule map_sorted_distinct_set_unique [of PositionHint])
  show "inj_on PositionHint (set (queued_rows t) \<union> set L)" using assms(2) store_invD(3) [OF assms(1)] by simp
qed (use assms queued_rows_sorted queued_rows_distinct_hints in auto)

lemma fold_max_ge: "x \<in> set (y # ys) \<Longrightarrow> x \<le> fold max ys y" for x :: int
proof (induction ys arbitrary: x y)
  case (Cons z zs)
  have "max z y \<le> fold max zs (max z y)" by (rule Cons.IH) simp
  moreover have "x \<le> max z y \<or> x \<in> set zs" using Cons.prems by auto
  ultimately show ?case using Cons.IH [of x "max z y"] by auto
qed simp

lemma fold_min_le: "x \<in> set (y # ys) \<Longrightarrow> fold min ys y \<le> x" for x :: int
proof (induction ys arbitrary: x y)
  case (Cons z zs)
  have "fold min zs (min z y) \<le> min z y" by (rule Cons.IH) simp
  moreover have "min z y \<le> x \<or> x \<in> set zs" using Cons.prems by auto
  ultimately show ?case using Cons.IH [of x "min z y"] by auto
qed simp

lemma next_hint_gt:
  assumes "j \<in> set t"
  shows "PositionHint j < next_hint t"
proof -
  have "PositionHint j \<in> set (map PositionHint t)" (is "_ \<in> set ?hs") using assms by simp
  moreover obtain x xs where "?hs = x # xs" using assms by (cases ?hs) auto
  ultimately show ?thesis using fold_max_ge [of "PositionHint j" x xs] by (simp add: next_hint_def)
qed

lemma front_hint_lt:
  assumes "j \<in> queued_set t"
  shows "front_hint t < PositionHint j"
proof -
  have "PositionHint j \<in> set (map PositionHint (filter (in_state StateQueued) t))" (is "_ \<in> set ?hs")
    using assms by (auto simp: queued_set_def in_state_def)
  moreover obtain x xs where "?hs = x # xs" using calculation by (cases ?hs) auto
  ultimately show ?thesis using fold_min_le [of "PositionHint j" x xs] by (simp add: front_hint_def)
qed

section \<open>Replacing one row\<close>

lemma affected_pos: "affected P t \<noteq> 0 \<longleftrightarrow> (\<exists>j\<in>set t. P j)"
  by (auto simp: affected_def filter_empty_conv)

lemma update_where_none: "\<forall>j\<in>set t. \<not> P j \<Longrightarrow> update_where P f t = t"
  by (auto simp: update_where_def intro: map_idI)

lemma update_where_row:
  assumes "store_inv t" and "j \<in> set t" and "P j" and "\<forall>r. P r \<longrightarrow> ID r = ID j"
  shows "update_where P f t = map (\<lambda>r. if r = j then f j else r) t"
proof -
  have "P r \<longleftrightarrow> r = j" if "r \<in> set t" for r
    using assms store_inv_inj [OF assms(1) that assms(2)] by blast
  then show ?thesis by (auto simp: update_where_def)
qed

lemma scan_id:
  assumes "store_inv t"
  shows "scanOne (filter (has_id i) t) = Inr j \<longleftrightarrow> j \<in> set t \<and> ID j = i"
    and "scanOne (filter (has_id i) t) = Inl e \<longleftrightarrow> e = ErrNotFound \<and> (\<forall>j\<in>set t. ID j \<noteq> i)"
proof -
  have "hd (filter (has_id i) t) \<in> set t \<and> ID (hd (filter (has_id i) t)) = i" if "filter (has_id i) t \<noteq> []"
    using hd_in_set [OF that] by (auto simp: has_id_def)
  then show "scanOne (filter (has_id i) t) = Inr j \<longleftrightarrow> j \<in> set t \<and> ID j = i"
    using store_inv_inj [OF assms] unfolding scanOne_def
    by (cases "filter (has_id i) t") (auto simp: filter_empty_conv has_id_def filter_eq_Cons_iff)
  show "scanOne (filter (has_id i) t) = Inl e \<longleftrightarrow> e = ErrNotFound \<and> (\<forall>j\<in>set t. ID j \<noteq> i)"
    unfolding scanOne_def
    by (cases "filter (has_id i) t") (auto simp: filter_empty_conv has_id_def filter_eq_Cons_iff)
qed

lemma key_scan:
  assumes "store_inv t" and "j \<in> set t"
  shows "scanOne (filter (\<lambda>r. IdempotencyKey r = IdempotencyKey j) t) = Inr j"
proof -
  have "\<forall>r\<in>set t. IdempotencyKey r = IdempotencyKey j \<longrightarrow> r = j"
    using store_invD(2) [OF assms(1)] assms(2) by (auto simp: distinct_map inj_on_def)
  then show ?thesis unfolding scanOne_def
    by (cases "filter (\<lambda>r. IdempotencyKey r = IdempotencyKey j) t")
      (use assms(2) in \<open>auto simp: filter_empty_conv filter_eq_Cons_iff\<close>)
qed

text \<open>One row \<open>j\<close> replaced by \<open>j'\<close>, with the same id and key: what happens to the invariant and the line.\<close>

definition put :: "Job \<Rightarrow> Job \<Rightarrow> table \<Rightarrow> table" where
  "put j j' t = map (\<lambda>r. if r = j then j' else r) t"

lemma set_put: "j \<in> set t \<Longrightarrow> set (put j j' t) = insert j' (set t - {j})"
  by (auto simp: put_def)

lemma queued_set_put:
  assumes "j \<in> set t"
  shows "queued_set (put j j' t) = (if JState j' = StateQueued then insert j' (queued_set t - {j}) else queued_set t - {j})"
  using set_put [OF assms] by (auto simp: queued_set_def)

lemma put_inv:
  assumes "store_inv t" and "j \<in> set t" and "ID j' = ID j" and "IdempotencyKey j' = IdempotencyKey j" and "row_ok j'"
    and "JState j' = StateQueued \<Longrightarrow> \<forall>r\<in>queued_set t - {j}. PositionHint r \<noteq> PositionHint j'"
  shows "store_inv (put j j' t)"
proof -
  have "map ID (put j j' t) = map ID t" "map IdempotencyKey (put j j' t) = map IdempotencyKey t"
    using assms(3,4) by (auto simp: put_def)
  moreover have "inj_on PositionHint (queued_set (put j j' t))"
    using queued_set_put [OF assms(2), of j'] store_invD(3) [OF assms(1)] assms(6)
    by (auto simp: inj_on_def split: if_splits)
  ultimately show ?thesis using assms set_put [OF assms(2), of j'] by (auto simp: store_inv_def)
qed

text \<open>The four effects on the line: untouched, pushed to the front, taken out, appended.\<close>

lemma put_line_same:
  assumes "store_inv t" and "store_inv (put j j' t)" and "j \<in> set t"
    and "JState j \<noteq> StateQueued" and "JState j' \<noteq> StateQueued"
  shows "line (put j j' t) = line t"
proof -
  have "queued_set (put j j' t) = queued_set t"
    using queued_set_put [OF assms(3), of j'] assms(4,5) by (auto simp: queued_set_def)
  then have "queued_rows (put j j' t) = queued_rows t"
    using assms(1,2) queued_rows_sorted queued_rows_distinct_hints by (intro queued_rows_unique) auto
  then show ?thesis by (simp add: line_def)
qed

lemma put_line_front:
  assumes "store_inv t" and "store_inv (put j j' t)" and "j \<in> set t"
    and "JState j \<noteq> StateQueued" and "JState j' = StateQueued" and "PositionHint j' = front_hint t"
  shows "line (put j j' t) = ID j' # line t"
proof -
  have set: "queued_set (put j j' t) = insert j' (queued_set t)"
    using queued_set_put [OF assms(3), of j'] assms(4,5) by (auto simp: queued_set_def)
  have less: "\<forall>r\<in>queued_set t. PositionHint j' < PositionHint r" using front_hint_lt assms(6) by auto
  have "queued_rows (put j j' t) = j' # queued_rows t"
    using assms(1,2) set less queued_rows_sorted [of t] queued_rows_distinct_hints [OF assms(1)]
    by (intro queued_rows_unique) fastforce+
  then show ?thesis by (simp add: line_def)
qed

lemma put_line_remove:
  assumes "store_inv t" and "store_inv (put j j' t)" and "j \<in> set t" and "JState j' \<noteq> StateQueued"
  shows "line (put j j' t) = filter (\<lambda>i. i \<noteq> ID j) (line t)"
proof -
  have "queued_rows (put j j' t) = filter (\<lambda>r. r \<noteq> j) (queued_rows t)"
    using assms queued_set_put [OF assms(3), of j'] queued_rows_sorted [of t] queued_rows_distinct_hints [OF assms(1)]
    by (intro queued_rows_unique) (auto simp: sorted_filter distinct_map_filter)
  moreover have "filter (\<lambda>r. r \<noteq> j) (queued_rows t) = filter (\<lambda>r. ID r \<noteq> ID j) (queued_rows t)"
    using store_inv_inj [OF assms(1)] assms(3) by (intro filter_cong) (auto simp: queued_set_def)
  ultimately show ?thesis by (simp add: line_def filter_map o_def)
qed

section \<open>What each operation does\<close>

lemma store_inv_Nil: "store_inv []"
  by (simp add: store_inv_def queued_set_def)

text \<open>A guarded update of one row, by id and state, is \<^term>\<open>put\<close>.\<close>

lemma update_guarded:
  assumes "store_inv t" and "j \<in> set t" and "ID j = i" and "JState j = s"
  shows "update_where (\<lambda>r. has_id i r \<and> in_state s r) f t = put j (f j) t"
    and "update_where (has_id i) f t = put j (f j) t"
  using assms by (auto simp: put_def has_id_def in_state_def intro!: update_where_row)

lemma guarded_miss:
  assumes "\<not> (\<exists>j\<in>set t. ID j = i \<and> JState j = s)"
  shows "update_where (\<lambda>r. has_id i r \<and> in_state s r) f t = t"
  using assms by (intro update_where_none) (auto simp: has_id_def in_state_def)

lemma guarded_affected:
  "mustAffect (affected (\<lambda>r. has_id i r \<and> in_state s r) t) =
     (if \<exists>j\<in>set t. ID j = i \<and> JState j = s then Inr () else Inl ErrNotFound)"
  using affected_pos [of "\<lambda>r. has_id i r \<and> in_state s r" t]
  by (auto simp: mustAffect_def has_id_def in_state_def)

lemma running_row:
  assumes "store_inv t" "j \<in> set t" "JState j = StateRunning"
  shows "StartedAt j \<noteq> None" "FinishedAt j = None" "FetchedAt j = None" "Result j = []" "0 \<le> Attempts j" "JError j = []"
  using store_invD(4) [OF assms(1,2)] assms(3) by (auto simp: row_ok_def)

text \<open>The three replacements of a running row: to the front of the line, finished, and failed.\<close>

lemma put_requeue:
  fixes e :: string
  assumes "store_inv t" and "j \<in> set t" and "JState j = StateRunning" and "0 \<le> a"
  defines "j' \<equiv> j\<lparr>JState := StateQueued, Attempts := a, JError := e, StartedAt := None, PositionHint := front_hint t\<rparr>"
  shows "store_inv (put j j' t)" and "line (put j j' t) = ID j # line t"
proof -
  note R = running_row [OF assms(1-3)]
  show inv: "store_inv (put j j' t)"
    using assms R front_hint_lt [of _ t]
    by (intro put_inv [OF assms(1,2)]) (auto simp: row_ok_def dest: order_less_imp_not_eq2)
  show "line (put j j' t) = ID j # line t"
    using put_line_front [OF assms(1) inv assms(2)] assms(3) by (simp add: j'_def)
qed

lemma put_finish:
  assumes "store_inv t" and "j \<in> set t" and "\<not> Terminal (JState j)" and "Terminal (JState j')" and "row_ok j'"
    and "ID j' = ID j" and "IdempotencyKey j' = IdempotencyKey j"
  shows "store_inv (put j j' t)" and "line (put j j' t) = filter (\<lambda>i. i \<noteq> ID j) (line t)"
proof -
  have nq: "JState j' \<noteq> StateQueued" using assms(4) by (auto simp: Terminal_def)
  show inv: "store_inv (put j j' t)" using assms nq by (intro put_inv) auto
  show "line (put j j' t) = filter (\<lambda>i. i \<noteq> ID j) (line t)" by (rule put_line_remove [OF assms(1) inv assms(2) nq])
qed

lemma running_not_in_line:
  assumes "store_inv t" and "j \<in> set t" and "JState j \<noteq> StateQueued"
  shows "filter (\<lambda>i. i \<noteq> ID j) (line t) = line t"
proof -
  have "ID x \<noteq> ID j" if "x \<in> queued_set t" for x
    using that assms(3) store_inv_inj [OF assms(1) _ assms(2), of x] by (auto simp: queued_set_def)
  then show ?thesis by (intro filter_True) (auto simp: line_def)
qed

lemma Submit_spec:
  assumes "store_inv t" and "Submit ok now j t = (r, t')"
  shows "store_inv t' \<and>
    (case r of
       Inl e \<Rightarrow> e = ErrDb \<and> t' = t
     | Inr (j', False) \<Rightarrow> t' = t \<and> j' \<in> set t \<and> IdempotencyKey j' = IdempotencyKey j
     | Inr (j', True) \<Rightarrow> (\<exists>row. t' = t @ [row] \<and> ID row = ID j \<and> IdempotencyKey row = IdempotencyKey j
          \<and> JState row = StateQueued \<and> Attempts row = 0 \<and> Prompt row = Prompt j \<and> Model row = Model j)
         \<and> ID j' = ID j \<and> (\<forall>x\<in>set t. IdempotencyKey x \<noteq> IdempotencyKey j)
         \<and> line t' = line t @ [ID j])"
proof (cases "scanOne (filter (\<lambda>r. IdempotencyKey r = IdempotencyKey j) t)")
  case (Inr existing)
  then have "existing \<in> set t" "IdempotencyKey existing = IdempotencyKey j"
    by (auto simp: scanOne_def filter_eq_Cons_iff split: list.splits)
  then show ?thesis using assms Inr by (auto simp: Submit_def split: if_splits)
next
  case (Inl e)
  then have key: "\<forall>x\<in>set t. IdempotencyKey x \<noteq> IdempotencyKey j"
    by (auto simp: scanOne_def filter_empty_conv split: list.splits)
  define row where "row = j\<lparr>JState := StateQueued, Attempts := 0, PositionHint := next_hint t,
      CreatedAt := (if CreatedAt j = zeroTime then now else CreatedAt j),
      Result := [], JError := [], StartedAt := None, FinishedAt := None, FetchedAt := None\<rparr>"
  show ?thesis
  proof (cases "ok 0 \<and> ok 1 \<and> ok 2 \<and> ok 3 \<and> ok 4 \<and> \<not> list_ex (has_id (ID j)) t")
    case False
    then show ?thesis using assms Inl by (auto simp: Submit_def Let_def split: if_splits)
  next
    case True
    then have r: "r = Inr (j\<lparr>JState := StateQueued, Attempts := 0, PositionHint := next_hint t,
        CreatedAt := (if CreatedAt j = zeroTime then now else CreatedAt j)\<rparr>, True)" "t' = t @ [row]"
      using assms(2) Inl by (auto simp: Submit_def row_def Let_def split: if_splits)
    have id: "\<forall>x\<in>set t. ID x \<noteq> ID j" using True by (auto simp: list_ex_iff has_id_def)
    have q: "queued_set t' = insert row (queued_set t)" using r(2) by (auto simp: queued_set_def row_def)
    have gt: "\<forall>x\<in>queued_set t. PositionHint x < PositionHint row"
      using next_hint_gt by (auto simp: row_def queued_set_def)
    have inv: "store_inv t'"
      using assms(1) id key q gt unfolding r(2) store_inv_def
      by (fastforce simp: row_def row_ok_def inj_on_def)
    have "queued_rows t' = queued_rows t @ [row]"
      using q gt queued_rows_sorted [of t] queued_rows_distinct_hints [OF assms(1)]
      by (intro queued_rows_unique [OF inv]) (fastforce simp: sorted_append)+
    then show ?thesis using inv r key by (simp add: line_def row_def)
  qed
qed

lemma ClaimNext_spec:
  assumes "store_inv t" and "ClaimNext ok now t = (r, t')"
  shows "store_inv t' \<and>
    (case r of
       Inl e \<Rightarrow> t' = t \<and> (e = ErrNotFound \<and> line t = [] \<or> e = ErrDb)
     | Inr j' \<Rightarrow> line t = ID j' # line t' \<and> JState j' = StateRunning
         \<and> (\<exists>j\<in>queued_set t. ID j = ID j' \<and> t' = put j j' t))"
proof (cases "ok 0 \<and> ok 1 \<and> ok 2 \<and> ok 3")
  case False
  then show ?thesis using assms
    by (auto simp: ClaimNext_def scanOne_def line_def split: if_splits list.splits)
next
  case True
  show ?thesis
  proof (cases "queued_rows t")
    case Nil
    then show ?thesis using assms True by (auto simp: ClaimNext_def scanOne_def line_def)
  next
    case (Cons j rest)
    then have j: "j \<in> queued_set t" "j \<in> set t" "JState j = StateQueued"
      using set_queued_rows [of t] by (auto simp: queued_set_def)
    let ?j = "j\<lparr>JState := StateRunning, StartedAt := Some now, JError := []\<rparr>"
    have r: "r = Inr ?j" "t' = put j ?j t"
      using assms True Cons update_guarded(1) [OF assms(1) j(2) refl j(3)]
      by (auto simp: ClaimNext_def scanOne_def)
    have ok': "row_ok ?j" using store_invD(4) [OF assms(1) j(2)] j(3) by (simp add: row_ok_def)
    have inv: "store_inv t'" unfolding r(2) using ok' by (intro put_inv [OF assms(1) j(2)]) auto
    have "line t' = filter (\<lambda>i. i \<noteq> ID j) (line t)"
      using put_line_remove [OF assms(1) inv [unfolded r(2)] j(2)] r(2) by simp
    moreover have "ID j \<notin> set (map ID rest)"
    proof
      assume "ID j \<in> set (map ID rest)"
      then obtain x where x: "x \<in> set rest" "ID x = ID j" by auto
      then have "x \<in> set t" using Cons set_queued_rows [of t] by (auto simp: queued_set_def)
      then have "x = j" using store_inv_inj [OF assms(1) _ j(2)] x(2) by blast
      then show False using queued_rows_distinct [OF assms(1)] Cons x(1) by simp
    qed
    then have "filter (\<lambda>i. i \<noteq> ID j) (map ID rest) = map ID rest" by (intro filter_True ballI) blast
    ultimately have "line t = ID j # line t'" using Cons by (simp add: line_def)
    then show ?thesis using inv r j(1) by auto
  qed
qed

lemma Succeed_spec:
  assumes "store_inv t" and "Succeed ok now i result t = (r, t')"
  shows "store_inv t' \<and> line t' = line t \<and>
    (case r of
       Inl e \<Rightarrow> t' = t
     | Inr _ \<Rightarrow> \<exists>j\<in>set t. ID j = i \<and> JState j = StateRunning
         \<and> t' = put j (j\<lparr>JState := StateSucceeded, Result := result, FinishedAt := Some now, JError := []\<rparr>) t)"
proof (cases "ok 0 \<and> (\<exists>j\<in>set t. ID j = i \<and> JState j = StateRunning)")
  case False
  then have "(r = Inl ErrDb \<or> r = Inl ErrNotFound) \<and> t' = t"
    using assms(2) guarded_miss [of t i StateRunning]
    by (cases "ok 0") (auto simp: Succeed_def Let_def guarded_affected split: if_splits)
  then show ?thesis using assms(1) by auto
next
  case True
  then obtain j where j: "j \<in> set t" "ID j = i" "JState j = StateRunning" by blast
  let ?j = "j\<lparr>JState := StateSucceeded, Result := result, FinishedAt := Some now, JError := []\<rparr>"
  have r: "r = Inr ()" "t' = put j ?j t"
    using assms True guarded_affected [of i StateRunning t] update_guarded(1) [OF assms(1) j]
    by (auto simp: Succeed_def Let_def)
  have "store_inv (put j ?j t) \<and> line (put j ?j t) = filter (\<lambda>x. x \<noteq> ID j) (line t)"
    using running_row [OF assms(1) j(1,3)] j(3)
    by (intro conjI put_finish [OF assms(1) j(1)]) (simp_all add: Terminal_def row_ok_def)
  then show ?thesis using r j running_not_in_line [OF assms(1) j(1)] by auto
qed

lemma Preempt_spec:
  assumes "store_inv t" and "Preempt ok i t = (r, t')"
  shows "store_inv t' \<and>
    (case r of
       Inl e \<Rightarrow> t' = t
     | Inr _ \<Rightarrow> line t' = i # line t \<and> (\<exists>j\<in>set t. ID j = i \<and> JState j = StateRunning
         \<and> t' = put j (j\<lparr>JState := StateQueued, StartedAt := None, PositionHint := front_hint t\<rparr>) t))"
proof (cases "ok 0 \<and> (\<exists>j\<in>set t. ID j = i \<and> JState j = StateRunning)")
  case False
  then have "(r = Inl ErrDb \<or> r = Inl ErrNotFound) \<and> t' = t"
    using assms(2) guarded_miss [of t i StateRunning]
    by (cases "ok 0") (auto simp: Preempt_def Let_def guarded_affected split: if_splits)
  then show ?thesis using assms(1) by auto
next
  case True
  then obtain j where j: "j \<in> set t" "ID j = i" "JState j = StateRunning" by blast
  let ?j = "j\<lparr>JState := StateQueued, StartedAt := None, PositionHint := front_hint t\<rparr>"
  have r: "r = Inr ()" "t' = put j ?j t"
    using assms True guarded_affected [of i StateRunning t] update_guarded(1) [OF assms(1) j]
    by (auto simp: Preempt_def Let_def)
  from put_requeue [OF assms(1) j(1,3) running_row(5) [OF assms(1) j(1,3)], of "JError j"]
  have "store_inv (put j ?j t)" "line (put j ?j t) = i # line t" using j(2) by simp_all
  then show ?thesis using r j by auto
qed

text \<open>What a failed run leaves: the row failed for good, or back at the front with one more attempt.\<close>

definition failed_row :: "instant \<Rightarrow> string \<Rightarrow> Job \<Rightarrow> Job" where
  "failed_row now msg j = j\<lparr>JState := StateFailed, Attempts := Attempts j + 1, JError := msg, FinishedAt := Some now\<rparr>"

definition requeued_row :: "table \<Rightarrow> string \<Rightarrow> Job \<Rightarrow> Job" where
  "requeued_row t msg j = j\<lparr>JState := StateQueued, Attempts := Attempts j + 1, JError := msg, StartedAt := None,
     PositionHint := front_hint t\<rparr>"

lemma put_failed:
  assumes "store_inv t" and "j \<in> set t" and "JState j = StateRunning"
  shows "store_inv (put j (failed_row now msg j) t)" and "line (put j (failed_row now msg j) t) = line t"
proof -
  note R = running_row [OF assms]
  have "store_inv (put j (failed_row now msg j) t)
      \<and> line (put j (failed_row now msg j) t) = filter (\<lambda>x. x \<noteq> ID j) (line t)"
    using R assms(3)
    by (intro conjI put_finish [OF assms(1,2)]) (simp_all add: failed_row_def Terminal_def row_ok_def)
  then show "store_inv (put j (failed_row now msg j) t)" "line (put j (failed_row now msg j) t) = line t"
    using running_not_in_line [OF assms(1,2)] assms(3) by auto
qed

lemma put_requeued:
  assumes "store_inv t" and "j \<in> set t" and "JState j = StateRunning"
  shows "store_inv (put j (requeued_row t msg j) t)" and "line (put j (requeued_row t msg j) t) = ID j # line t"
  using put_requeue [OF assms, of "Attempts j + 1" msg] running_row(5) [OF assms]
  by (simp_all add: requeued_row_def)

lemma FailOrRetry_spec:
  assumes "store_inv t" and "FailOrRetry ok now i msg m t = (r, t')"
  shows "store_inv t' \<and>
    (case r of
       Inl e \<Rightarrow> t' = t
     | Inr failed \<Rightarrow> (\<exists>j\<in>set t. ID j = i \<and> JState j = StateRunning \<and> (failed \<longleftrightarrow> Attempts j + 1 \<ge> m)
         \<and> t' = put j (if failed then failed_row now msg j else requeued_row t msg j) t)
         \<and> line t' = (if failed then line t else i # line t))"
proof (cases "ok 0 \<and> ok 1 \<and> ok 2 \<and> ok 3 \<and> (\<exists>j\<in>set t. ID j = i \<and> JState j = StateRunning)")
  case False
  then have "(\<exists>e. r = Inl e) \<and> t' = t"
  proof (cases "scanOne (filter (has_id i) t)")
    case (Inl e)
    then show ?thesis using assms(2) by (simp add: FailOrRetry_def split: if_splits) blast+
  next
    case (Inr j)
    then have "j \<in> set t \<and> ID j = i" using scan_id(1) [OF assms(1)] by blast
    then show ?thesis using assms(2) Inr False by (auto simp: FailOrRetry_def Let_def split: if_splits)
  qed
  then show ?thesis using assms(1) by auto
next
  case True
  then obtain j where j: "j \<in> set t" "ID j = i" "JState j = StateRunning" by blast
  have scan: "scanOne (filter (has_id i) t) = Inr j" using scan_id(1) [OF assms(1)] j by blast
  note upd = update_guarded(2) [OF assms(1) j]
  show ?thesis
  proof (cases "Attempts j + 1 \<ge> m")
    case fail: True
    then have "r = Inr True" "t' = put j (failed_row now msg j) t"
      using assms(2) True scan j(3) upd by (auto simp: FailOrRetry_def fail_row_def failed_row_def Let_def)
    then show ?thesis using put_failed [OF assms(1) j(1,3)] j fail by auto
  next
    case retry: False
    then have "r = Inr False" "t' = put j (requeued_row t msg j) t"
      using assms(2) True scan j(3) upd by (auto simp: FailOrRetry_def requeued_row_def Let_def)
    then show ?thesis using put_requeued [OF assms(1) j(1,3)] j retry by auto
  qed
qed

lemma Cancel_spec:
  assumes "store_inv t" and "Cancel ok now i t = (r, t')"
  shows "store_inv t' \<and>
    (case r of
       Inl e \<Rightarrow> t' = t
     | Inr j' \<Rightarrow> line t' = filter (\<lambda>x. x \<noteq> i) (line t) \<and> ID j' = i \<and> Terminal (JState j')
         \<and> (\<exists>j\<in>set t. ID j = i \<and> (if Terminal (JState j) then j' = j \<and> t' = t
              else j' = j\<lparr>JState := StateCanceled, FinishedAt := Some now\<rparr> \<and> t' = put j j' t)))"
proof (cases "ok 0 \<and> ok 1 \<and> ok 2 \<and> (\<exists>j\<in>set t. ID j = i)")
  case False
  then have "(\<exists>e. r = Inl e) \<and> t' = t"
  proof (cases "scanOne (filter (has_id i) t)")
    case (Inl e)
    then show ?thesis using assms(2) by (simp add: Cancel_def split: if_splits; metis)
  next
    case (Inr j)
    then have "j \<in> set t \<and> ID j = i" using scan_id(1) [OF assms(1)] by blast
    then show ?thesis using assms(2) Inr False by (auto simp: Cancel_def Let_def split: if_splits)
  qed
  then show ?thesis using assms(1) by auto
next
  case True
  then obtain j where j: "j \<in> set t" "ID j = i" by blast
  have scan: "scanOne (filter (has_id i) t) = Inr j" using scan_id(1) [OF assms(1)] j by blast
  show ?thesis
  proof (cases "Terminal (JState j)")
    case t: True
    then have "r = Inr j" "t' = t" using assms(2) True scan by (auto simp: Cancel_def)
    then show ?thesis using t j assms(1) running_not_in_line [OF assms(1) j(1)]
      by (auto simp: Terminal_def split: JobState.splits)
  next
    case live: False
    let ?j = "j\<lparr>JState := StateCanceled, FinishedAt := Some now\<rparr>"
    show ?thesis
    proof (cases "ok 3")
      case False
      then have "r = Inl ErrDb" "t' = t" using assms(2) True scan live by (auto simp: Cancel_def)
      then show ?thesis using assms(1) by simp
    next
      case ok3: True
      then have r: "r = Inr ?j" "t' = put j ?j t"
        using assms(2) True scan live update_guarded(2) [OF assms(1) j refl] by (auto simp: Cancel_def)
      have "row_ok ?j" using store_invD(4) [OF assms(1) j(1)] live
        by (auto simp: row_ok_def Terminal_def split: JobState.splits)
      then have "store_inv (put j ?j t) \<and> line (put j ?j t) = filter (\<lambda>x. x \<noteq> ID j) (line t)"
        using live by (intro conjI put_finish [OF assms(1) j(1)]) (simp_all add: Terminal_def)
      then show ?thesis using r j live by (auto simp: Terminal_def)
    qed
  qed
qed

section \<open>The lifecycle of one row\<close>

text \<open>The moves a row can make; \<open>m\<close> is the attempt limit.\<close>

inductive job_move :: "int \<Rightarrow> Job \<Rightarrow> Job \<Rightarrow> bool" for m :: int where
  claim: "JState j = StateQueued \<Longrightarrow> job_move m j (j\<lparr>JState := StateRunning, StartedAt := Some now, JError := []\<rparr>)"
| succeed: "JState j = StateRunning \<Longrightarrow>
    job_move m j (j\<lparr>JState := StateSucceeded, Result := result, FinishedAt := Some now, JError := []\<rparr>)"
| preempt: "JState j = StateRunning \<Longrightarrow>
    job_move m j (j\<lparr>JState := StateQueued, StartedAt := None, PositionHint := h\<rparr>)"
| retry: "JState j = StateRunning \<Longrightarrow> Attempts j + 1 < m \<Longrightarrow> job_move m j (requeued_row t msg j)"
| fail: "JState j = StateRunning \<Longrightarrow> m \<le> Attempts j + 1 \<Longrightarrow> job_move m j (failed_row now msg j)"
| cancel: "\<not> Terminal (JState j) \<Longrightarrow> job_move m j (j\<lparr>JState := StateCanceled, FinishedAt := Some now\<rparr>)"
| stamp: "JState j = StateSucceeded \<Longrightarrow> FetchedAt j = None \<Longrightarrow> job_move m j (j\<lparr>FetchedAt := Some now\<rparr>)"

definition job_step :: "int \<Rightarrow> Job \<Rightarrow> Job \<Rightarrow> bool" where
  "job_step m j j' \<longleftrightarrow> j' = j \<or> job_move m j j'"

lemma job_move_keeps:
  "job_move m j j' \<Longrightarrow> ID j' = ID j \<and> IdempotencyKey j' = IdempotencyKey j \<and> Source j' = Source j \<and> Owner j' = Owner j
     \<and> Model j' = Model j \<and> ParamsJSON j' = ParamsJSON j \<and> Prompt j' = Prompt j \<and> CreatedAt j' = CreatedAt j
     \<and> (Terminal (JState j) \<longrightarrow> JState j' = JState j \<and> Result j' = Result j \<and> JError j' = JError j
          \<and> Attempts j' = Attempts j \<and> FinishedAt j' = FinishedAt j)"
  by (induction rule: job_move.induct) (auto simp: requeued_row_def failed_row_def Terminal_def)

lemma put_steps: "job_move m j j' \<Longrightarrow> list_all2 (job_step m) t (put j j' t)"
  by (auto simp: put_def list_all2_conv_all_nth job_step_def)

lemma claim_move:
  assumes "store_inv t" and "ClaimNext ok now t = (Inr j', t')" and "j \<in> queued_set t" and "ID j = ID j'"
  shows "job_move m j j'"
proof -
  obtain k where k: "k \<in> queued_set t" "j' = k\<lparr>JState := StateRunning, StartedAt := Some now, JError := []\<rparr>"
  proof (cases "queued_rows t")
    case Nil
    then show thesis using assms(2) by (simp add: ClaimNext_def scanOne_def split: if_splits)
  next
    case (Cons k rest)
    then have "k \<in> queued_set t" using set_queued_rows [of t] by auto
    then show thesis using assms(2) Cons that by (simp add: ClaimNext_def scanOne_def split: if_splits)
  qed
  then have "k = j" using assms(3,4) store_inv_inj [OF assms(1)] by (auto simp: queued_set_def)
  then show ?thesis using k job_move.claim [of j m now] by (simp add: queued_set_def)
qed

lemma steps_refl: "list_all2 (job_step m) t t"
  by (simp add: list_all2_refl job_step_def)

text \<open>The restart loop: each record's row is requeued at the front or failed, one after the other.\<close>

definition recovered :: "int \<Rightarrow> (string \<times> int) list \<Rightarrow> string list" where
  "recovered m recs = map fst (filter (\<lambda>(i, a). a + 1 < m) recs)"

lemma recover_loop_spec:
  assumes "store_inv t" and "distinct (map fst recs)"
    and "\<forall>(i, a)\<in>set recs. \<exists>j\<in>set t. ID j = i \<and> JState j = StateRunning \<and> Attempts j = a"
  shows "store_inv (recover_loop now m recs t)
     \<and> line (recover_loop now m recs t) = rev (recovered m recs) @ line t
     \<and> list_all2 (\<lambda>j j'. if ID j \<in> fst ` set recs then job_step m j j' else j' = j) t (recover_loop now m recs t)"
  using assms
proof (induction recs arbitrary: t)
  case Nil
  then show ?case by (simp add: recovered_def list_all2_refl)
next
  case (Cons rec recs)
  obtain i a where rec: "rec = (i, a)" by fastforce
  with Cons.prems(3) obtain j where j: "j \<in> set t" "ID j = i" "JState j = StateRunning" "Attempts j = a" by auto
  define j' where "j' = (if a + 1 \<ge> m then failed_row now ''exceeded attempts after restart'' j else requeued_row t (JError j) j)"
  define t1 where "t1 = put j j' t"
  have step: "recover_loop now m (rec # recs) t = recover_loop now m recs t1"
    using update_guarded(2) [OF Cons.prems(1) j(1-3)] j(4)
    by (simp add: rec t1_def j'_def fail_row_def failed_row_def requeued_row_def Let_def)
  have inv1: "store_inv t1" and line1: "line t1 = recovered m [rec] @ line t"
    using put_failed [OF Cons.prems(1) j(1,3)] put_requeued [OF Cons.prems(1) j(1,3)] j(2)
    by (auto simp: t1_def j'_def rec recovered_def)
  have move: "job_move m j j'"
    using j job_move.fail [OF j(3), of m] job_move.retry [OF j(3), of m] by (auto simp: j'_def)
  have id': "ID j' = i" using j(2) by (simp add: j'_def failed_row_def requeued_row_def)
  have other: "\<forall>(k, b)\<in>set recs. \<exists>r\<in>set t1. ID r = k \<and> JState r = StateRunning \<and> Attempts r = b"
  proof (clarify)
    fix k b
    assume k: "(k, b) \<in> set recs"
    then obtain r where r: "r \<in> set t" "ID r = k" "JState r = StateRunning" "Attempts r = b"
      using Cons.prems(3) by auto
    have "k \<noteq> i" using k Cons.prems(2) rec by force
    then have "r \<in> set t1" using r j(2) set_put [OF j(1), of j'] by (auto simp: t1_def)
    then show "\<exists>r\<in>set t1. ID r = k \<and> JState r = StateRunning \<and> Attempts r = b" using r by blast
  qed
  from Cons.IH [OF inv1 _ other] Cons.prems(2) have IH:
    "store_inv (recover_loop now m recs t1)" "line (recover_loop now m recs t1) = rev (recovered m recs) @ line t1"
    "list_all2 (\<lambda>j j'. if ID j \<in> fst ` set recs then job_step m j j' else j' = j) t1 (recover_loop now m recs t1)"
    by auto
  have i: "i \<notin> fst ` set recs" using Cons.prems(2) rec by simp
  have inj: "\<forall>r\<in>set t. ID r = i \<longrightarrow> r = j" using store_inv_inj [OF Cons.prems(1) _ j(1)] j(2) by simp
  define T where "T = recover_loop now m recs t1"
  have "list_all2 (\<lambda>j j'. if ID j \<in> fst ` set (rec # recs) then job_step m j j' else j' = j) t T"
  proof (rule list.rel_mono_strong [OF IH(3) [folded T_def, unfolded t1_def put_def list_all2_map1]], goal_cases)
    case (1 r r')
    show ?case
    proof (cases "r = j")
      case True
      then show ?thesis using 1(3) i id' move j(2) rec by (simp add: job_step_def)
    next
      case False
      then have "ID r \<noteq> i" using 1(1) inj by blast
      then show ?thesis using 1(3) False rec by (simp split: if_splits)
    qed
  qed
  moreover have "rev (recovered m (rec # recs)) = rev (recovered m recs) @ recovered m [rec]"
    by (simp add: recovered_def split: prod.splits)
  ultimately show ?case using IH line1 step by (simp add: T_def)
qed

lemma running_recs_ok:
  assumes "store_inv t"
  shows "distinct (map fst (running_recs t))"
    and "\<forall>(i, a)\<in>set (running_recs t). \<exists>j\<in>set t. ID j = i \<and> JState j = StateRunning \<and> Attempts j = a"
proof -
  have "distinct (map ID (filter (in_state StateRunning) t))"
    using store_invD(1) [OF assms] by (rule distinct_map_filter)
  then show "distinct (map fst (running_recs t))"
    by (simp add: running_recs_def o_def distinct_map)
  show "\<forall>(i, a)\<in>set (running_recs t). \<exists>j\<in>set t. ID j = i \<and> JState j = StateRunning \<and> Attempts j = a"
    by (auto simp: running_recs_def in_state_def)
qed

lemma RecoverRunning_spec:
  assumes "store_inv t" and "RecoverRunning ok now m t = (r, t')"
  shows "store_inv t' \<and> list_all2 (job_step m) t t' \<and>
    (case r of Inl e \<Rightarrow> t' = t
     | Inr n \<Rightarrow> n = affected (in_state StateRunning) t \<and> line t' = rev (recovered m (running_recs t)) @ line t)"
proof (cases "\<exists>n < length (running_recs t) + 3. \<not> ok n")
  case True
  then show ?thesis using assms steps_refl by (auto simp: RecoverRunning_def Let_def)
next
  case False
  then have "RecoverRunning ok now m t = (Inr (length (running_recs t)), recover_loop now m (running_recs t) t)"
    unfolding RecoverRunning_def Let_def by (rule if_not_P)
  then have r: "r = Inr (length (running_recs t))" "t' = recover_loop now m (running_recs t) t"
    using assms(2) by auto
  note L = recover_loop_spec [OF assms(1) running_recs_ok [OF assms(1)], of now m]
  then have "list_all2 (job_step m) t t'"
    unfolding r(2) by (elim conjE list_all2_mono) (auto simp: job_step_def split: if_splits)
  then show ?thesis using L r by (simp add: running_recs_def affected_def)
qed

lemma StampFetched_spec:
  assumes "store_inv t" and "StampFetched ok now i t = (r, t')"
  shows "store_inv t' \<and> line t' = line t \<and> list_all2 (job_step m) t t'"
proof (cases "ok 0 \<and> (\<exists>j\<in>set t. ID j = i \<and> JState j = StateSucceeded \<and> FetchedAt j = None)")
  case False
  then have "t' = t" using assms(2)
    by (auto simp: StampFetched_def has_id_def in_state_def intro!: update_where_none split: if_splits)
  then show ?thesis using assms(1) steps_refl by simp
next
  case True
  then obtain j where j: "j \<in> set t" "ID j = i" "JState j = StateSucceeded" "FetchedAt j = None" by blast
  let ?j = "j\<lparr>FetchedAt := Some now\<rparr>"
  have t': "t' = put j ?j t" using assms True j update_where_row [OF assms(1) j(1)]
    by (auto simp: StampFetched_def put_def has_id_def in_state_def)
  have inv: "store_inv t'" unfolding t' using store_invD(4) [OF assms(1) j(1)] j(3)
    by (intro put_inv [OF assms(1) j(1)]) (auto simp: row_ok_def)
  have "line t' = line t" using put_line_same [OF assms(1) inv [unfolded t'] j(1)] j(3) t' by simp
  then show ?thesis using inv t' put_steps [OF job_move.stamp [OF j(3,4)]] by simp
qed

lemma prunable_Terminal: "prunable g h now j \<Longrightarrow> Terminal (JState j)"
  by (auto simp: prunable_def Terminal_def split: JobState.splits)

lemma Prune_spec:
  assumes "store_inv t" and "Prune ok g h now t = (r, t')"
  shows "store_inv t' \<and> line t' = line t \<and> set t' \<subseteq> set t \<and> (\<forall>j\<in>set t - set t'. Terminal (JState j) \<and> prunable g h now j)"
proof (cases "ok 0")
  case False
  then show ?thesis using assms by (simp add: Prune_def)
next
  case True
  then have t': "t' = filter (\<lambda>j. \<not> prunable g h now j) t" using assms(2) by (simp add: Prune_def)
  have q: "queued_set t' = queued_set t"
    using prunable_Terminal by (fastforce simp: t' queued_set_def Terminal_def)
  have inv: "store_inv t'" using assms(1) q
    by (auto simp: store_inv_def t' distinct_map_filter)
  have "queued_rows t' = queued_rows t"
    using q queued_rows_sorted queued_rows_distinct_hints [OF assms(1)] by (intro queued_rows_unique [OF inv]) auto
  then show ?thesis using inv prunable_Terminal by (auto simp: line_def t')
qed

end
