(* ===== verification/Job_Store_Properties.thy ===== *)
theory Job_Store_Properties
  imports Job_Line "HOL-Library.Multiset"
begin

text \<open>
  What the Job store guarantees over every sequence of operations and driver failures: the table's
  invariant, the queue it implements, the lifecycle of its rows, the bound on attempts, and the round
  trips of submit and result.
\<close>

section \<open>The store as an event system\<close>

datatype store_op =
    OpSubmit Job
  | OpClaim
  | OpSucceed string string
  | OpPreempt string
  | OpFail string string
  | OpRecover
  | OpCancel string
  | OpStamp string
  | OpPrune duration duration

datatype store_res = RErr err | RJob Job | RNew Job bool | RUnit | RBool bool | RNat nat

text \<open>An operation with the behaviour of the driver and the clock during it.\<close>

type_synonym store_event = "driver \<times> instant \<times> store_op"

definition ret :: "('a \<Rightarrow> store_res) \<Rightarrow> 'a db \<Rightarrow> store_res \<times> table" where
  "ret f p = (case p of (Inl e, t) \<Rightarrow> (RErr e, t) | (Inr x, t) \<Rightarrow> (f x, t))"

fun store_do :: "int \<Rightarrow> store_event \<Rightarrow> table \<Rightarrow> store_res \<times> table" where
  "store_do m (ok, now, OpSubmit j) t = ret (\<lambda>(j', b). RNew j' b) (Submit ok now j t)"
| "store_do m (ok, now, OpClaim) t = ret RJob (ClaimNext ok now t)"
| "store_do m (ok, now, OpSucceed i res) t = ret (\<lambda>_. RUnit) (Succeed ok now i res t)"
| "store_do m (ok, now, OpPreempt i) t = ret (\<lambda>_. RUnit) (Preempt ok i t)"
| "store_do m (ok, now, OpFail i msg) t = ret RBool (FailOrRetry ok now i msg m t)"
| "store_do m (ok, now, OpRecover) t = ret RNat (RecoverRunning ok now m t)"
| "store_do m (ok, now, OpCancel i) t = ret RJob (Cancel ok now i t)"
| "store_do m (ok, now, OpStamp i) t = ret (\<lambda>_. RUnit) (StampFetched ok now i t)"
| "store_do m (ok, now, OpPrune g h) t = ret RNat (Prune ok g h now t)"

definition store_exec :: "int \<Rightarrow> store_event \<Rightarrow> table \<Rightarrow> table option" where
  "store_exec m e t = Some (snd (store_do m e t))"

text \<open>The abstract queue: what an operation and its answer mean for the line of waiting ids.\<close>

fun line_spec :: "store_op \<Rightarrow> store_res \<Rightarrow> string list \<Rightarrow> string list" where
  "line_spec (OpSubmit j) (RNew _ True) l = l @ [ID j]"
| "line_spec OpClaim (RJob _) l = tl l"
| "line_spec (OpPreempt i) RUnit l = i # l"
| "line_spec (OpFail i _) (RBool False) l = i # l"
| "line_spec (OpCancel i) (RJob _) l = filter (\<lambda>x. x \<noteq> i) l"
| "line_spec _ _ l = l"

lemma ret_cases:
  assumes "ret f p = (r, t')"
  obtains (err) e where "p = (Inl e, t')" "r = RErr e" | (val) x where "p = (Inr x, t')" "r = f x"
  using assms by (auto simp: ret_def split: prod.splits sum.splits)

text \<open>
  Everything an operation promises: the invariant, the effect on the line, and that every row moved by
  at most one step of its lifecycle, was pruned, or is the one submitted.
\<close>

definition rows_ok :: "int \<Rightarrow> instant \<Rightarrow> store_op \<Rightarrow> table \<Rightarrow> table \<Rightarrow> bool" where
  "rows_ok m now e t t' \<longleftrightarrow>
     (\<forall>j\<in>set t. (\<exists>j'\<in>set t'. job_step m j j') \<or> (\<exists>g h. e = OpPrune g h \<and> Terminal (JState j) \<and> prunable g h now j))
     \<and> (\<forall>j'\<in>set t'. (\<exists>j\<in>set t. job_step m j j')
          \<or> (\<exists>j. e = OpSubmit j \<and> ID j' = ID j \<and> JState j' = StateQueued \<and> Attempts j' = 0))"

definition line_ok :: "int \<Rightarrow> store_op \<Rightarrow> store_res \<Rightarrow> table \<Rightarrow> table \<Rightarrow> bool" where
  "line_ok m e r t t' \<longleftrightarrow>
     line t' = (case (e, r) of (OpRecover, RNat _) \<Rightarrow> rev (recovered m (running_recs t)) @ line t
       | _ \<Rightarrow> line_spec e r (line t))"

definition op_ok :: "int \<Rightarrow> instant \<Rightarrow> store_op \<Rightarrow> store_res \<Rightarrow> table \<Rightarrow> table \<Rightarrow> bool" where
  "op_ok m now e r t t' \<longleftrightarrow> store_inv t' \<and> line_ok m e r t t' \<and> rows_ok m now e t t'"

lemma rows_ok_steps:
  assumes "list_all2 (job_step m) t t'"
  shows "rows_ok m now e t t'"
  using assms unfolding rows_ok_def by (fastforce simp: list_all2_conv_all_nth in_set_conv_nth)

lemma rows_ok_put: "job_move m j j' \<Longrightarrow> rows_ok m now e t (put j j' t)"
  by (rule rows_ok_steps) (rule put_steps)

lemma op_ok_err:
  assumes "store_inv t" 
  shows "op_ok m now e (RErr x) t t"
  using assms rows_ok_steps [OF steps_refl] by (cases e) (simp_all add: op_ok_def line_ok_def)

lemma submit_op_ok:
  assumes "store_inv t" and "store_do m (ok, now, OpSubmit j) t = (r, t')"
  shows "op_ok m now (OpSubmit j) r t t'"
  using assms(2) [unfolded store_do.simps]
proof (cases rule: ret_cases)
  case (err x)
  with Submit_spec [OF assms(1) err(1)] op_ok_err [OF assms(1)] show ?thesis by simp
next
  case (val x)
  obtain j' b where x: "x = (j', b)" by fastforce
  show ?thesis
  proof (cases b)
    case True
    then show ?thesis using Submit_spec [OF assms(1) val(1)] val(2) x
      by (auto simp: op_ok_def line_ok_def rows_ok_def job_step_def)
  next
    case False
    then show ?thesis using Submit_spec [OF assms(1) val(1)] val(2) x rows_ok_steps [OF steps_refl] assms(1)
      by (auto simp: op_ok_def line_ok_def)
  qed
qed

lemma claim_op_ok:
  assumes "store_inv t" and "store_do m (ok, now, OpClaim) t = (r, t')"
  shows "op_ok m now OpClaim r t t'"
  using assms(2) [unfolded store_do.simps]
proof (cases rule: ret_cases)
  case (err x)
  with ClaimNext_spec [OF assms(1) err(1)] op_ok_err [OF assms(1)] show ?thesis by simp
next
  case (val j')
  note C = ClaimNext_spec [OF assms(1) val(1), simplified]
  then obtain j where j: "j \<in> queued_set t" "ID j = ID j'" "t' = put j j' t" by blast
  have "rows_ok m now OpClaim t t'"
    unfolding j(3) by (rule rows_ok_put) (rule claim_move [OF assms(1) val(1) j(1,2)])
  then show ?thesis using C val(2) by (simp add: op_ok_def line_ok_def)
qed

lemma succeed_op_ok:
  assumes "store_inv t" and "store_do m (ok, now, OpSucceed i res) t = (r, t')"
  shows "op_ok m now (OpSucceed i res) r t t'"
  using assms(2) [unfolded store_do.simps]
proof (cases rule: ret_cases)
  case (err x)
  with Succeed_spec [OF assms(1) err(1)] op_ok_err [OF assms(1)] show ?thesis by simp
next
  case (val x)
  note C = Succeed_spec [OF assms(1) val(1), simplified]
  then obtain j where j: "JState j = StateRunning"
    "t' = put j (j\<lparr>JState := StateSucceeded, Result := res, FinishedAt := Some now, JError := []\<rparr>) t" by blast
  have "rows_ok m now (OpSucceed i res) t t'" unfolding j(2) by (rule rows_ok_put) (rule job_move.succeed [OF j(1)])
  then show ?thesis using C val(2) by (simp add: op_ok_def line_ok_def)
qed

lemma preempt_op_ok:
  assumes "store_inv t" and "store_do m (ok, now, OpPreempt i) t = (r, t')"
  shows "op_ok m now (OpPreempt i) r t t'"
  using assms(2) [unfolded store_do.simps]
proof (cases rule: ret_cases)
  case (err x)
  with Preempt_spec [OF assms(1) err(1)] op_ok_err [OF assms(1)] show ?thesis by simp
next
  case (val x)
  note C = Preempt_spec [OF assms(1) val(1), simplified]
  then obtain j where j: "JState j = StateRunning"
    "t' = put j (j\<lparr>JState := StateQueued, StartedAt := None, PositionHint := front_hint t\<rparr>) t" by blast
  have "rows_ok m now (OpPreempt i) t t'" unfolding j(2) by (rule rows_ok_put) (rule job_move.preempt [OF j(1)])
  then show ?thesis using C val(2) by (simp add: op_ok_def line_ok_def)
qed

lemma fail_op_ok:
  assumes "store_inv t" and "store_do m (ok, now, OpFail i msg) t = (r, t')"
  shows "op_ok m now (OpFail i msg) r t t'"
  using assms(2) [unfolded store_do.simps]
proof (cases rule: ret_cases)
  case (err x)
  with FailOrRetry_spec [OF assms(1) err(1)] op_ok_err [OF assms(1)] show ?thesis by simp
next
  case (val b)
  note C = FailOrRetry_spec [OF assms(1) val(1), simplified]
  then obtain j where j: "JState j = StateRunning" "b \<longleftrightarrow> m \<le> Attempts j + 1"
    "t' = put j (if b then failed_row now msg j else requeued_row t msg j) t" by blast
  have "job_move m j (if b then failed_row now msg j else requeued_row t msg j)"
    using job_move.fail [OF j(1)] job_move.retry [OF j(1)] j(2) by simp
  then have "rows_ok m now (OpFail i msg) t t'" unfolding j(3) by (rule rows_ok_put)
  then show ?thesis using C val(2) by (cases b) (simp_all add: op_ok_def line_ok_def)
qed

lemma recover_op_ok:
  assumes "store_inv t" and "store_do m (ok, now, OpRecover) t = (r, t')"
  shows "op_ok m now OpRecover r t t'"
  using assms(2) [unfolded store_do.simps]
proof (cases rule: ret_cases)
  case (err x)
  with RecoverRunning_spec [OF assms(1) err(1)] op_ok_err [OF assms(1)] show ?thesis by simp
next
  case (val n)
  with RecoverRunning_spec [OF assms(1) val(1)] rows_ok_steps [of m t t'] show ?thesis
    by (simp add: op_ok_def line_ok_def)
qed

lemma cancel_op_ok:
  assumes "store_inv t" and "store_do m (ok, now, OpCancel i) t = (r, t')"
  shows "op_ok m now (OpCancel i) r t t'"
  using assms(2) [unfolded store_do.simps]
proof (cases rule: ret_cases)
  case (err x)
  with Cancel_spec [OF assms(1) err(1)] op_ok_err [OF assms(1)] show ?thesis by simp
next
  case (val j')
  note C = Cancel_spec [OF assms(1) val(1), simplified]
  then obtain j where j: "if Terminal (JState j) then j' = j \<and> t' = t
      else j' = j\<lparr>JState := StateCanceled, FinishedAt := Some now\<rparr> \<and> t' = put j j' t" by blast
  then have "rows_ok m now (OpCancel i) t t'"
    using rows_ok_put [OF job_move.cancel [of j m now]] rows_ok_steps [OF steps_refl] by (auto split: if_splits)
  then show ?thesis using C val(2) by (simp add: op_ok_def line_ok_def)
qed

lemma stamp_op_ok:
  assumes "store_inv t" and "store_do m (ok, now, OpStamp i) t = (r, t')"
  shows "op_ok m now (OpStamp i) r t t'"
  using assms(2) [unfolded store_do.simps]
  by (cases rule: ret_cases)
    (use StampFetched_spec [OF assms(1), of ok now i _ t' m] rows_ok_steps [of m t t'] in
      \<open>auto simp: op_ok_def line_ok_def\<close>)

lemma prune_op_ok:
  assumes "store_inv t" and "store_do m (ok, now, OpPrune g h) t = (r, t')"
  shows "op_ok m now (OpPrune g h) r t t'"
proof -
  obtain p where P: "Prune ok g h now t = (p, t')"
    using assms(2) [unfolded store_do.simps] by (cases rule: ret_cases) auto
  show ?thesis using Prune_spec [OF assms(1) P] by (auto simp: op_ok_def line_ok_def rows_ok_def job_step_def)
qed

lemma store_do_op_ok:
  assumes "store_inv t" and "store_do m (ok, now, e) t = (r, t')"
  shows "op_ok m now e r t t'"
  using assms
  by (cases e) (simp_all only: submit_op_ok claim_op_ok succeed_op_ok preempt_op_ok fail_op_ok
      recover_op_ok cancel_op_ok stamp_op_ok prune_op_ok)

interpretation jobs: event_system "store_exec m" "\<lambda>t. t = []" store_inv
proof
  show "store_inv t" if "t = []" for t using that store_inv_Nil by simp
  show "store_inv t'" if inv: "store_inv t" and ex: "store_exec m e t = Some t'" for t e t'
  proof -
    obtain ok now op where e: "e = (ok, now, op)" by (metis prod_cases3)
    obtain r where "store_do m (ok, now, op) t = (r, t')"
      using ex by (cases "store_do m (ok, now, op) t") (simp add: store_exec_def e)
    from store_do_op_ok [OF inv this] show ?thesis by (simp add: op_ok_def)
  qed
qed

section \<open>Properties\<close>

lemma run_store_inv: "run_events (store_exec m) es [] = Some t \<Longrightarrow> store_inv t"
  by (rule jobs.run_inv) simp_all

text \<open>Rows and drivers for the examples.\<close>

definition demo_job :: "string \<Rightarrow> Job" where
  "demo_job i = \<lparr>ID = i, IdempotencyKey = ''k'' @ i, Source = ''s'', Owner = ''o'', JState = StateQueued, Attempts = 0,
     Model = ''m'', ParamsJSON = [], Prompt = ''p'', Result = [], JError = [], PositionHint = 0, CreatedAt = 1,
     StartedAt = None, FinishedAt = None, FetchedAt = None\<rparr>"

definition up :: driver where "up = (\<lambda>_. True)"

lemmas store_eval = up_def demo_job_def store_exec_def ret_def Submit_def ClaimNext_def RecoverRunning_def
  FailOrRetry_def Succeed_def Preempt_def Cancel_def scanOne_def queued_rows_def next_hint_def front_hint_def
  in_state_def has_id_def update_where_def affected_def mustAffect_def running_recs_def line_def
  zeroTime_def second_def Let_def

text \<open>
  C16. The Job table keeps its invariant through every sequence of operations and driver failures: ids
  and idempotency keys are unique, no two waiting Jobs share a queue position, and each row's columns
  agree with its state; in particular a SUCCEEDED row has its finish time and no error, only a
  SUCCEEDED row was ever fetched, and a waiting or running row carries no result.
\<close>

theorem job_table_invariant:
  assumes "run_events (store_exec m) es [] = Some t"
  shows "distinct (map ID t) \<and> distinct (map IdempotencyKey t)
     \<and> (\<forall>a\<in>set t. \<forall>b\<in>set t. JState a = StateQueued \<and> JState b = StateQueued
          \<and> PositionHint a = PositionHint b \<longrightarrow> a = b)
     \<and> (\<forall>j\<in>set t. row_ok j)"
  using store_invD [OF run_store_inv [OF assms]] by (auto simp: inj_on_def queued_set_def)

theorem job_table_invariant_witness:
  "\<exists>t. run_events (store_exec 3) [(up, 5, OpSubmit (demo_job ''a'')), (up, 6, OpClaim), (up, 7, OpSucceed ''a'' ''done'')] [] = Some t
     \<and> t \<noteq> [] \<and> (\<forall>j\<in>set t. row_ok j)"
proof -
  let ?es = "[(up, 5, OpSubmit (demo_job ''a'')), (up, 6, OpClaim), (up, 7, OpSucceed ''a'' ''done'')]"
  obtain t where t: "run_events (store_exec 3) ?es [] = Some t" "t \<noteq> []" by (simp add: store_eval)
  from job_table_invariant [OF t(1)] t show ?thesis by blast
qed



text \<open>
  C18. A Job moves only along its lifecycle. In every reachable table, an operation moves each row by
  at most one of the seven moves, and no row appears except a Submit's or disappears except a terminal
  one that Prune may delete; identity, submission data and creation time never change; and a terminal
  Job keeps its state, result, error, attempts and finish time for good.
\<close>

theorem job_lifecycle:
  assumes "run_events (store_exec m) es [] = Some t" and "store_do m (ok, now, e) t = (r, t')"
  shows "(\<forall>j\<in>set t. (\<exists>j'\<in>set t'. job_step m j j' \<and> ID j' = ID j)
          \<or> (\<exists>g h. e = OpPrune g h \<and> Terminal (JState j) \<and> prunable g h now j))
     \<and> (\<forall>j'\<in>set t'. (\<exists>j\<in>set t. job_step m j j') \<or> (\<exists>j. e = OpSubmit j \<and> ID j' = ID j \<and> JState j' = StateQueued))
     \<and> (\<forall>j\<in>set t. \<forall>j'\<in>set t'. ID j' = ID j \<longrightarrow> IdempotencyKey j' = IdempotencyKey j \<and> Prompt j' = Prompt j
          \<and> CreatedAt j' = CreatedAt j
          \<and> (Terminal (JState j) \<longrightarrow> JState j' = JState j \<and> Result j' = Result j \<and> JError j' = JError j
               \<and> Attempts j' = Attempts j \<and> FinishedAt j' = FinishedAt j))"
proof -
  have inv: "store_inv t" by (rule run_store_inv [OF assms(1)])
  have ok': "store_inv t'" and rows: "rows_ok m now e t t'"
    using store_do_op_ok [OF inv assms(2)] by (simp_all add: op_ok_def)
  have keeps: "ID j' = ID j" if "job_step m j j'" for j j'
    using that job_move_keeps [of m j j'] by (auto simp: job_step_def)
  have same: "IdempotencyKey j' = IdempotencyKey j \<and> Prompt j' = Prompt j \<and> CreatedAt j' = CreatedAt j
       \<and> (Terminal (JState j) \<longrightarrow> JState j' = JState j \<and> Result j' = Result j \<and> JError j' = JError j
            \<and> Attempts j' = Attempts j \<and> FinishedAt j' = FinishedAt j)"
    if j: "j \<in> set t" and j': "j' \<in> set t'" and id: "ID j' = ID j" for j j'
  proof -
    have "job_step m j j'"
    proof (cases "\<exists>g h. e = OpPrune g h")
      case True
      then have "\<exists>k\<in>set t. job_step m k j'" using rows j' by (auto simp: rows_ok_def)
      then obtain k where k: "k \<in> set t" "job_step m k j'" by blast
      then have "k = j" using store_inv_inj [OF inv k(1) j] keeps [OF k(2)] id by simp
      then show ?thesis using k(2) by simp
    next
      case False
      then obtain k where k: "k \<in> set t'" "job_step m j k" using rows j by (auto simp: rows_ok_def)
      then have "k = j'" using store_inv_inj [OF ok' k(1) j'] keeps [OF k(2)] id by simp
      then show ?thesis using k(2) by simp
    qed
    then show ?thesis using job_move_keeps [of m j j'] by (auto simp: job_step_def)
  qed
  have gone: "(\<exists>j'\<in>set t'. job_step m j j' \<and> ID j' = ID j)
      \<or> (\<exists>g h. e = OpPrune g h \<and> Terminal (JState j) \<and> prunable g h now j)" if "j \<in> set t" for j
  proof (cases "\<exists>j'\<in>set t'. job_step m j j'")
    case True
    then show ?thesis using keeps by auto
  qed (use rows that in \<open>auto simp: rows_ok_def\<close>)
  have fresh: "(\<exists>j\<in>set t. job_step m j j') \<or> (\<exists>j. e = OpSubmit j \<and> ID j' = ID j \<and> JState j' = StateQueued)"
    if "j' \<in> set t'" for j'
    using rows that unfolding rows_ok_def by blast
  show ?thesis
  proof (intro conjI ballI, goal_cases)
    case (1 j)
    then show ?case by (rule gone)
  next
    case (2 j')
    then show ?case by (rule fresh)
  next
    case (3 j j')
    then show ?case using same [of j j'] by blast
  qed
qed

theorem job_lifecycle_witness:
  "\<exists>t r t' j. run_events (store_exec 3) [(up, 5, OpSubmit (demo_job ''a'')), (up, 6, OpClaim), (up, 7, OpSucceed ''a'' ''x'')] [] = Some t
     \<and> store_do 3 (up, 8, OpCancel ''a'') t = (r, t') \<and> j \<in> set t' \<and> JState j = StateSucceeded \<and> Result j = ''x''"
proof -
  let ?es = "[(up, 5, OpSubmit (demo_job ''a'')), (up, 6, OpClaim), (up, 7, OpSucceed ''a'' ''x'')]"
  obtain t j where t: "run_events (store_exec 3) ?es [] = Some t" "j \<in> set t" "JState j = StateSucceeded" "Result j = ''x''"
    by (simp add: store_eval)
  obtain r t' where c: "store_do 3 (up, 8, OpCancel ''a'') t = (r, t')" by fastforce
  have T: "Terminal (JState j)" using t(3) by (simp add: Terminal_def)
  note L = job_lifecycle [OF t(1) c]
  obtain j' where "j' \<in> set t'" "ID j' = ID j" using L t(2) by blast
  then have "JState j' = StateSucceeded \<and> Result j' = ''x''" using L t(2-4) T by metis
  then show ?thesis using t(1) c \<open>j' \<in> set t'\<close> by blast
qed

text \<open>What the attempt limit bounds, as an invariant of its own.\<close>

definition attempts_ok :: "int \<Rightarrow> Job \<Rightarrow> bool" where
  "attempts_ok m j \<longleftrightarrow> 0 \<le> Attempts j \<and> Attempts j \<le> m \<and> (\<not> Terminal (JState j) \<longrightarrow> Attempts j < m)
     \<and> (JState j = StateFailed \<longrightarrow> Attempts j = m)"

lemma job_move_attempts: "job_move m j j' \<Longrightarrow> attempts_ok m j \<Longrightarrow> attempts_ok m j'"
  by (induction rule: job_move.induct)
    (auto simp: attempts_ok_def Terminal_def requeued_row_def failed_row_def split: JobState.splits)

interpretation attempts: event_system "store_exec m" "\<lambda>t. t = [] \<and> 1 \<le> m"
  "\<lambda>t. 1 \<le> m \<and> store_inv t \<and> (\<forall>j\<in>set t. attempts_ok m j)"
proof
  show "1 \<le> m \<and> store_inv t \<and> (\<forall>j\<in>set t. attempts_ok m j)" if "t = [] \<and> 1 \<le> m" for t
    using that store_inv_Nil by simp
  show "1 \<le> m \<and> store_inv t' \<and> (\<forall>j\<in>set t'. attempts_ok m j)"
    if inv: "1 \<le> m \<and> store_inv t \<and> (\<forall>j\<in>set t. attempts_ok m j)" and ex: "store_exec m e t = Some t'" for t e t'
  proof -
    obtain ok now op where e: "e = (ok, now, op)" by (metis prod_cases3)
    obtain r where "store_do m (ok, now, op) t = (r, t')"
      using ex by (cases "store_do m (ok, now, op) t") (simp add: store_exec_def e)
    then have op: "op_ok m now op r t t'" using store_do_op_ok inv by blast
    have "attempts_ok m j'" if "j' \<in> set t'" for j'
    proof -
      consider (moved) j where "j \<in> set t" "job_step m j j'" | (new) "JState j' = StateQueued" "Attempts j' = 0"
        using op \<open>j' \<in> set t'\<close> by (auto simp: op_ok_def rows_ok_def)
      then show ?thesis
        using inv job_move_attempts by cases (auto simp: job_step_def attempts_ok_def Terminal_def)
    qed
    then show ?thesis using inv op by (simp add: op_ok_def)
  qed
qed



section \<open>Claim order and positions\<close>

text \<open>
  What the worker relies on: a line of keys and a claim that takes its head. The client's fact is
  that repeated claims serve the line in order and then find it empty.
\<close>

locale claim_queue =
  fixes ok :: "'t \<Rightarrow> bool"
    and line :: "'t \<Rightarrow> 'k list"
    and claim :: "'t \<Rightarrow> ('k \<times> 't) option"
  assumes claim_empty: "ok t \<Longrightarrow> line t = [] \<Longrightarrow> claim t = None"
    and claim_head: "ok t \<Longrightarrow> line t = k # ks \<Longrightarrow> \<exists>t'. claim t = Some (k, t') \<and> ok t' \<and> line t' = ks"
begin

fun claims :: "nat \<Rightarrow> 't \<Rightarrow> 'k list" where
  "claims 0 t = []"
| "claims (Suc n) t = (case claim t of None \<Rightarrow> [] | Some (k, t') \<Rightarrow> k # claims n t')"

lemma claims_in_order: "ok t \<Longrightarrow> claims n t = take n (line t)"
proof (induction n arbitrary: t)
  case 0
  then show ?case by simp
next
  case (Suc n)
  show ?case
  proof (cases "line t")
    case Nil
    then show ?thesis using Suc.prems claim_empty by simp
  next
    case (Cons k ks)
    then obtain t' where "claim t = Some (k, t')" "ok t'" "line t' = ks" using claim_head [OF Suc.prems] by blast
    then show ?thesis using Suc.IH Cons by simp
  qed
qed

end

definition claim_id :: "instant \<Rightarrow> table \<Rightarrow> (string \<times> table) option" where
  "claim_id now t = (case ClaimNext up now t of (Inl _, _) \<Rightarrow> None | (Inr j, t') \<Rightarrow> Some (ID j, t'))"

fun claim_ids :: "nat \<Rightarrow> instant \<Rightarrow> table \<Rightarrow> string list" where
  "claim_ids 0 now t = []"
| "claim_ids (Suc n) now t = (case claim_id now t of None \<Rightarrow> [] | Some (i, t') \<Rightarrow> i # claim_ids n now t')"

lemma claim_up_cases:
  assumes "store_inv t"
  shows "line t = [] \<Longrightarrow> claim_id now t = None"
    and "line t = k # ks \<Longrightarrow> \<exists>t'. claim_id now t = Some (k, t') \<and> store_inv t' \<and> line t' = ks"
proof -
  obtain r t' where c: "ClaimNext up now t = (r, t')" by fastforce
  note C = ClaimNext_spec [OF assms c]
  have up: "r = Inl e \<Longrightarrow> e = ErrNotFound" for e
    using c by (auto simp: ClaimNext_def up_def scanOne_def split: list.splits sum.splits)
  show "claim_id now t = None" if "line t = []"
    using C that c by (cases r) (auto simp: claim_id_def)
  show "\<exists>t'. claim_id now t = Some (k, t') \<and> store_inv t' \<and> line t' = ks" if "line t = k # ks"
    using C that c up by (cases r) (auto simp: claim_id_def)
qed

interpretation jobline: claim_queue store_inv line "claim_id now"
  by unfold_locales (use claim_up_cases in blast)+

lemma claim_ids_eq: "claim_ids n now t = jobline.claims now n t"
  by (induction n arbitrary: t) (auto split: option.splits)

text \<open>
  Jobs run in line order: from any reachable table, \<open>n\<close> claims with a working database return
  exactly the first \<open>n\<close> waiting ids in line order, each once, and nothing after the line is empty.
\<close>

theorem claims_serve_line_in_order:
  assumes "run_events (store_exec m) es [] = Some t"
  shows "claim_ids n now t = take n (line t) \<and> distinct (claim_ids n now t)"
proof -
  have inv: "store_inv t" by (rule run_store_inv [OF assms])
  have "distinct (line t)"
    using queued_rows_distinct [OF inv] store_inv_inj [OF inv]
    by (auto simp: line_def distinct_map inj_on_def queued_set_def)
  then show ?thesis using jobline.claims_in_order [OF inv] by (simp add: claim_ids_eq)
qed

theorem claims_serve_line_in_order_witness:
  "\<exists>t. run_events (store_exec 3) [(up, 5, OpSubmit (demo_job ''a'')), (up, 6, OpSubmit (demo_job ''b'')), (up, 6, OpClaim), (up, 7, OpPreempt ''a'')] [] = Some t
     \<and> claim_ids 5 9 t = [''a'', ''b'']"
proof -
  let ?es = "[(up, 5, OpSubmit (demo_job ''a'')), (up, 6, OpSubmit (demo_job ''b'')), (up, 6, OpClaim), (up, 7, OpPreempt ''a'')]"
  obtain t where t: "run_events (store_exec 3) ?es [] = Some t" "line t = [''a'', ''b'']" by (simp add: store_eval)
  from claims_serve_line_in_order [OF t(1), of 5 9] t show ?thesis by simp
qed

lemma length_filter_queued_rows:
  "length (filter P (queued_rows t)) = affected (\<lambda>r. in_state StateQueued r \<and> P r) t"
proof -
  have "mset (filter P (queued_rows t)) = mset (filter P (filter (in_state StateQueued) t))"
    unfolding queued_rows_def by (metis mset_filter mset_sort)
  then have "length (filter P (queued_rows t)) = length (filter P (filter (in_state StateQueued) t))"
    by (metis size_mset)
  then show ?thesis by (simp add: affected_def conj_commute)
qed

lemma count_before_sorted:
  assumes "sorted (map f xs)" and "distinct (map f xs)" and "k < length xs"
  shows "length (filter (\<lambda>x. f x < f (xs ! k)) xs) = k"
  using assms
proof (induction xs arbitrary: k)
  case Nil
  then show ?case by simp
next
  case (Cons x xs)
  show ?case
  proof (cases k)
    case 0
    then have "filter (\<lambda>y. f y < f x) xs = []" using Cons.prems(1) by (auto simp: filter_empty_conv not_less)
    then show ?thesis using 0 by simp
  next
    case (Suc n)
    then have n: "n < length xs" using Cons.prems(3) by simp
    then have "f x \<le> f (xs ! n)" "f x \<noteq> f (xs ! n)" using Cons.prems(1,2) nth_mem [OF n] by auto
    then have "f x < f (xs ! n)" by simp
    then show ?thesis using Cons.IH [OF _ _ n] Cons.prems Suc by simp
  qed
qed

text \<open>
  C20. The position a consumer is told is its place in the line: for a reachable table and a working
  database, \<^verbatim>\<open>Position\<close> is the 1-based index of the id among the waiting Jobs, 0 for a Job that is not
  waiting, and \<^verbatim>\<open>ErrNotFound\<close> for an id that does not exist.
\<close>

theorem position_is_place_in_line:
  assumes "run_events (store_exec m) es [] = Some t"
  shows "(k < length (line t) \<longrightarrow> Position up (line t ! k) t = Inr (k + 1))
     \<and> (\<forall>j\<in>set t. JState j \<noteq> StateQueued \<longrightarrow> Position up (ID j) t = Inr 0)
     \<and> (i \<notin> ID ` set t \<longrightarrow> Position up i t = Inl ErrNotFound)"
proof -
  have inv: "store_inv t" by (rule run_store_inv [OF assms])
  have get: "Get up (ID j) t = Inr j" if "j \<in> set t" for j
    using scan_id(1) [OF inv, of "ID j" j] that by (simp add: Get_def up_def)
  have "Position up (line t ! k) t = Inr (k + 1)" if k: "k < length (line t)"
  proof -
    let ?L = "queued_rows t" and ?j = "queued_rows t ! k"
    have k': "k < length ?L" using k by (simp add: line_def)
    then have j: "?j \<in> queued_set t" "line t ! k = ID ?j" using nth_mem [OF k'] by (simp_all add: line_def)
    have hint: "PositionHint r = PositionHint ?j \<Longrightarrow> r = ?j" if "r \<in> queued_set t" for r
      using store_invD(3) [OF inv] that j(1) by (auto simp: inj_on_def)
    have "affected (\<lambda>r. in_state StateQueued r \<and> (PositionHint r < PositionHint ?j
        \<or> PositionHint r = PositionHint ?j \<and> CreatedAt r < CreatedAt ?j)) t
      = length (filter (\<lambda>r. PositionHint r < PositionHint ?j \<or> PositionHint r = PositionHint ?j \<and> CreatedAt r < CreatedAt ?j) ?L)"
      by (rule length_filter_queued_rows [symmetric])
    also have "\<dots> = length (filter (\<lambda>r. PositionHint r < PositionHint ?j) ?L)"
      using hint by (intro arg_cong [of _ _ length] filter_cong) auto
    also have "\<dots> = k"
      by (rule count_before_sorted [OF queued_rows_sorted queued_rows_distinct_hints [OF inv] k'])
    finally show ?thesis using j get [of ?j] by (simp add: Position_def queued_set_def up_def)
  qed
  moreover have "Position up (ID j) t = Inr 0" if "j \<in> set t" "JState j \<noteq> StateQueued" for j
    using get [OF that(1)] that(2) by (simp add: Position_def)
  moreover have "Position up i t = Inl ErrNotFound" if "i \<notin> ID ` set t"
    using scan_id(2) [OF inv, of i ErrNotFound] that by (auto simp: Position_def Get_def up_def)
  ultimately show ?thesis by blast
qed

theorem position_is_place_in_line_witness:
  "\<exists>t. run_events (store_exec 3) [(up, 5, OpSubmit (demo_job ''a'')), (up, 6, OpSubmit (demo_job ''b''))] [] = Some t
     \<and> Position up ''b'' t = Inr 2"
proof -
  let ?es = "[(up, 5, OpSubmit (demo_job ''a'')), (up, 6, OpSubmit (demo_job ''b''))]"
  obtain t where t: "run_events (store_exec 3) ?es [] = Some t" "line t = [''a'', ''b'']" by (simp add: store_eval)
  from position_is_place_in_line [OF t(1), of 1] t show ?thesis by simp
qed

section \<open>Round trips\<close>



end
