(* ===== verification/Job_Events.thy ===== *)
theory Job_Events
  imports Job_Store "HOL-Library.Sublist"
begin

text \<open>
  \<^verbatim>\<open>internal/job/events.go\<close>: the bus that fans Job events out to SSE subscribers. Every subscription
  has a channel of its own with a buffer of 16; a send to a full buffer is dropped. The channel of
  subscription \<open>n\<close> is known by \<open>n\<close>: its buffer, and whether it was closed.
\<close>

section \<open>Events and the bus\<close>

datatype EventType = EventState | EventProgress | EventPosition | EventDone

record Progress =
  Tokens :: int
  ElapsedMs :: int

record Event =
  EvType :: EventType
  EvState :: "JobState option"
  EvPosition :: nat
  EvProgress :: "Progress option"

definition chan_cap :: nat where "chan_cap = 16"

record bus =
  subs :: "string \<Rightarrow> nat list"     \<comment> \<open>the subscriptions of a Job, keys of \<^verbatim>\<open>b.subs[id]\<close>\<close>
  bnext :: nat
  bbuf :: "nat \<Rightarrow> Event list"
  bclosed :: "nat list"

definition newBus :: bus where
  "newBus = \<lparr>subs = (\<lambda>_. []), bnext = 0, bbuf = (\<lambda>_. []), bclosed = []\<rparr>"

definition subscribe :: "string \<Rightarrow> bus \<Rightarrow> nat \<times> bus" where
  "subscribe i b =
     (let sub = bnext b + 1 in
      (sub, b\<lparr>bnext := sub, subs := (subs b)(i := subs b i @ [sub]), bbuf := (bbuf b)(sub := [])\<rparr>))"

text \<open>\<open>None\<close> is the panic of closing a closed channel.\<close>

definition unsubscribe :: "string \<Rightarrow> nat \<Rightarrow> bus \<Rightarrow> bus option" where
  "unsubscribe i sub b =
     (if sub \<in> set (subs b i)
      then (if sub \<in> set (bclosed b) then None
            else Some (b\<lparr>subs := (subs b)(i := removeAll sub (subs b i)), bclosed := sub # bclosed b\<rparr>))
      else Some b)"

text \<open>One non-blocking send.\<close>

definition offer :: "Event \<Rightarrow> nat \<Rightarrow> bus \<Rightarrow> bus" where
  "offer ev sub b =
     (if length (bbuf b sub) < chan_cap then b\<lparr>bbuf := (bbuf b)(sub := bbuf b sub @ [ev])\<rparr> else b)"

definition publish :: "string \<Rightarrow> Event \<Rightarrow> bus \<Rightarrow> bus" where
  "publish i ev b = fold (offer ev) (subs b i) b"

text \<open>A receive from a subscription's channel: the oldest buffered event, if there is one.\<close>

definition receive :: "nat \<Rightarrow> bus \<Rightarrow> (Event \<times> bus) option" where
  "receive sub b = (case bbuf b sub of [] \<Rightarrow> None | ev # evs \<Rightarrow> Some (ev, b\<lparr>bbuf := (bbuf b)(sub := evs)\<rparr>))"

section \<open>What a publish does\<close>

definition bus_ok :: "bus \<Rightarrow> bool" where
  "bus_ok b \<longleftrightarrow>
     (\<forall>i. distinct (subs b i)) \<and> (\<forall>i j. i \<noteq> j \<longrightarrow> set (subs b i) \<inter> set (subs b j) = {})
     \<and> (\<forall>i. \<forall>n\<in>set (subs b i). n \<le> bnext b \<and> n \<notin> set (bclosed b))
     \<and> (\<forall>n\<in>set (bclosed b). n \<le> bnext b) \<and> (\<forall>n. length (bbuf b n) \<le> chan_cap)"

lemma offer_frame [simp]:
  "subs (offer ev n b) = subs b" "bnext (offer ev n b) = bnext b" "bclosed (offer ev n b) = bclosed b"
  by (simp_all add: offer_def)

lemma offer_buf:
  "bbuf (offer ev n b) k = (if k = n \<and> length (bbuf b k) < chan_cap then bbuf b k @ [ev] else bbuf b k)"
  by (simp add: offer_def)

lemma fold_offer:
  assumes "distinct ns"
  shows "subs (fold (offer ev) ns b) = subs b \<and> bnext (fold (offer ev) ns b) = bnext b
     \<and> bclosed (fold (offer ev) ns b) = bclosed b
     \<and> bbuf (fold (offer ev) ns b) k =
         (if k \<in> set ns \<and> length (bbuf b k) < chan_cap then bbuf b k @ [ev] else bbuf b k)"
  using assms by (induction ns arbitrary: b) (auto simp: offer_buf)

text \<open>The subscriptions of the Job get the event unless their buffer is full; nobody else is touched.\<close>

lemma publish_eq:
  assumes "bus_ok b"
  shows "subs (publish i ev b) = subs b" "bnext (publish i ev b) = bnext b" "bclosed (publish i ev b) = bclosed b"
    and "bbuf (publish i ev b) k =
      (if k \<in> set (subs b i) \<and> length (bbuf b k) < chan_cap then bbuf b k @ [ev] else bbuf b k)"
  using fold_offer [of "subs b i" ev b k] assms by (simp_all add: publish_def bus_ok_def)

section \<open>The bus as an event system\<close>

datatype bus_ev = BSub string | BUnsub string nat | BPub string Event | BRecv nat

text \<open>Beside the bus, what each subscription was sent, has received, and was denied.\<close>

record bus_sys =
  the_bus :: bus
  offered :: "nat \<Rightarrow> Event list"
  got :: "nat \<Rightarrow> Event list"
  missed :: "nat \<Rightarrow> Event list"
  bus_panic :: bool

definition pub_step :: "string \<Rightarrow> Event \<Rightarrow> bus_sys \<Rightarrow> bus_sys" where
  "pub_step i ev S =
     (let b = the_bus S in
      S\<lparr>the_bus := publish i ev b,
        offered := (\<lambda>n. if n \<in> set (subs b i) then offered S n @ [ev] else offered S n),
        missed := (\<lambda>n. if n \<in> set (subs b i) \<and> length (bbuf b n) \<ge> chan_cap then missed S n @ [ev] else missed S n)\<rparr>)"

fun bus_exec :: "bus_ev \<Rightarrow> bus_sys \<Rightarrow> bus_sys option" where
  "bus_exec (BSub i) S = Some (S\<lparr>the_bus := snd (subscribe i (the_bus S))\<rparr>)"
| "bus_exec (BUnsub i n) S = (case unsubscribe i n (the_bus S) of
     None \<Rightarrow> Some (S\<lparr>bus_panic := True\<rparr>) | Some b \<Rightarrow> Some (S\<lparr>the_bus := b\<rparr>))"
| "bus_exec (BPub i ev) S = Some (pub_step i ev S)"
| "bus_exec (BRecv n) S = (case receive n (the_bus S) of
     None \<Rightarrow> None | Some (ev, b) \<Rightarrow> Some (S\<lparr>the_bus := b, got := (got S)(n := got S n @ [ev])\<rparr>))"

definition bus_init :: bus_sys where
  "bus_init = \<lparr>the_bus = newBus, offered = (\<lambda>_. []), got = (\<lambda>_. []), missed = (\<lambda>_. []), bus_panic = False\<rparr>"

text \<open>What a subscription has or will get is part of what it was sent, in order, and all of it if nothing was denied.\<close>

definition stream_ok :: "bus_sys \<Rightarrow> nat \<Rightarrow> bool" where
  "stream_ok S n \<longleftrightarrow>
     subseq (got S n @ bbuf (the_bus S) n) (offered S n)
     \<and> length (offered S n) = length (got S n) + length (bbuf (the_bus S) n) + length (missed S n)
     \<and> (bnext (the_bus S) < n \<longrightarrow> offered S n = [])"

definition bus_inv :: "bus_sys \<Rightarrow> bool" where
  "bus_inv S \<longleftrightarrow> bus_ok (the_bus S) \<and> \<not> bus_panic S \<and> (\<forall>n. stream_ok S n)"

lemma subseq_snoc:
  assumes "subseq xs ys"
  shows "subseq (xs @ [z]) (ys @ [z])" "subseq xs (ys @ [z])"
proof -
  show "subseq (xs @ [z]) (ys @ [z])" using assms by (simp add: list_emb_append_mono)
  have "subseq (xs @ []) (ys @ [z])" using assms by (rule list_emb_append_mono) simp
  then show "subseq xs (ys @ [z])" by simp
qed

lemma bus_ok_known:
  assumes "bus_ok b"
  shows "n \<in> set (subs b i) \<Longrightarrow> n \<le> bnext b" "n \<in> set (bclosed b) \<Longrightarrow> n \<le> bnext b"
  using assms unfolding bus_ok_def by (meson, blast)

lemma bus_inv_pub:
  assumes "bus_inv S"
  shows "bus_inv (pub_step i ev S)"
proof -
  let ?b = "the_bus S"
  have ok: "bus_ok ?b" using assms by (simp add: bus_inv_def)
  note P = publish_eq [OF ok, of i ev]
  have "bus_ok (publish i ev ?b)" using ok unfolding bus_ok_def P(1-3) by (simp add: P(4))
  moreover have "stream_ok (pub_step i ev S) n" for n
  proof -
    have st: "stream_ok S n" using assms by (simp add: bus_inv_def)
    have new: "bnext ?b < n \<Longrightarrow> n \<notin> set (subs ?b i)"
      using bus_ok_known(1) [OF ok] by (meson not_le)
    have "subseq (got S n @ bbuf (publish i ev ?b) n) (offered (pub_step i ev S) n)"
      using st subseq_snoc [of "got S n @ bbuf ?b n" "offered S n" ev]
      by (simp add: stream_ok_def pub_step_def P(4) Let_def)
    then show ?thesis using st new by (auto simp: stream_ok_def pub_step_def P Let_def not_less)
  qed
  ultimately show ?thesis using assms by (simp add: bus_inv_def pub_step_def Let_def)
qed

lemma bus_inv_sub:
  assumes "bus_inv S"
  shows "bus_inv (S\<lparr>the_bus := snd (subscribe i (the_bus S))\<rparr>)"
proof -
  let ?b = "the_bus S" and ?n = "Suc (bnext (the_bus S))"
  have ok: "bus_ok ?b" and st: "\<And>n. stream_ok S n" using assms by (simp_all add: bus_inv_def)
  have old: "?n \<notin> set (subs ?b j)" "?n \<notin> set (bclosed ?b)" for j
    using bus_ok_known [OF ok] by (meson Suc_n_not_le_n)+
  have "bus_ok (snd (subscribe i ?b))"
    using ok old by (auto simp: bus_ok_def subscribe_def Let_def) (metis le_SucI)+
  moreover have "stream_ok (S\<lparr>the_bus := snd (subscribe i ?b)\<rparr>) n" for n
    using st [of n] by (auto simp: stream_ok_def subscribe_def Let_def)
  ultimately show ?thesis using assms by (simp add: bus_inv_def)
qed

lemma bus_inv_recv:
  assumes "bus_inv S" and "bbuf (the_bus S) n = ev # evs"
  shows "bus_inv (S\<lparr>the_bus := (the_bus S)\<lparr>bbuf := (bbuf (the_bus S))(n := evs)\<rparr>, got := (got S)(n := got S n @ [ev])\<rparr>)"
    (is "bus_inv ?S")
proof -
  have ok: "bus_ok (the_bus S)" and st: "\<And>k. stream_ok S k" using assms by (simp_all add: bus_inv_def)
  have "length (ev # evs) \<le> chan_cap" using ok assms(2) unfolding bus_ok_def by metis
  then have "bus_ok (the_bus ?S)" using ok by (simp add: bus_ok_def)
  moreover have "stream_ok ?S k" for k
    using st [of k] assms(2) by (cases "k = n") (simp_all add: stream_ok_def)
  ultimately show ?thesis using assms(1) by (simp add: bus_inv_def)
qed

lemma bus_ok_unsub:
  assumes "bus_ok b" and "n \<in> set (subs b i)"
  shows "bus_ok (b\<lparr>subs := (subs b)(i := removeAll n (subs b i)), bclosed := n # bclosed b\<rparr>)" (is "bus_ok ?c")
proof -
  have own: "n \<notin> set (subs b j)" if "j \<noteq> i" for j
    using assms that unfolding bus_ok_def by (metis disjoint_iff)
  have sub: "set (subs ?c j) = set (subs b j) - {n}" for j using own [of j] by auto
  show ?thesis
    unfolding bus_ok_def sub
  proof (intro conjI allI impI ballI)
    show "distinct (subs ?c j)" for j using assms(1) by (simp add: bus_ok_def distinct_removeAll)
    show "(set (subs b j) - {n}) \<inter> (set (subs b k) - {n}) = {}" if "j \<noteq> k" for j k
      using assms(1) that unfolding bus_ok_def by blast
    show "k \<le> bnext ?c" if "k \<in> set (subs b j) - {n}" for j k using bus_ok_known(1) [OF assms(1)] that by auto
    show "k \<notin> set (bclosed ?c)" if "k \<in> set (subs b j) - {n}" for j k
      using assms(1) that unfolding bus_ok_def by auto
    show "k \<le> bnext ?c" if "k \<in> set (bclosed ?c)" for k
      using bus_ok_known [OF assms(1)] assms(2) that by auto
    show "length (bbuf ?c k) \<le> chan_cap" for k using assms(1) unfolding bus_ok_def by simp
  qed
qed

lemma bus_inv_unsub:
  assumes "bus_inv S" and "bus_exec (BUnsub i n) S = Some S'"
  shows "bus_inv S'"
proof (cases "n \<in> set (subs (the_bus S) i)")
  case True
  then have "n \<notin> set (bclosed (the_bus S))" using assms(1) unfolding bus_inv_def bus_ok_def by blast
  with True assms bus_ok_unsub [OF _ True] show ?thesis
    by (auto simp: bus_inv_def stream_ok_def unsubscribe_def)
next
  case False
  with assms show ?thesis by (simp add: bus_inv_def stream_ok_def unsubscribe_def)
qed

lemma bus_exec_inv: "bus_inv S \<Longrightarrow> bus_exec e S = Some S' \<Longrightarrow> bus_inv S'"
  by (cases e) (auto simp: receive_def bus_inv_sub bus_inv_pub bus_inv_recv simp del: bus_exec.simps(2)
      dest: bus_inv_unsub split: list.splits)

lemma bus_init_inv: "bus_inv bus_init"
  by (simp add: bus_inv_def bus_init_def newBus_def bus_ok_def stream_ok_def)

interpretation sse: event_system bus_exec "\<lambda>S. S = bus_init" bus_inv
  by unfold_locales (auto intro: bus_init_inv bus_exec_inv)

section \<open>Properties\<close>

text \<open>
  C22. Live events arrive in order and never stall the publisher. In every run of subscriptions,
  publishes and receives: what a subscriber has received and still has buffered is a subsequence, in
  order, of what was published for its Job since it subscribed; at most 16 events wait; it is all of
  it unless an event found the buffer full; a publish always completes; and unsubscribing never
  closes a channel twice.
\<close>

theorem bus_delivers_in_order:
  assumes "run_events bus_exec es bus_init = Some S"
  shows "subseq (got S n @ bbuf (the_bus S) n) (offered S n) \<and> length (bbuf (the_bus S) n) \<le> 16
     \<and> (missed S n = [] \<longrightarrow> got S n @ bbuf (the_bus S) n = offered S n)
     \<and> (\<exists>S'. bus_exec (BPub i ev) S = Some S' \<and> (length (bbuf (the_bus S) n) < 16 \<longrightarrow> missed S' n = missed S n))
     \<and> \<not> bus_panic S"
proof -
  have inv: "bus_inv S" by (rule sse.run_inv [OF refl assms])
  then have st: "stream_ok S n" and ok: "bus_ok (the_bus S)" by (simp_all add: bus_inv_def)
  have "got S n @ bbuf (the_bus S) n = offered S n" if "missed S n = []"
    using st that unfolding stream_ok_def by (metis add.right_neutral length_append list.size(3) subseq_same_length)
  moreover have "length (bbuf (the_bus S) n) \<le> 16" using ok by (simp add: bus_ok_def chan_cap_def)
  ultimately show ?thesis using st inv
    by (auto simp: stream_ok_def bus_inv_def pub_step_def chan_cap_def Let_def)
qed

definition demo_tick :: "int \<Rightarrow> Event" where
  "demo_tick n = \<lparr>EvType = EventProgress, EvState = None, EvPosition = 0,
     EvProgress = Some \<lparr>Tokens = n, ElapsedMs = n\<rparr>\<rparr>"

definition done_event :: "JobState \<Rightarrow> Event" where
  "done_event s = \<lparr>EvType = EventDone, EvState = Some s, EvPosition = 0, EvProgress = None\<rparr>"

lemmas bus_eval = bus_init_def newBus_def subscribe_def pub_step_def publish_def offer_def receive_def
  chan_cap_def Let_def

theorem bus_delivers_in_order_witness:
  "\<exists>S. run_events bus_exec [BSub ''j'', BPub ''j'' (demo_tick 1), BPub ''j'' (demo_tick 2), BRecv 1] bus_init = Some S
     \<and> got S 1 = [demo_tick 1] \<and> got S 1 @ bbuf (the_bus S) 1 = offered S 1"
proof -
  let ?es = "[BSub ''j'', BPub ''j'' (demo_tick 1), BPub ''j'' (demo_tick 2), BRecv 1]"
  obtain S where S: "run_events bus_exec ?es bus_init = Some S" "got S 1 = [demo_tick 1]" "missed S 1 = []"
    by (simp add: bus_eval)
  from bus_delivers_in_order [OF S(1), of 1] S show ?thesis by blast
qed

text \<open>A run of publishes to, and a run of receives by, the one subscription of a Job.\<close>

lemma publish_run:
  assumes "bus_ok (the_bus S)" and "subs (the_bus S) i = [n]"
    and "length (bbuf (the_bus S) n) + length evs \<le> chan_cap"
  shows "\<exists>S'. run_events bus_exec (map (BPub i) evs) S = Some S' \<and> bus_ok (the_bus S') \<and> subs (the_bus S') i = [n]
     \<and> bbuf (the_bus S') n = bbuf (the_bus S) n @ evs \<and> offered S' n = offered S n @ evs \<and> got S' n = got S n"
  using assms
proof (induction evs arbitrary: S)
  case (Cons ev evs)
  let ?S = "pub_step i ev S" and ?b = "the_bus S"
  note P = publish_eq [OF Cons.prems(1), of i ev]
  have ok: "bus_ok (the_bus ?S)"
    using Cons.prems(1) unfolding bus_ok_def pub_step_def Let_def by (simp add: P)
  have S: "subs (the_bus ?S) i = [n]" "bbuf (the_bus ?S) n = bbuf ?b n @ [ev]"
    "offered ?S n = offered S n @ [ev]" "got ?S n = got S n"
    using Cons.prems(2,3) by (simp_all add: pub_step_def Let_def P)
  have "length (bbuf (the_bus ?S) n) + length evs \<le> chan_cap" using Cons.prems(3) S(2) by simp
  from Cons.IH [OF ok S(1) this] show ?case by (simp add: S)
qed simp

lemma receive_run:
  assumes "length (bbuf (the_bus S) n) = k"
  shows "\<exists>S'. run_events bus_exec (replicate k (BRecv n)) S = Some S' \<and> subs (the_bus S') = subs (the_bus S)
     \<and> bbuf (the_bus S') n = [] \<and> got S' n = got S n @ bbuf (the_bus S) n \<and> offered S' = offered S"
  using assms
proof (induction k arbitrary: S)
  case (Suc k)
  then obtain ev evs where b: "bbuf (the_bus S) n = ev # evs" by (cases "bbuf (the_bus S) n") auto
  let ?S = "S\<lparr>the_bus := (the_bus S)\<lparr>bbuf := (bbuf (the_bus S))(n := evs)\<rparr>, got := (got S)(n := got S n @ [ev])\<rparr>"
  have "length (bbuf (the_bus ?S) n) = k" using Suc.prems b by simp
  from Suc.IH [OF this] show ?case by (simp add: receive_def b)
qed simp

text \<open>
  The terminal event is subject to the same drop as a progress tick: when the buffer of a
  subscription holds 16 ticks it has not read, \<^verbatim>\<open>done\<close> is dropped, and the subscriber, although it is
  still subscribed and reads everything that is buffered, never gets it.
\<close>

theorem done_event_dropped:
  "\<exists>S. run_events bus_exec (BSub ''j'' # map (BPub ''j'') (map (\<lambda>n. demo_tick (int n)) [0..<16])
         @ BPub ''j'' (done_event StateSucceeded) # replicate 16 (BRecv 1)) bus_init = Some S
     \<and> subs (the_bus S) ''j'' = [1] \<and> bbuf (the_bus S) 1 = []
     \<and> last (offered S 1) = done_event StateSucceeded \<and> got S 1 = map (\<lambda>n. demo_tick (int n)) [0..<16]"
proof -
  let ?ts = "map (\<lambda>n. demo_tick (int n)) [0..<16]"
  obtain S1 where S1: "bus_exec (BSub ''j'') bus_init = Some S1" "bus_ok (the_bus S1)" "subs (the_bus S1) ''j'' = [1]"
    "bbuf (the_bus S1) 1 = []" "got S1 1 = []"
    using bus_inv_sub [OF bus_init_inv, of "''j''"]
    by (simp add: bus_inv_def) (simp add: bus_init_def newBus_def subscribe_def Let_def)
  have "length (bbuf (the_bus S1) 1) + length ?ts \<le> chan_cap" using S1(4) by (simp add: chan_cap_def)
  from publish_run [OF S1(2,3) this] obtain S2 where S2: "run_events bus_exec (map (BPub ''j'') ?ts) S1 = Some S2"
    "bus_ok (the_bus S2)" "subs (the_bus S2) ''j'' = [1]" "bbuf (the_bus S2) 1 = ?ts" "got S2 1 = []"
    unfolding S1(4,5) append_Nil by blast
  let ?S3 = "pub_step ''j'' (done_event StateSucceeded) S2"
  note P = publish_eq [OF S2(2), of "''j''" "done_event StateSucceeded"]
  have S3: "subs (the_bus ?S3) ''j'' = [1]" "bbuf (the_bus ?S3) 1 = ?ts" "got ?S3 1 = []"
    "last (offered ?S3 1) = done_event StateSucceeded"
    using S2(3-5) by (simp_all add: pub_step_def Let_def P chan_cap_def)
  have "length (bbuf (the_bus ?S3) 1) = 16" using S3(2) by simp
  from receive_run [OF this] obtain S4 where S4: "run_events bus_exec (replicate 16 (BRecv 1)) ?S3 = Some S4"
    "subs (the_bus S4) = subs (the_bus ?S3)" "bbuf (the_bus S4) 1 = []" "got S4 1 = ?ts" "offered S4 = offered ?S3"
    unfolding S3(2,3) append_Nil by blast
  have "run_events bus_exec (BSub ''j'' # map (BPub ''j'') ?ts @ BPub ''j'' (done_event StateSucceeded)
      # replicate 16 (BRecv 1)) bus_init = Some S4"
    using S1(1) S2(1) S4(1) by (simp add: run_events_append)
  with S4 S3 show ?thesis by metis
qed

end
