(* ===== verification/Job_Service.thy ===== *)
theory Job_Service
  imports Job_Store_Properties Job_Events
begin

text \<open>
  \<^verbatim>\<open>internal/job/service.go\<close>: the Job API used by the HTTP layer and the worker. A run of a Job has a
  number: it stands for the pointer to its \<^verbatim>\<open>runState\<close> and for the context its \<^verbatim>\<open>cancel\<close> aborts, so the
  two share one name space. \<open>s_recorded\<close> is what the metrics recorder was told and \<open>s_published\<close> what
  was published on the bus, newest first. JSON encoding of a Job's options is the argument \<open>marshal\<close>.
\<close>

section \<open>State\<close>

record runState =
  rs_startedAt :: instant
  rs_tokens :: int

record Service =
  s_store :: table
  s_bus :: bus
  s_maxAttempts :: int
  s_rec :: bool                             \<comment> \<open>a recorder is attached\<close>
  s_running :: "string \<Rightarrow> nat option"
  s_runs :: "nat \<Rightarrow> runState"
  s_cancelled :: "nat list"                 \<comment> \<open>contexts whose cancel was called\<close>
  s_recorded :: "(string \<times> duration) list"
  s_published :: "(string \<times> Event) list"

record 'v SubmitRequest =
  q_IdempotencyKey :: string
  q_Source :: string
  q_Owner :: string
  q_Model :: string
  q_Prompt :: string
  q_Options :: "(string \<times> 'v) list"

record Status =
  st_ID :: string
  st_State :: JobState
  st_Source :: string
  st_Owner :: string
  st_Attempts :: int
  st_Position :: nat
  st_Progress :: "Progress option"
  st_Error :: string
  st_CreatedAt :: instant
  st_FetchedAt :: "instant option"

definition NewService :: "table \<Rightarrow> int \<Rightarrow> Service" where
  "NewService t m =
     \<lparr>s_store = t, s_bus = newBus, s_maxAttempts = (if m \<le> 0 then DefaultMaxAttempts else m), s_rec = False,
      s_running = (\<lambda>_. None), s_runs = (\<lambda>_. \<lparr>rs_startedAt = 0, rs_tokens = 0\<rparr>), s_cancelled = [],
      s_recorded = [], s_published = []\<rparr>"

definition SetRecorder :: "bool \<Rightarrow> Service \<Rightarrow> Service" where
  "SetRecorder r s = s\<lparr>s_rec := r\<rparr>"

definition recordJob :: "string \<Rightarrow> duration \<Rightarrow> Service \<Rightarrow> Service" where
  "recordJob outcome run s = (if s_rec s then s\<lparr>s_recorded := (outcome, run) # s_recorded s\<rparr> else s)"

definition bus_publish :: "string \<Rightarrow> Event \<Rightarrow> Service \<Rightarrow> Service" where
  "bus_publish i ev s = s\<lparr>s_bus := publish i ev (s_bus s), s_published := (i, ev) # s_published s\<rparr>"

definition state_event :: "JobState \<Rightarrow> Event" where
  "state_event st = \<lparr>EvType = EventState, EvState = Some st, EvPosition = 0, EvProgress = None\<rparr>"

definition publishTerminal :: "string \<Rightarrow> JobState \<Rightarrow> Service \<Rightarrow> Service" where
  "publishTerminal i st s = bus_publish i (done_event st) (bus_publish i (state_event st) s)"

section \<open>Run-state bookkeeping\<close>

text \<open>\<open>n\<close> is the run's fresh number.\<close>

definition startRun :: "instant \<Rightarrow> string \<Rightarrow> nat \<Rightarrow> Service \<Rightarrow> Service" where
  "startRun now i n s =
     bus_publish i (state_event StateRunning)
       (s\<lparr>s_running := (s_running s)(i := Some n),
          s_runs := (s_runs s)(n := \<lparr>rs_startedAt = now, rs_tokens = 0\<rparr>)\<rparr>)"

definition endRun :: "string \<Rightarrow> Service \<Rightarrow> Service" where
  "endRun i s = s\<lparr>s_running := (s_running s)(i := None)\<rparr>"

definition elapsedMs :: "instant \<Rightarrow> nat \<Rightarrow> Service \<Rightarrow> int" where
  "elapsedMs now n s = milliseconds (now - rs_startedAt (s_runs s n))"

definition reportTokens :: "instant \<Rightarrow> string \<Rightarrow> nat \<Rightarrow> int \<Rightarrow> Service \<Rightarrow> Service" where
  "reportTokens now i n k s =
     bus_publish i \<lparr>EvType = EventProgress, EvState = None, EvPosition = 0,
        EvProgress = Some \<lparr>Tokens = k, ElapsedMs = elapsedMs now n s\<rparr>\<rparr>
       (s\<lparr>s_runs := (s_runs s)(n := (s_runs s n)\<lparr>rs_tokens := k\<rparr>)\<rparr>)"

definition progress :: "instant \<Rightarrow> string \<Rightarrow> Service \<Rightarrow> Progress option" where
  "progress now i s =
     (case s_running s i of
        None \<Rightarrow> None
      | Some n \<Rightarrow> Some \<lparr>Tokens = rs_tokens (s_runs s n), ElapsedMs = elapsedMs now n s\<rparr>)"

definition cancel_ctx :: "nat \<Rightarrow> Service \<Rightarrow> Service" where
  "cancel_ctx n s = s\<lparr>s_cancelled := n # s_cancelled s\<rparr>"

section \<open>API operations\<close>

definition request_params :: "((string \<times> 'v) list \<Rightarrow> string option) \<Rightarrow> 'v SubmitRequest \<Rightarrow> string option" where
  "request_params marshal req = (if 0 < length (q_Options req) then marshal (q_Options req) else Some [])"

definition request_job :: "string \<Rightarrow> instant \<Rightarrow> string \<Rightarrow> 'v SubmitRequest \<Rightarrow> Job" where
  "request_job uuid now params req =
     \<lparr>ID = uuid, IdempotencyKey = q_IdempotencyKey req, Source = q_Source req, Owner = q_Owner req,
      JState = StateQueued, Attempts = 0, Model = q_Model req, ParamsJSON = params,
      Prompt = q_Prompt req, Result = [], JError = [], PositionHint = 0, CreatedAt = now,
      StartedAt = None, FinishedAt = None, FetchedAt = None\<rparr>"

definition svc_Submit ::
  "((string \<times> 'v) list \<Rightarrow> string option) \<Rightarrow> string \<Rightarrow> driver \<Rightarrow> instant \<Rightarrow> 'v SubmitRequest \<Rightarrow> Service
     \<Rightarrow> (err + Job \<times> bool) \<times> Service" where
  "svc_Submit marshal uuid ok now req s =
     (case request_params marshal req of
        None \<Rightarrow> (Inl ErrMarshal, s)
      | Some params \<Rightarrow>
          (case Submit ok now (request_job uuid now params req) (s_store s) of
             (Inl e, t) \<Rightarrow> (Inl e, s\<lparr>s_store := t\<rparr>)
           | (Inr (stored, created), t) \<Rightarrow>
               (Inr (stored, created),
                if created then bus_publish (ID stored) (state_event StateQueued) (s\<lparr>s_store := t\<rparr>)
                else s\<lparr>s_store := t\<rparr>)))"

text \<open>\<^verbatim>\<open>Service.Get\<close>: a failing position query leaves the position out. Its driver calls follow those of \<^verbatim>\<open>store.Get\<close>.\<close>

definition svc_Get :: "driver \<Rightarrow> instant \<Rightarrow> string \<Rightarrow> Service \<Rightarrow> err + Status" where
  "svc_Get ok now i s =
     (case Get ok i (s_store s) of
        Inl e \<Rightarrow> Inl e
      | Inr j \<Rightarrow> Inr
          \<lparr>st_ID = ID j, st_State = JState j, st_Source = Source j, st_Owner = Owner j, st_Attempts = Attempts j,
           st_Position = (if JState j = StateQueued
             then (case Position (\<lambda>n. ok (Suc n)) i (s_store s) of Inl _ \<Rightarrow> 0 | Inr pos \<Rightarrow> pos) else 0),
           st_Progress = (if JState j = StateRunning then progress now i s else None),
           st_Error = JError j, st_CreatedAt = CreatedAt j, st_FetchedAt = FetchedAt j\<rparr>)"

definition svc_Result :: "driver \<Rightarrow> instant \<Rightarrow> string \<Rightarrow> Service \<Rightarrow> (err + string) \<times> Service" where
  "svc_Result ok now i s =
     (case Get ok i (s_store s) of
        Inl e \<Rightarrow> (Inl e, s)
      | Inr j \<Rightarrow>
          (if JState j \<noteq> StateSucceeded then (Inl ErrNotReady, s)
           else (Inr (Result j), s\<lparr>s_store := snd (StampFetched (\<lambda>n. ok (Suc n)) now i (s_store s))\<rparr>)))"

definition svc_List :: "driver \<Rightarrow> Filter \<Rightarrow> Service \<Rightarrow> err + Job list" where
  "svc_List ok f s = ListJobs ok f (s_store s)"

text \<open>
  \<^verbatim>\<open>Service.Cancel\<close> in its two halves: the durable write, and, when the Job is now CANCELED, the abort of
  its run, the terminal events and the metric. The worker may act between them.
\<close>

definition cancel_write :: "driver \<Rightarrow> instant \<Rightarrow> string \<Rightarrow> Service \<Rightarrow> (err + Job) \<times> Service" where
  "cancel_write ok now i s = (case Cancel ok now i (s_store s) of (r, t) \<Rightarrow> (r, s\<lparr>s_store := t\<rparr>))"

definition cancel_finish :: "instant \<Rightarrow> string \<Rightarrow> Service \<Rightarrow> Service" where
  "cancel_finish now i s =
     (let (run, s1) = (case s_running s i of
            None \<Rightarrow> (0, s)
          | Some n \<Rightarrow> (now - rs_startedAt (s_runs s n), cancel_ctx n s))
      in recordJob ''canceled'' run (publishTerminal i StateCanceled s1))"

definition svc_Cancel :: "driver \<Rightarrow> instant \<Rightarrow> string \<Rightarrow> Service \<Rightarrow> (err + Job) \<times> Service" where
  "svc_Cancel ok now i s =
     (case cancel_write ok now i s of
        (Inl e, s1) \<Rightarrow> (Inl e, s1)
      | (Inr j, s1) \<Rightarrow> (Inr j, if JState j = StateCanceled then cancel_finish now i s1 else s1))"

definition svc_Counts :: "driver \<Rightarrow> Service \<Rightarrow> err + Counts" where
  "svc_Counts ok s = CountJobs ok (s_store s)"

definition svc_Recover :: "driver \<Rightarrow> instant \<Rightarrow> Service \<Rightarrow> (err + unit) \<times> Service" where
  "svc_Recover ok now s =
     (case RecoverRunning ok now (s_maxAttempts s) (s_store s) of
        (Inl e, t) \<Rightarrow> (Inl e, s\<lparr>s_store := t\<rparr>)
      | (Inr _, t) \<Rightarrow> (Inr (), s\<lparr>s_store := t\<rparr>))"

definition svc_Subscribe :: "string \<Rightarrow> Service \<Rightarrow> nat \<times> Service" where
  "svc_Subscribe i s = (case subscribe i (s_bus s) of (sub, b) \<Rightarrow> (sub, s\<lparr>s_bus := b\<rparr>))"

definition pruneOnce :: "driver \<Rightarrow> instant \<Rightarrow> duration \<Rightarrow> duration \<Rightarrow> Service \<Rightarrow> Service" where
  "pruneOnce ok now fetchedGrace hardCap s = s\<lparr>s_store := snd (Prune ok fetchedGrace hardCap now (s_store s))\<rparr>"

text \<open>One sweep at once, then one per tick until the context ends; a tick is its moment and the driver's behaviour.\<close>

definition RunPrune :: "duration \<Rightarrow> duration \<Rightarrow> driver \<times> instant \<Rightarrow> (driver \<times> instant) list \<Rightarrow> Service \<Rightarrow> Service" where
  "RunPrune fetchedGrace hardCap first ticks s =
     fold (\<lambda>(ok, now). pruneOnce ok now fetchedGrace hardCap) (first # ticks) s"

definition isCanceled :: "driver \<Rightarrow> string \<Rightarrow> Service \<Rightarrow> bool" where
  "isCanceled ok i s = (case Get ok i (s_store s) of Inl _ \<Rightarrow> False | Inr j \<Rightarrow> JState j = StateCanceled)"

section \<open>What the operations touch\<close>

lemma recordJob_frame [simp]:
  "s_store (recordJob x d s) = s_store s" "s_running (recordJob x d s) = s_running s"
  "s_cancelled (recordJob x d s) = s_cancelled s" "s_published (recordJob x d s) = s_published s"
  "s_maxAttempts (recordJob x d s) = s_maxAttempts s"
  by (simp_all add: recordJob_def)

lemma bus_publish_frame [simp]:
  "s_store (bus_publish i ev s) = s_store s" "s_running (bus_publish i ev s) = s_running s"
  "s_cancelled (bus_publish i ev s) = s_cancelled s" "s_published (bus_publish i ev s) = (i, ev) # s_published s"
  "s_maxAttempts (bus_publish i ev s) = s_maxAttempts s"
  by (simp_all add: bus_publish_def)

lemma publishTerminal_frame [simp]:
  "s_store (publishTerminal i st s) = s_store s" "s_running (publishTerminal i st s) = s_running s"
  "s_cancelled (publishTerminal i st s) = s_cancelled s"
  "s_published (publishTerminal i st s) = (i, done_event st) # (i, state_event st) # s_published s"
  "s_maxAttempts (publishTerminal i st s) = s_maxAttempts s"
  by (simp_all add: publishTerminal_def)

lemma run_frame [simp]:
  "s_store (startRun now i n s) = s_store s" "s_store (endRun i s) = s_store s"
  "s_store (reportTokens now i n k s) = s_store s" "s_store (cancel_ctx n s) = s_store s"
  "s_running (startRun now i n s) = (s_running s)(i := Some n)" "s_running (endRun i s) = (s_running s)(i := None)"
  "s_running (reportTokens now i n k s) = s_running s" "s_running (cancel_ctx n s) = s_running s"
  "s_cancelled (startRun now i n s) = s_cancelled s" "s_cancelled (endRun i s) = s_cancelled s"
  "s_cancelled (reportTokens now i n k s) = s_cancelled s" "s_cancelled (cancel_ctx n s) = n # s_cancelled s"
  "s_published (startRun now i n s) = (i, state_event StateRunning) # s_published s"
  "s_published (endRun i s) = s_published s" "s_published (cancel_ctx n s) = s_published s"
  "s_maxAttempts (startRun now i n s) = s_maxAttempts s" "s_maxAttempts (endRun i s) = s_maxAttempts s"
  "s_maxAttempts (reportTokens now i n k s) = s_maxAttempts s" "s_maxAttempts (cancel_ctx n s) = s_maxAttempts s"
  by (simp_all add: startRun_def endRun_def reportTokens_def cancel_ctx_def)

lemma reportTokens_published:
  "\<exists>ev. s_published (reportTokens now i n k s) = (i, ev) # s_published s \<and> EvType ev = EventProgress"
  by (simp add: reportTokens_def)

lemma cancel_finish_frame [simp]:
  "s_store (cancel_finish now i s) = s_store s" "s_running (cancel_finish now i s) = s_running s"
  "s_published (cancel_finish now i s) = (i, done_event StateCanceled) # (i, state_event StateCanceled) # s_published s"
  "s_maxAttempts (cancel_finish now i s) = s_maxAttempts s"
  "s_cancelled (cancel_finish now i s) = (case s_running s i of None \<Rightarrow> s_cancelled s | Some n \<Rightarrow> n # s_cancelled s)"
  by (simp_all add: cancel_finish_def split: option.splits)

lemma event_types [simp]:
  "EvType (state_event st) = EventState" "EvType (done_event st) = EventDone" "EvState (done_event st) = Some st"
  by (simp_all add: state_event_def done_event_def)

end
