(* ===== verification/Job_Worker.thy ===== *)
theory Job_Worker
  imports Job_Service
begin

text \<open>
  \<^verbatim>\<open>internal/job/worker.go\<close>: the loop that drains the Job queue through the GPU gate, as an event system.
  Every event is one access of the worker, of its monitor goroutine or of an API call to what they
  share; the scheduler, the yield controller, the generator and the clock are the environment, free
  to act at any moment.
\<close>

section \<open>The worker's state\<close>

text \<open>One run of a Job: the Job as claimed, its context, the serve context it watches, and its monitor.\<close>

record run =
  r_job :: Job
  r_ctx :: nat
  r_serve :: nat
  r_start :: instant
  r_preempted :: bool
  r_mon :: bool

text \<open>Why an aborted generation goes back to the queue or counts as a failure.\<close>

datatype cause = CShutdown | CGaming | CInteractive | CFail

text \<open>Where the loop stands. \<open>WGenDone\<close> carries the error text or the generated text.\<close>

datatype wpc =
    WTop | WSleep | WPeek | WAcquire | WHeld | WClaim
  | WStart Job
  | WServe Job nat
  | WGen run
  | WGenDone run "string + string"
  | WClassify run string
  | WWrite run cause string
  | WEnd run
  | WStopped

text \<open>
  The whole: the service, the loop, whether the worker holds a GPU slot, its shutdown context, the
  yield controller's answers, the next free context number, the cancels whose second half is due, and
  two records for the properties: the ids ever submitted and the ids whose last write failed.
\<close>

record job_sys =
  svc :: Service
  w :: wpc
  slot :: bool
  w_done :: bool
  yielding :: bool
  serve_now :: nat
  serve_closed :: "nat list"
  next_ctx :: nat
  quantum :: duration
  due :: "string list"
  used :: "string list"
  orphans :: "string list"

definition NewWorker :: "Service \<Rightarrow> duration \<Rightarrow> job_sys" where
  "NewWorker s q =
     \<lparr>svc = s, w = WTop, slot = False, w_done = False, yielding = False, serve_now = 0, serve_closed = [],
      next_ctx = 0, quantum = (if q \<le> 0 then 10 * second else q), due = [], used = [], orphans = []\<rparr>"

section \<open>Decisions\<close>

definition shouldPreempt :: "duration \<Rightarrow> instant \<Rightarrow> instant \<Rightarrow> nat \<Rightarrow> bool" where
  "shouldPreempt q start now interactive \<longleftrightarrow> now - start \<ge> q \<and> interactive > 0"

definition isClosed :: "nat \<Rightarrow> job_sys \<Rightarrow> bool" where
  "isClosed c S \<longleftrightarrow> c \<in> set (serve_closed S)"

text \<open>The \<^verbatim>\<open>switch\<close> after an aborted generation, below its first case.\<close>

definition classify :: "job_sys \<Rightarrow> run \<Rightarrow> cause" where
  "classify S r =
     (if w_done S then CShutdown
      else if isClosed (r_serve r) S then CGaming
      else if r_preempted r then CInteractive
      else CFail)"

definition decodeOptions :: "(string \<Rightarrow> 'o option) \<Rightarrow> string \<Rightarrow> 'o option" where
  "decodeOptions unmarshal paramsJSON = (if paramsJSON = [] then None else unmarshal paramsJSON)"

definition jobCtx_done :: "job_sys \<Rightarrow> run \<Rightarrow> bool" where
  "jobCtx_done S r \<longleftrightarrow> w_done S \<or> r_ctx r \<in> set (s_cancelled (svc S))"

section \<open>Terminal writes\<close>

text \<open>Each returns whether the database refused the write, and the service afterwards.\<close>

definition refused :: "(err + 'a) \<Rightarrow> bool" where
  "refused r \<longleftrightarrow> r = Inl ErrDb"

definition run_time :: "instant \<Rightarrow> run \<Rightarrow> Service \<Rightarrow> duration" where
  "run_time now r s = now - rs_startedAt (s_runs s (r_ctx r))"

definition finish_succeed :: "driver \<Rightarrow> instant \<Rightarrow> run \<Rightarrow> string \<Rightarrow> Service \<Rightarrow> bool \<times> Service" where
  "finish_succeed ok now r text s =
     (let i = ID (r_job r); (res, t) = Succeed ok now i text (s_store s); s1 = s\<lparr>s_store := t\<rparr>
      in (refused res,
          case res of
            Inl _ \<Rightarrow> s1
          | Inr _ \<Rightarrow> recordJob ''succeeded'' (run_time now r s) (publishTerminal i StateSucceeded s1)))"

definition requeue :: "driver \<Rightarrow> string \<Rightarrow> Service \<Rightarrow> bool \<times> Service" where
  "requeue ok i s =
     (let (res, t) = Preempt ok i (s_store s); s1 = s\<lparr>s_store := t\<rparr>
      in (refused res,
          case res of Inl _ \<Rightarrow> s1 | Inr _ \<Rightarrow> bus_publish i (state_event StateQueued) s1))"

definition finish_fail :: "driver \<Rightarrow> instant \<Rightarrow> run \<Rightarrow> string \<Rightarrow> Service \<Rightarrow> bool \<times> Service" where
  "finish_fail ok now r msg s =
     (let i = ID (r_job r); (res, t) = FailOrRetry ok now i msg (s_maxAttempts s) (s_store s); s1 = s\<lparr>s_store := t\<rparr>
      in (refused res,
          case res of
            Inl _ \<Rightarrow> s1
          | Inr True \<Rightarrow> recordJob ''failed'' (run_time now r s) (publishTerminal i StateFailed s1)
          | Inr False \<Rightarrow> recordJob ''retried'' (run_time now r s) (bus_publish i (state_event StateQueued) s1)))"

definition finish_abort :: "driver \<Rightarrow> instant \<Rightarrow> run \<Rightarrow> cause \<Rightarrow> string \<Rightarrow> Service \<Rightarrow> bool \<times> Service" where
  "finish_abort ok now r c msg s =
     (case c of
        CShutdown \<Rightarrow> requeue ok (ID (r_job r)) s
      | CFail \<Rightarrow> finish_fail ok now r msg s
      | _ \<Rightarrow> (case requeue ok (ID (r_job r)) s of
               (x, s1) \<Rightarrow> (x, recordJob ''preempted'' (run_time now r s) s1)))"

text \<open>The write of a run and its record of a refusal.\<close>

definition after_write :: "bool \<times> Service \<Rightarrow> run \<Rightarrow> job_sys \<Rightarrow> job_sys" where
  "after_write p r S =
     (case p of (x, s) \<Rightarrow> S\<lparr>svc := s, w := WEnd r, orphans := (if x then ID (r_job r) # orphans S else orphans S)\<rparr>)"

section \<open>Events\<close>

datatype 'v job_ev =
    ETop | ESleep bool | EPeek driver | EAcquire bool | EHeld | EClaim driver instant
  | EStart instant | EServe instant | ETokens instant int
  | EMonDone | EMonServe | EMonTick instant nat
  | EGen "string + string" | EFinish driver instant | EClassify | EWrite driver instant | EEnd
  | ESubmit string driver instant "'v SubmitRequest" | ECancel driver instant string | ECancelFin instant string
  | EResult driver instant string | EPrune driver instant duration duration
  | EYieldOn | EYieldOff | EShutdown | ERestart driver instant

text \<open>\<^verbatim>\<open>Worker.Run\<close> and \<^verbatim>\<open>Worker.runNext\<close>, up to the claim.\<close>

definition loop_step :: "'v job_ev \<Rightarrow> job_sys \<Rightarrow> job_sys option" where
  "loop_step e S =
     (case (w S, e) of
        (WTop, ETop) \<Rightarrow> Some (S\<lparr>w := (if w_done S then WStopped else if yielding S then WSleep else WPeek)\<rparr>)
      | (WSleep, ESleep expired) \<Rightarrow>
          (if expired then Some (S\<lparr>w := WTop\<rparr>) else if w_done S then Some (S\<lparr>w := WStopped\<rparr>) else None)
      | (WPeek, EPeek ok) \<Rightarrow> Some (S\<lparr>w :=
          (case HasQueued ok (s_store (svc S)) of
             Inl _ \<Rightarrow> (if w_done S then WStopped else WSleep)
           | Inr has \<Rightarrow> (if has then WAcquire else WSleep))\<rparr>)
      | (WAcquire, EAcquire granted) \<Rightarrow> Some (if granted then S\<lparr>w := WHeld, slot := True\<rparr> else S\<lparr>w := WSleep\<rparr>)
      | (WHeld, EHeld) \<Rightarrow> Some (if yielding S then S\<lparr>w := WSleep, slot := False\<rparr> else S\<lparr>w := WClaim\<rparr>)
      | (WClaim, EClaim ok now) \<Rightarrow>
          (case ClaimNext ok now (s_store (svc S)) of
             (Inl _, t) \<Rightarrow> Some (S\<lparr>svc := (svc S)\<lparr>s_store := t\<rparr>, w := WSleep, slot := False\<rparr>)
           | (Inr j, t) \<Rightarrow> Some (S\<lparr>svc := (svc S)\<lparr>s_store := t\<rparr>, w := WStart j\<rparr>))
      | _ \<Rightarrow> None)"

text \<open>\<^verbatim>\<open>Worker.runJob\<close>. The run ends with \<^verbatim>\<open>endRun\<close>, the context's cancel and the release of the slot.\<close>

definition run_step :: "'v job_ev \<Rightarrow> job_sys \<Rightarrow> job_sys option" where
  "run_step e S =
     (case (w S, e) of
        (WStart j, EStart now) \<Rightarrow> Some (S\<lparr>svc := startRun now (ID j) (next_ctx S) (svc S), w := WServe j (next_ctx S),
            next_ctx := Suc (next_ctx S)\<rparr>)
      | (WServe j n, EServe now) \<Rightarrow> Some (S\<lparr>w := WGen \<lparr>r_job = j, r_ctx = n, r_serve = serve_now S, r_start = now,
            r_preempted = False, r_mon = True\<rparr>\<rparr>)
      | (WGen r, ETokens now k) \<Rightarrow> Some (S\<lparr>svc := reportTokens now (ID (r_job r)) (r_ctx r) k (svc S)\<rparr>)
      | (WGen r, EGen res) \<Rightarrow> Some (S\<lparr>w := WGenDone r res\<rparr>)
      | (WGenDone r (Inr text), EFinish ok now) \<Rightarrow> Some (after_write (finish_succeed ok now r text (svc S)) r S)
      | (WGenDone r (Inl msg), EFinish ok now) \<Rightarrow>
          Some (S\<lparr>w := (if isCanceled ok (ID (r_job r)) (svc S) then WEnd r else WClassify r msg)\<rparr>)
      | (WClassify r msg, EClassify) \<Rightarrow> Some (S\<lparr>w := WWrite r (classify S r) msg\<rparr>)
      | (WWrite r c msg, EWrite ok now) \<Rightarrow> Some (after_write (finish_abort ok now r c msg (svc S)) r S)
      | (WEnd r, EEnd) \<Rightarrow> Some (S\<lparr>svc := cancel_ctx (r_ctx r) (endRun (ID (r_job r)) (svc S)), w := WTop, slot := False\<rparr>)
      | _ \<Rightarrow> None)"

text \<open>
  \<^verbatim>\<open>Worker.monitor\<close>, one turn of its \<^verbatim>\<open>select\<close>; a tick and an interactive wake-up make the same check
  against the number of interactive waiters. It acts until the worker has read its verdict.
\<close>

definition mon_turn :: "'v job_ev \<Rightarrow> job_sys \<Rightarrow> run \<Rightarrow> (run \<times> bool) option" where
  "mon_turn e S r =
     (if \<not> r_mon r then None
      else case e of
        EMonDone \<Rightarrow> (if jobCtx_done S r then Some (r\<lparr>r_mon := False\<rparr>, False) else None)
      | EMonServe \<Rightarrow> (if r_serve r \<in> set (serve_closed S) then Some (r\<lparr>r_mon := False\<rparr>, True) else None)
      | EMonTick now interactive \<Rightarrow>
          (if shouldPreempt (quantum S) (r_start r) now interactive
           then Some (r\<lparr>r_preempted := True, r_mon := False\<rparr>, True) else Some (r, False))
      | _ \<Rightarrow> None)"

definition set_run :: "wpc \<Rightarrow> run \<Rightarrow> wpc option" where
  "set_run p r =
     (case p of WGen _ \<Rightarrow> Some (WGen r) | WGenDone _ res \<Rightarrow> Some (WGenDone r res)
      | WClassify _ msg \<Rightarrow> Some (WClassify r msg) | _ \<Rightarrow> None)"

definition cur_run :: "wpc \<Rightarrow> run option" where
  "cur_run p =
     (case p of WGen r \<Rightarrow> Some r | WGenDone r _ \<Rightarrow> Some r | WClassify r _ \<Rightarrow> Some r | _ \<Rightarrow> None)"

definition mon_step :: "'v job_ev \<Rightarrow> job_sys \<Rightarrow> job_sys option" where
  "mon_step e S =
     (case cur_run (w S) of
        None \<Rightarrow> None
      | Some r \<Rightarrow> (case mon_turn e S r of
          None \<Rightarrow> None
        | Some (r', abort) \<Rightarrow> map_option (\<lambda>p. S\<lparr>w := p,
            svc := (if abort then cancel_ctx (r_ctx r) (svc S) else svc S)\<rparr>) (set_run (w S) r')))"

text \<open>The API calls and the environment. A restart opens the same database and runs the recovery sweep.\<close>

definition env_step :: "((string \<times> 'v) list \<Rightarrow> string option) \<Rightarrow> 'v job_ev \<Rightarrow> job_sys \<Rightarrow> job_sys option" where
  "env_step marshal e S =
     (case e of
        ESubmit uuid ok now req \<Rightarrow>
          (if uuid \<in> set (used S) then None
           else Some (S\<lparr>svc := snd (svc_Submit marshal uuid ok now req (svc S)), used := uuid # used S\<rparr>))
      | ECancel ok now i \<Rightarrow>
          (case cancel_write ok now i (svc S) of
             (res, s) \<Rightarrow> Some (S\<lparr>svc := s, due := (case res of
               Inl _ \<Rightarrow> due S | Inr j \<Rightarrow> (if JState j = StateCanceled then i # due S else due S))\<rparr>))
      | ECancelFin now i \<Rightarrow>
          (if i \<in> set (due S) then Some (S\<lparr>svc := cancel_finish now i (svc S), due := remove1 i (due S)\<rparr>) else None)
      | EResult ok now i \<Rightarrow> Some (S\<lparr>svc := snd (svc_Result ok now i (svc S))\<rparr>)
      | EPrune ok now g h \<Rightarrow> Some (S\<lparr>svc := pruneOnce ok now g h (svc S)\<rparr>)
      | EYieldOn \<Rightarrow> Some (S\<lparr>yielding := True, serve_closed := serve_now S # serve_closed S\<rparr>)
      | EYieldOff \<Rightarrow> Some (S\<lparr>yielding := False, serve_now := Suc (serve_now S)\<rparr>)
      | EShutdown \<Rightarrow> Some (S\<lparr>w_done := True\<rparr>)
      | ERestart ok now \<Rightarrow>
          (case svc_Recover ok now (SetRecorder True (NewService (s_store (svc S)) (s_maxAttempts (svc S)))) of
             (Inl _, s) \<Rightarrow> None
           | (Inr _, s) \<Rightarrow> Some ((NewWorker s (quantum S))\<lparr>used := used S\<rparr>))
      | _ \<Rightarrow> None)"

definition job_exec :: "((string \<times> 'v) list \<Rightarrow> string option) \<Rightarrow> 'v job_ev \<Rightarrow> job_sys \<Rightarrow> job_sys option" where
  "job_exec marshal e S =
     (case loop_step e S of
        Some S' \<Rightarrow> Some S'
      | None \<Rightarrow> (case run_step e S of
          Some S' \<Rightarrow> Some S'
        | None \<Rightarrow> (case mon_step e S of Some S' \<Rightarrow> Some S' | None \<Rightarrow> env_step marshal e S)))"

end
