(* ===== verification/Job_Worker_Inv.thy ===== *)
theory Job_Worker_Inv
  imports Job_Worker
begin

text \<open>
  The invariant of the Job service with its worker. Only the states of the rows matter to it, so the
  effect of every store operation is first stated on the map from ids to row states.
\<close>

section \<open>Row states\<close>

definition states :: "table \<Rightarrow> string \<Rightarrow> JobState set" where
  "states t i = JState ` {j \<in> set t. ID j = i}"

lemma states_iff: "s \<in> states t i \<longleftrightarrow> (\<exists>j\<in>set t. ID j = i \<and> JState j = s)"
  by (auto simp: states_def)

lemma states_row: "store_inv t \<Longrightarrow> j \<in> set t \<Longrightarrow> states t (ID j) = {JState j}"
  using store_inv_inj by (fastforce simp: states_def)

lemma states_put:
  assumes "store_inv t" and "j \<in> set t" and "ID j' = ID j"
  shows "states (put j j' t) = (states t)(ID j := {JState j'})"
proof
  fix i
  have "ID r = ID j \<Longrightarrow> r = j" if "r \<in> set t" for r using store_inv_inj [OF assms(1) that assms(2)] by simp
  then show "states (put j j' t) i = ((states t)(ID j := {JState j'})) i"
    using assms(3) by (auto simp: states_def set_put [OF assms(2)])
qed

lemma states_snoc: "states t (ID row) = {} \<Longrightarrow> states (t @ [row]) = (states t)(ID row := {JState row})"
  by (rule ext) (auto simp: states_def)

lemma Submit_states:
  assumes "store_inv t" and "Submit ok now j t = (r, t')" and "states t (ID j) = {}"
  shows "store_inv t' \<and> (case r of
       Inr (j', True) \<Rightarrow> states t' = (states t)(ID j := {StateQueued}) \<and> ID j' = ID j
     | _ \<Rightarrow> t' = t)"
proof -
  note S = Submit_spec [OF assms(1,2)]
  show ?thesis using S assms(1,3) states_snoc [of t] by (auto split: sum.splits bool.splits)
qed

lemma ClaimNext_states:
  assumes "store_inv t" and "ClaimNext ok now t = (r, t')"
  shows "store_inv t' \<and> (case r of
       Inl _ \<Rightarrow> t' = t
     | Inr j' \<Rightarrow> states t (ID j') = {StateQueued} \<and> states t' = (states t)(ID j' := {StateRunning}))"
proof (cases r)
  case (Inl e)
  then show ?thesis using ClaimNext_spec [OF assms] assms(1) by simp
next
  case (Inr j')
  note C = ClaimNext_spec [OF assms, unfolded Inr, simplified]
  then obtain j where j: "j \<in> queued_set t" "ID j = ID j'" "t' = put j j' t" by blast
  then have "j \<in> set t" "JState j = StateQueued" by (simp_all add: queued_set_def)
  then show ?thesis using C j Inr states_row [OF assms(1), of j] states_put [OF assms(1), of j j'] by simp
qed

lemma guarded_err: "mustAffect (affected (\<lambda>r. has_id i r \<and> in_state StateRunning r) t) = Inl e
    \<Longrightarrow> StateRunning \<notin> states t i"
  using affected_pos [of "\<lambda>r. has_id i r \<and> in_state StateRunning r" t]
  by (auto simp: mustAffect_def has_id_def in_state_def states_iff split: if_splits)

lemma Succeed_states:
  assumes "store_inv t" and "Succeed ok now i text t = (r, t')"
  shows "store_inv t' \<and> (case r of
       Inl e \<Rightarrow> t' = t \<and> (e \<noteq> ErrDb \<longrightarrow> StateRunning \<notin> states t i)
     | Inr _ \<Rightarrow> states t i = {StateRunning} \<and> states t' = (states t)(i := {StateSucceeded}))"
proof (cases r)
  case (Inl e)
  then have "e \<noteq> ErrDb \<Longrightarrow> StateRunning \<notin> states t i"
    using assms(2) guarded_err by (auto simp: Succeed_def Let_def split: if_splits)
  then show ?thesis using Succeed_spec [OF assms] Inl assms(1) by simp
next
  case (Inr x)
  note C = Succeed_spec [OF assms, unfolded Inr, simplified]
  then obtain j where j: "j \<in> set t" "ID j = i" "JState j = StateRunning"
    "t' = put j (j\<lparr>JState := StateSucceeded, Result := text, FinishedAt := Some now, JError := []\<rparr>) t" by blast
  then show ?thesis using C Inr states_row [OF assms(1) j(1)] states_put [OF assms(1) j(1)] by simp
qed

lemma Preempt_states:
  assumes "store_inv t" and "Preempt ok i t = (r, t')"
  shows "store_inv t' \<and> (case r of
       Inl e \<Rightarrow> t' = t \<and> (e \<noteq> ErrDb \<longrightarrow> StateRunning \<notin> states t i)
     | Inr _ \<Rightarrow> states t i = {StateRunning} \<and> states t' = (states t)(i := {StateQueued}))"
proof (cases r)
  case (Inl e)
  then have "e \<noteq> ErrDb \<Longrightarrow> StateRunning \<notin> states t i"
    using assms(2) guarded_err by (auto simp: Preempt_def Let_def split: if_splits)
  then show ?thesis using Preempt_spec [OF assms] Inl assms(1) by simp
next
  case (Inr x)
  note C = Preempt_spec [OF assms, unfolded Inr, simplified]
  then obtain j where j: "j \<in> set t" "ID j = i" "JState j = StateRunning"
    "t' = put j (j\<lparr>JState := StateQueued, StartedAt := None, PositionHint := front_hint t\<rparr>) t" by blast
  then show ?thesis using C Inr states_row [OF assms(1) j(1)] states_put [OF assms(1) j(1)] by simp
qed

lemma FailOrRetry_err:
  assumes "store_inv t" and "FailOrRetry ok now i msg m t = (Inl e, t')" and "e \<noteq> ErrDb"
  shows "StateRunning \<notin> states t i"
proof (cases "scanOne (filter (has_id i) t)")
  case (Inl x)
  then show ?thesis using scan_id(2) [OF assms(1)] by (auto simp: states_iff)
next
  case (Inr j)
  then have "j \<in> set t" "ID j = i" using scan_id(1) [OF assms(1)] by auto
  moreover have "JState j \<noteq> StateRunning"
    using assms(2,3) Inr by (auto simp: FailOrRetry_def Let_def split: if_splits)
  ultimately show ?thesis using states_row [OF assms(1)] by auto
qed

lemma FailOrRetry_states:
  assumes "store_inv t" and "FailOrRetry ok now i msg m t = (r, t')"
  shows "store_inv t' \<and> (case r of
       Inl e \<Rightarrow> t' = t \<and> (e \<noteq> ErrDb \<longrightarrow> StateRunning \<notin> states t i)
     | Inr failed \<Rightarrow> states t i = {StateRunning}
         \<and> states t' = (states t)(i := {if failed then StateFailed else StateQueued}))"
proof (cases r)
  case (Inl e)
  then show ?thesis using FailOrRetry_spec [OF assms] FailOrRetry_err [OF assms(1)] assms(2) by auto
next
  case (Inr f)
  note C = FailOrRetry_spec [OF assms, unfolded Inr, simplified]
  then obtain j where j: "j \<in> set t" "ID j = i" "JState j = StateRunning"
    "t' = put j (if f then failed_row now msg j else requeued_row t msg j) t" by blast
  then show ?thesis using C Inr states_row [OF assms(1) j(1)] states_put [OF assms(1) j(1)]
    by (simp add: failed_row_def requeued_row_def)
qed

lemma Cancel_states:
  assumes "store_inv t" and "Cancel ok now i t = (r, t')"
  shows "store_inv t' \<and> (case r of
       Inl _ \<Rightarrow> t' = t
     | Inr j' \<Rightarrow> ID j' = i \<and> (if JState j' = StateCanceled
         then (\<exists>s. states t i = {s} \<and> (s = StateCanceled \<or> \<not> Terminal s)) \<and> states t' = (states t)(i := {StateCanceled})
         else t' = t))"
proof (cases r)
  case (Inl e)
  then show ?thesis using Cancel_spec [OF assms] assms(1) by simp
next
  case (Inr j')
  note C = Cancel_spec [OF assms, unfolded Inr, simplified]
  then obtain j where j: "j \<in> set t" "ID j = i" "if Terminal (JState j) then j' = j \<and> t' = t
      else j' = j\<lparr>JState := StateCanceled, FinishedAt := Some now\<rparr> \<and> t' = put j j' t" by blast
  note row = states_row [OF assms(1) j(1)]
  show ?thesis
  proof (cases "Terminal (JState j)")
    case True
    then have same: "j' = j" "t' = t" using j(3) by simp_all
    have "states t = (states t)(i := {JState j})" using j(2) row by (simp add: fun_upd_idem)
    then show ?thesis using Inr j(2) row assms(1) unfolding same by (cases "JState j = StateCanceled") auto
  next
    case False
    then show ?thesis using C Inr j row states_put [OF assms(1) j(1), of j'] by simp
  qed
qed

lemma states_update:
  assumes "\<And>j. ID (f j) = ID j"
  shows "s \<in> states (update_where P f t) i \<longleftrightarrow> (\<exists>j\<in>set t. ID j = i \<and> JState (if P j then f j else j) = s)"
proof -
  have "ID (if P j then f j else j) = ID j" for j using assms by simp
  then show ?thesis by (simp only: states_iff update_where_def set_map bex_simps)
qed

lemma states_empty: "states t i = {} \<longleftrightarrow> i \<notin> set (map ID t)"
  by (auto simp: states_def)

lemma update_where_ids:
  assumes "\<And>j. ID (f j) = ID j"
  shows "map ID (update_where P f t) = map ID t"
  using assms by (simp add: update_where_def)

lemma states_map:
  assumes "\<And>j. JState (f j) = JState j" "\<And>j. ID (f j) = ID j"
  shows "states (update_where P f t) = states t"
proof (intro ext set_eqI)
  show "s \<in> states (update_where P f t) i \<longleftrightarrow> s \<in> states t i" for s i
    unfolding states_update [OF assms(2)] using assms(1) by (auto simp: states_iff)
qed

lemma StampFetched_states:
  assumes "store_inv t"
  shows "store_inv (snd (StampFetched ok now i t)) \<and> states (snd (StampFetched ok now i t)) = states t"
proof -
  obtain r t' where r: "StampFetched ok now i t = (r, t')" by fastforce
  have "states t' = states t" using r states_map by (auto simp: StampFetched_def split: if_splits)
  then show ?thesis using StampFetched_spec [OF assms r] r by simp
qed

lemma Prune_states:
  assumes "store_inv t"
  shows "store_inv (snd (Prune ok g h now t)) \<and> states (snd (Prune ok g h now t)) i \<subseteq> states t i"
proof -
  obtain r t' where r: "Prune ok g h now t = (r, t')" by fastforce
  then show ?thesis using Prune_spec [OF assms r] by (auto simp: states_def)
qed

lemma recover_loop_states:
  "(StateRunning \<in> states (recover_loop now m recs t) i \<longrightarrow> StateRunning \<in> states t i \<and> i \<notin> fst ` set recs)
   \<and> (states (recover_loop now m recs t) i = {} \<longleftrightarrow> states t i = {})"
proof (induction recs arbitrary: t)
  case (Cons rec recs)
  obtain k a where rec: "rec = (k, a)" by fastforce
  have upd: "(StateRunning \<in> states (update_where (has_id k) f t) i \<longrightarrow> StateRunning \<in> states t i \<and> i \<noteq> k)
      \<and> (states (update_where (has_id k) f t) i = {} \<longleftrightarrow> states t i = {})"
    if f: "\<And>j. ID (f j) = ID j" "\<And>j. JState (f j) \<noteq> StateRunning" for f
    unfolding states_empty update_where_ids [OF f(1)] states_update [OF f(1)] using f(2)
    by (auto simp: states_iff has_id_def)
  have "\<exists>f. recover_loop now m (rec # recs) t = recover_loop now m recs (update_where (has_id k) f t)
      \<and> (\<forall>j. ID (f j) = ID j) \<and> (\<forall>j. JState (f j) \<noteq> StateRunning)"
    by (cases "m \<le> a + 1") (auto simp: rec Let_def fail_row_def intro!: exI)
  then obtain f where f: "recover_loop now m (rec # recs) t = recover_loop now m recs (update_where (has_id k) f t)"
    "\<And>j. ID (f j) = ID j" "\<And>j. JState (f j) \<noteq> StateRunning" by blast
  show ?case using Cons.IH [of "update_where (has_id k) f t"] upd [OF f(2,3)] f(1) rec by auto
qed simp

lemma RecoverRunning_states:
  assumes "store_inv t" and "RecoverRunning ok now m t = (Inr n, t')"
  shows "store_inv t' \<and> StateRunning \<notin> states t' i \<and> (states t' i = {} \<longleftrightarrow> states t i = {})"
proof -
  have t': "t' = recover_loop now m (running_recs t) t"
    using assms(2) by (simp add: RecoverRunning_def Let_def split: if_splits)
  have "StateRunning \<in> states t i \<Longrightarrow> i \<in> fst ` set (running_recs t)"
    by (force simp: running_recs_def states_iff in_state_def)
  then show ?thesis
    using recover_loop_states [of now m "running_recs t" t i] RecoverRunning_spec [OF assms] t' by auto
qed

section \<open>The invariant\<close>

text \<open>The Job in hand before its terminal write, the run that is registered, and where a slot is held.\<close>

fun cur_id :: "wpc \<Rightarrow> string option" where
  "cur_id (WStart j) = Some (ID j)"
| "cur_id (WServe j _) = Some (ID j)"
| "cur_id (WGen r) = Some (ID (r_job r))"
| "cur_id (WGenDone r _) = Some (ID (r_job r))"
| "cur_id (WClassify r _) = Some (ID (r_job r))"
| "cur_id (WWrite r _ _) = Some (ID (r_job r))"
| "cur_id _ = None"

fun cur_reg :: "wpc \<Rightarrow> (string \<times> nat) option" where
  "cur_reg (WServe j n) = Some (ID j, n)"
| "cur_reg (WGen r) = Some (ID (r_job r), r_ctx r)"
| "cur_reg (WGenDone r _) = Some (ID (r_job r), r_ctx r)"
| "cur_reg (WClassify r _) = Some (ID (r_job r), r_ctx r)"
| "cur_reg (WWrite r _ _) = Some (ID (r_job r), r_ctx r)"
| "cur_reg (WEnd r) = Some (ID (r_job r), r_ctx r)"
| "cur_reg _ = None"

fun busy :: "wpc \<Rightarrow> bool" where
  "busy WTop = False"
| "busy WSleep = False"
| "busy WPeek = False"
| "busy WAcquire = False"
| "busy WStopped = False"
| "busy _ = True"

text \<open>What the row states have to do with the worker, the cancels that are due and the events published.\<close>

definition done_ok :: "(string \<Rightarrow> JobState set) \<Rightarrow> string list \<Rightarrow> string \<times> Event \<Rightarrow> bool" where
  "done_ok st us p \<longleftrightarrow> (EvType (snd p) = EventDone \<longrightarrow>
     fst p \<in> set us \<and> (\<exists>s. EvState (snd p) = Some s \<and> Terminal s \<and> st (fst p) \<subseteq> {s}))"

definition rows_inv ::
  "(string \<Rightarrow> JobState set) \<Rightarrow> string option \<Rightarrow> string list \<Rightarrow> string list \<Rightarrow> string list \<Rightarrow> (string \<times> Event) list \<Rightarrow> bool" where
  "rows_inv st cur orph du us pub \<longleftrightarrow>
     (\<forall>i. StateRunning \<in> st i \<longrightarrow> i \<in> set orph \<or> cur = Some i)
     \<and> (\<forall>i. cur = Some i \<longrightarrow> i \<in> set us \<and> st i \<subseteq> {StateRunning, StateCanceled})
     \<and> (\<forall>i. st i \<noteq> {} \<longrightarrow> i \<in> set us)
     \<and> (\<forall>i\<in>set du. i \<in> set us \<and> st i \<subseteq> {StateCanceled})
     \<and> (\<forall>p\<in>set pub. done_ok st us p)"

definition job_inv :: "job_sys \<Rightarrow> bool" where
  "job_inv S \<longleftrightarrow>
     store_inv (s_store (svc S))
     \<and> rows_inv (states (s_store (svc S))) (cur_id (w S)) (orphans S) (due S) (used S) (s_published (svc S))
     \<and> slot S = busy (w S)
     \<and> s_running (svc S) = (case cur_reg (w S) of None \<Rightarrow> (\<lambda>_. None) | Some (i, n) \<Rightarrow> (\<lambda>_. None)(i := Some n))"

lemma done_ok_other: "EvType ev \<noteq> EventDone \<Longrightarrow> done_ok st us (i, ev)"
  by (simp add: done_ok_def)

lemma done_ok_mono:
  assumes "done_ok st us p" and "\<And>i. st' i \<subseteq> st i" and "set us \<subseteq> set us'"
  shows "done_ok st' us' p"
  using assms by (fastforce simp: done_ok_def)

text \<open>Moving the row of one id whose state was not terminal breaks no published event.\<close>

lemma done_ok_upd:
  assumes "done_ok st us p" and "st i = {s}" and "\<not> Terminal s"
  shows "done_ok (st(i := X)) us p"
  using assms by (auto simp: done_ok_def)

lemma rows_inv_mono:
  assumes "rows_inv st cur orph du us pub" and "\<And>i. st' i \<subseteq> st i" and "set us \<subseteq> set us'"
  shows "rows_inv st' cur orph du us' pub"
proof -
  have "done_ok st' us' p" if "p \<in> set pub" for p
    using assms that done_ok_mono [of st us p st' us'] unfolding rows_inv_def by blast
  moreover have "s \<in> st i" if "s \<in> st' i" for s i using assms(2) that by blast
  ultimately show ?thesis using assms(1,3) unfolding rows_inv_def by blast
qed

text \<open>Nothing but events that are not terminal was published.\<close>

lemma rows_inv_pub:
  assumes "rows_inv st cur orph du us pub" and "EvType ev \<noteq> EventDone"
  shows "rows_inv st cur orph du us ((i, ev) # pub)"
  using assms done_ok_other by (simp add: rows_inv_def)

text \<open>The row in hand leaves RUNNING for \<open>s\<close>.\<close>

lemma rows_inv_move:
  assumes "rows_inv st (Some i) orph du us pub" and "st i = {StateRunning}" and "s \<noteq> StateRunning"
  shows "rows_inv (st(i := {s})) None orph du us pub"
    and "Terminal s \<Longrightarrow> rows_inv (st(i := {s})) None orph du us ((i, done_event s) # (i, state_event s) # pub)"
proof -
  have "\<not> Terminal StateRunning" by (simp add: Terminal_def)
  then have "done_ok (st(i := {s})) us p" if "p \<in> set pub" for p
    using done_ok_upd [where st = st and i = i, OF _ assms(2)] assms(1) that unfolding rows_inv_def by blast
  moreover have "i \<notin> set du" using assms(1,2) by (auto simp: rows_inv_def)
  ultimately show "rows_inv (st(i := {s})) None orph du us pub" using assms by (auto simp: rows_inv_def)
  then show "rows_inv (st(i := {s})) None orph du us ((i, done_event s) # (i, state_event s) # pub)" if "Terminal s"
    using that assms(1) done_ok_other [of "state_event s"] by (auto simp: rows_inv_def done_ok_def)
qed

text \<open>A write that found the row no longer RUNNING, or that the database refused.\<close>

lemma rows_inv_drop:
  assumes "rows_inv st (Some i) orph du us pub" and "x \<or> StateRunning \<notin> st i"
  shows "rows_inv st None (if x then i # orph else orph) du us pub"
  using assms by (auto simp: rows_inv_def)

lemma rows_inv_claim:
  assumes "rows_inv st None orph du us pub" and "st i = {StateQueued}"
  shows "rows_inv (st(i := {StateRunning})) (Some i) orph du us pub"
proof -
  have "\<not> Terminal StateQueued" by (simp add: Terminal_def)
  then have "done_ok (st(i := {StateRunning})) us p" if "p \<in> set pub" for p
    using done_ok_upd [where st = st and i = i, OF _ assms(2)] assms(1) that unfolding rows_inv_def by blast
  moreover have "i \<notin> set du" using assms(1,2) by (auto simp: rows_inv_def)
  moreover have "i \<in> set us" using assms(1,2) by (force simp: rows_inv_def)
  ultimately show ?thesis using assms by (auto simp: rows_inv_def)
qed

lemma rows_inv_submit:
  assumes "rows_inv st cur orph du us pub" and "i \<notin> set us"
  shows "rows_inv (st(i := {StateQueued})) cur orph du (i # us) pub"
proof -
  have "done_ok (st(i := {StateQueued})) (i # us) p" if "p \<in> set pub" for p
    using assms that by (auto simp: rows_inv_def done_ok_def)
  then show ?thesis using assms by (auto simp: rows_inv_def)
qed

lemma rows_inv_cancel:
  assumes "rows_inv st cur orph du us pub" and "st i = {s}" and "s = StateCanceled \<or> \<not> Terminal s"
  shows "rows_inv (st(i := {StateCanceled})) cur orph (i # du) us pub"
proof -
  have "done_ok (st(i := {StateCanceled})) us p" if "p \<in> set pub" for p
  proof (cases "s = StateCanceled")
    case True
    then have "st(i := {StateCanceled}) = st" using assms(2) by (simp add: fun_upd_idem)
    then show ?thesis using assms(1) that by (simp add: rows_inv_def)
  next
    case False
    then show ?thesis using done_ok_upd [where st = st and i = i, OF _ assms(2)] assms that unfolding rows_inv_def by blast
  qed
  moreover have "i \<in> set us" using assms(1,2) by (force simp: rows_inv_def)
  ultimately show ?thesis using assms by (auto simp: rows_inv_def)
qed

lemma rows_inv_cancel_fin:
  assumes "rows_inv st cur orph du us pub" and "i \<in> set du"
  shows "rows_inv st cur orph (remove1 i du) us ((i, done_event StateCanceled) # (i, state_event StateCanceled) # pub)"
proof -
  have "done_ok st us (i, done_event StateCanceled)"
    using assms by (auto simp: rows_inv_def done_ok_def Terminal_def)
  then show ?thesis using assms done_ok_other [of "state_event StateCanceled"] set_remove1_subset [of i du]
    by (auto simp: rows_inv_def)
qed

end
