(* ===== verification/Job_Worker_Properties.thy ===== *)
theory Job_Worker_Properties
  imports Job_Worker_Inv
begin

text \<open>
  What holds of the Job service and its worker in every interleaving: one Job runs at a time and holds
  the slot, published terminal events are true, only real failures cost attempts, and a run is aborted
  only for a documented reason.
\<close>

section \<open>Every step keeps the invariant\<close>

lemma loop_step_inv:
  assumes "job_inv S" and "loop_step e S = Some S'"
  shows "job_inv S'"
proof (cases "\<exists>ok now. e = EClaim ok now")
  case True
  then obtain ok now where e: "e = EClaim ok now" by blast
  then have p: "w S = WClaim" using assms(2) by (cases "w S") (simp_all add: loop_step_def)
  obtain r t where c: "ClaimNext ok now (s_store (svc S)) = (r, t)" by fastforce
  have inv: "store_inv (s_store (svc S))" "slot S" "s_running (svc S) = (\<lambda>_. None)"
    "rows_inv (states (s_store (svc S))) None (orphans S) (due S) (used S) (s_published (svc S))"
    using assms(1) p by (simp_all add: job_inv_def)
  note C = ClaimNext_states [OF inv(1) c]
  show ?thesis
  proof (cases r)
    case (Inl x)
    then have "S' = S\<lparr>svc := (svc S)\<lparr>s_store := t\<rparr>, w := WSleep, slot := False\<rparr>"
      using assms(2) e p c by (simp add: loop_step_def)
    then show ?thesis using C Inl inv by (simp add: job_inv_def)
  next
    case (Inr j)
    then have "S' = S\<lparr>svc := (svc S)\<lparr>s_store := t\<rparr>, w := WStart j\<rparr>"
      using assms(2) e p c by (simp add: loop_step_def)
    then show ?thesis using C Inr inv rows_inv_claim [OF inv(4), of "ID j"] by (simp add: job_inv_def)
  qed
next
  case False
  then show ?thesis using assms
    by (cases "w S"; cases e) (auto simp: loop_step_def job_inv_def split: if_splits sum.splits)
qed

text \<open>What every terminal write does: the row leaves RUNNING, or it had left it, or the write was refused.\<close>

definition write_ok :: "string \<Rightarrow> Service \<Rightarrow> bool \<times> Service \<Rightarrow> bool" where
  "write_ok i s p \<longleftrightarrow> (case p of (x, s') \<Rightarrow>
     store_inv (s_store s') \<and> s_running s' = s_running s
     \<and> (\<forall>orph du us. rows_inv (states (s_store s)) (Some i) orph du us (s_published s)
          \<longrightarrow> rows_inv (states (s_store s')) None (if x then i # orph else orph) du us (s_published s')))"

lemma write_ok_err:
  assumes "store_inv (s_store s)" and "e \<noteq> ErrDb \<longrightarrow> StateRunning \<notin> states (s_store s) i"
  shows "write_ok i s (e = ErrDb, s)"
  using assms rows_inv_drop [where x = "e = ErrDb" and i = i and st = "states (s_store s)"]
  unfolding write_ok_def by blast

lemma finish_succeed_ok:
  assumes "store_inv (s_store s)"
  shows "write_ok (ID (r_job r)) s (finish_succeed ok now r text s)"
proof -
  let ?i = "ID (r_job r)"
  obtain res t where c: "Succeed ok now ?i text (s_store s) = (res, t)" by fastforce
  note C = Succeed_states [OF assms c]
  show ?thesis
  proof (cases res)
    case (Inl e)
    then show ?thesis using C c write_ok_err [OF assms, of e ?i] by (simp add: finish_succeed_def refused_def)
  next
    case (Inr u)
    then show ?thesis using C c rows_inv_move(2) [of "states (s_store s)" ?i _ _ _ _ StateSucceeded]
      by (simp add: write_ok_def finish_succeed_def refused_def Terminal_def)
  qed
qed

lemma requeue_ok:
  assumes "store_inv (s_store s)"
  shows "write_ok i s (requeue ok i s)"
proof -
  obtain res t where c: "Preempt ok i (s_store s) = (res, t)" by fastforce
  note C = Preempt_states [OF assms c]
  show ?thesis
  proof (cases res)
    case (Inl e)
    then show ?thesis using C c write_ok_err [OF assms, of e i] by (simp add: requeue_def refused_def)
  next
    case (Inr u)
    then show ?thesis using C c rows_inv_move(1) [of "states (s_store s)" i _ _ _ _ StateQueued]
      by (auto simp: write_ok_def requeue_def refused_def intro: rows_inv_pub)
  qed
qed

lemma finish_fail_ok:
  assumes "store_inv (s_store s)"
  shows "write_ok (ID (r_job r)) s (finish_fail ok now r msg s)"
proof -
  let ?i = "ID (r_job r)"
  obtain res t where c: "FailOrRetry ok now ?i msg (s_maxAttempts s) (s_store s) = (res, t)" by fastforce
  note C = FailOrRetry_states [OF assms c]
  show ?thesis
  proof (cases res)
    case (Inl e)
    then show ?thesis using C c write_ok_err [OF assms, of e ?i] by (simp add: finish_fail_def refused_def)
  next
    case (Inr f)
    note M = rows_inv_move [of "states (s_store s)" ?i _ _ _ _ "if f then StateFailed else StateQueued"]
    show ?thesis
    proof (cases f)
      case True
      then show ?thesis using C c Inr M(2) by (simp add: write_ok_def finish_fail_def refused_def Terminal_def)
    next
      case False
      then show ?thesis using C c Inr M(1) rows_inv_pub [of _ _ _ _ _ _ "state_event StateQueued"]
        by (simp add: write_ok_def finish_fail_def refused_def)
    qed
  qed
qed

lemma finish_abort_ok:
  assumes "store_inv (s_store s)"
  shows "write_ok (ID (r_job r)) s (finish_abort ok now r c msg s)"
  using requeue_ok [OF assms, of "ID (r_job r)" ok] finish_fail_ok [OF assms, of r ok now msg]
  by (cases c) (auto simp: finish_abort_def write_ok_def split: prod.splits)

lemma isCanceled_states:
  assumes "store_inv (s_store s)" and "isCanceled ok i s"
  shows "StateRunning \<notin> states (s_store s) i"
proof -
  obtain j where "Get ok i (s_store s) = Inr j" "JState j = StateCanceled"
    using assms(2) by (auto simp: isCanceled_def split: sum.splits)
  then show ?thesis using scan_id(1) [OF assms(1), of i j] states_row [OF assms(1), of j]
    by (auto simp: Get_def split: if_splits)
qed

lemma after_write_inv:
  assumes "job_inv S" and "write_ok (ID (r_job r)) (svc S) p"
    and "cur_id (w S) = Some (ID (r_job r))" and "cur_reg (w S) = Some (ID (r_job r), r_ctx r)" and "busy (w S)"
  shows "job_inv (after_write p r S)"
  using assms by (cases p) (simp add: job_inv_def after_write_def write_ok_def)

lemma run_step_inv:
  assumes "job_inv S" and "run_step e S = Some S'"
  shows "job_inv S'"
proof -
  have inv: "store_inv (s_store (svc S))" using assms(1) by (simp add: job_inv_def)
  show ?thesis
  proof (cases "w S")
    case (WStart j)
    then show ?thesis using assms rows_inv_pub [of _ _ _ _ _ _ "state_event StateRunning"]
      by (cases e) (auto simp: run_step_def job_inv_def)
  next
    case (WServe j n)
    then show ?thesis using assms by (cases e) (auto simp: run_step_def job_inv_def)
  next
    case (WGen r)
    have pub: "rows_inv st cur orph du us (s_published (reportTokens now i n k s))"
      if "rows_inv st cur orph du us (s_published s)" for st cur orph du us now i n k s
      using reportTokens_published [of now i n k s] rows_inv_pub [OF that] by auto
    show ?thesis using assms WGen by (cases e) (auto simp: run_step_def job_inv_def intro: pub)
  next
    case (WGenDone r res)
    show ?thesis
    proof (cases res)
      case (Inl msg)
      have "rows_inv (states (s_store (svc S))) None (orphans S) (due S) (used S) (s_published (svc S))"
        if "isCanceled ok (ID (r_job r)) (svc S)" for ok
        using assms(1) WGenDone isCanceled_states [OF inv that] rows_inv_drop [where x = False]
        by (auto simp: job_inv_def)
      then show ?thesis using assms WGenDone Inl by (cases e) (auto simp: run_step_def job_inv_def)
    next
      case (Inr out)
      then show ?thesis using assms WGenDone after_write_inv [OF assms(1) finish_succeed_ok [OF inv]]
        by (cases e) (auto simp: run_step_def)
    qed
  next
    case (WClassify r msg)
    then show ?thesis using assms by (cases e) (auto simp: run_step_def job_inv_def)
  next
    case (WWrite r c msg)
    then show ?thesis using assms after_write_inv [OF assms(1) finish_abort_ok [OF inv]]
      by (cases e) (auto simp: run_step_def)
  next
    case (WEnd r)
    then show ?thesis using assms by (cases e) (auto simp: run_step_def job_inv_def fun_upd_def)
  qed (use assms in \<open>cases e; simp add: run_step_def\<close>)+
qed

lemma mon_step_inv:
  assumes "job_inv S" and "mon_step e S = Some S'"
  shows "job_inv S'"
proof -
  have "\<exists>r r' ab. cur_run (w S) = Some r \<and> mon_turn e S r = Some (r', ab)"
    using assms(2) by (auto simp: mon_step_def split: option.splits)
  then obtain r r' ab where r: "cur_run (w S) = Some r" "mon_turn e S r = Some (r', ab)" by blast
  then have "r_job r' = r_job r" "r_ctx r' = r_ctx r"
    by (cases e; auto simp: mon_turn_def split: if_splits)+
  then show ?thesis using assms r
    by (cases "w S") (auto simp: mon_step_def cur_run_def set_run_def job_inv_def)
qed

lemma submit_inv:
  assumes "job_inv S" and "uuid \<notin> set (used S)"
  shows "job_inv (S\<lparr>svc := snd (svc_Submit marshal uuid ok now req (svc S)), used := uuid # used S\<rparr>)"
proof -
  let ?s = "svc S" and ?st = "states (s_store (svc S))"
  have inv: "store_inv (s_store ?s)" "rows_inv ?st (cur_id (w S)) (orphans S) (due S) (used S) (s_published ?s)"
    using assms(1) by (simp_all add: job_inv_def)
  have none: "?st uuid = {}" using inv(2) assms(2) by (auto simp: rows_inv_def)
  have more: "rows_inv ?st (cur_id (w S)) (orphans S) (due S) (uuid # used S) (s_published ?s)"
    using rows_inv_mono [OF inv(2), of ?st "uuid # used S"] by auto
  show ?thesis
  proof (cases "request_params marshal req")
    case None
    then show ?thesis using assms(1) more by (simp add: svc_Submit_def job_inv_def)
  next
    case (Some params)
    define j where "j = request_job uuid now params req"
    obtain r t where c: "Submit ok now j (s_store ?s) = (r, t)" by fastforce
    have id: "ID j = uuid" by (simp add: j_def request_job_def)
    note C = Submit_states [OF inv(1) c, unfolded id, OF none]
    have s: "snd (svc_Submit marshal uuid ok now req ?s) =
        (case r of Inr (stored, True) \<Rightarrow> bus_publish (ID stored) (state_event StateQueued) (?s\<lparr>s_store := t\<rparr>) | _ \<Rightarrow> ?s\<lparr>s_store := t\<rparr>)"
      using c by (simp add: svc_Submit_def Some j_def [symmetric] Let_def split: sum.splits prod.splits bool.splits)
    show ?thesis
    proof (cases "\<exists>stored. r = Inr (stored, True)")
      case True
      then show ?thesis
        using assms(1) s C rows_inv_pub [OF rows_inv_submit [OF inv(2) assms(2)], of "state_event StateQueued"]
        by (auto simp: job_inv_def)
    next
      case False
      then have "t = s_store ?s" "snd (svc_Submit marshal uuid ok now req ?s) = ?s\<lparr>s_store := t\<rparr>"
        using C s by (auto split: sum.splits prod.splits bool.splits)
      then show ?thesis using assms(1) more by (simp add: job_inv_def)
    qed
  qed
qed

lemma cancel_write_inv:
  assumes "job_inv S" and "cancel_write ok now i (svc S) = (res, s)"
  shows "job_inv (S\<lparr>svc := s, due := (case res of
       Inl _ \<Rightarrow> due S | Inr j \<Rightarrow> (if JState j = StateCanceled then i # due S else due S))\<rparr>)"
proof -
  let ?st = "states (s_store (svc S))"
  have inv: "store_inv (s_store (svc S))"
    "rows_inv ?st (cur_id (w S)) (orphans S) (due S) (used S) (s_published (svc S))"
    using assms(1) by (simp_all add: job_inv_def)
  obtain t where c: "Cancel ok now i (s_store (svc S)) = (res, t)" "s = (svc S)\<lparr>s_store := t\<rparr>"
    using assms(2) by (auto simp: cancel_write_def split: prod.splits)
  note C = Cancel_states [OF inv(1) c(1)]
  show ?thesis
  proof (cases "\<exists>j. res = Inr j \<and> JState j = StateCanceled")
    case True
    then obtain s' where "?st i = {s'}" "s' = StateCanceled \<or> \<not> Terminal s'" using C by auto
    from rows_inv_cancel [OF inv(2) this] show ?thesis using True C c(2) assms(1) by (auto simp: job_inv_def)
  next
    case False
    then have "t = s_store (svc S)" using C by (auto split: sum.splits)
    then show ?thesis using False c(2) assms(1) by (auto simp: job_inv_def split: sum.splits)
  qed
qed

lemma restart_inv:
  assumes "job_inv S" and "svc_Recover ok now (SetRecorder True (NewService (s_store (svc S)) m)) = (Inr u, s)"
  shows "job_inv ((NewWorker s q)\<lparr>used := used S\<rparr>)"
proof -
  let ?t = "s_store (svc S)"
  have inv: "store_inv ?t" "\<forall>i. states ?t i \<noteq> {} \<longrightarrow> i \<in> set (used S)"
    using assms(1) by (simp_all add: job_inv_def rows_inv_def)
  obtain n t' where c: "RecoverRunning ok now (if m \<le> 0 then DefaultMaxAttempts else m) ?t = (Inr n, t')"
    "s = (SetRecorder True (NewService ?t m))\<lparr>s_store := t'\<rparr>"
    using assms(2) by (auto simp: svc_Recover_def SetRecorder_def NewService_def split: prod.splits sum.splits)
  note C = RecoverRunning_states [OF inv(1) c(1)]
  show ?thesis using C inv(2) c(2) unfolding job_inv_def rows_inv_def NewWorker_def SetRecorder_def NewService_def by auto
qed

lemma rows_inv_prune:
  assumes "rows_inv (states t) cur orph du us pub" and "store_inv t"
  shows "rows_inv (states (snd (Prune ok g h now t))) cur orph du us pub"
  using rows_inv_mono [OF assms(1)] Prune_states [OF assms(2)] by blast

lemma env_step_inv:
  assumes "job_inv S" and "env_step marshal e S = Some S'"
  shows "job_inv S'"
proof -
  have inv: "store_inv (s_store (svc S))"
    "rows_inv (states (s_store (svc S))) (cur_id (w S)) (orphans S) (due S) (used S) (s_published (svc S))"
    using assms(1) by (simp_all add: job_inv_def)
  show ?thesis
  proof (cases e)
    case (ESubmit uuid ok now req)
    then show ?thesis using assms submit_inv [OF assms(1)] by (auto simp: env_step_def split: if_splits)
  next
    case (ECancel ok now i)
    then show ?thesis using assms cancel_write_inv [OF assms(1)]
      by (cases "cancel_write ok now i (svc S)") (auto simp: env_step_def)
  next
    case (ECancelFin now i)
    then show ?thesis using assms rows_inv_cancel_fin [OF inv(2)]
      by (auto simp: env_step_def job_inv_def split: if_splits)
  next
    case (EResult ok now i)
    then show ?thesis using assms StampFetched_states [OF inv(1)]
      by (auto simp: env_step_def svc_Result_def job_inv_def split: sum.splits)
  next
    case (EPrune ok now g h)
    then show ?thesis using assms Prune_states [OF inv(1)] rows_inv_prune [OF inv(2,1)]
      by (auto simp: env_step_def pruneOnce_def job_inv_def)
  next
    case (ERestart ok now)
    then show ?thesis using assms restart_inv [OF assms(1)]
      by (auto simp: env_step_def split: prod.splits sum.splits)
  qed (use assms in \<open>auto simp: env_step_def job_inv_def\<close>)
qed

lemma job_exec_inv:
  assumes "job_inv S" and "job_exec marshal e S = Some S'"
  shows "job_inv S'"
  using assms loop_step_inv run_step_inv mon_step_inv env_step_inv
  by (auto simp: job_exec_def split: option.splits)

definition job_start :: "int \<Rightarrow> duration \<Rightarrow> job_sys" where
  "job_start m q = NewWorker (SetRecorder True (NewService [] m)) q"

interpretation jobsys: event_system "job_exec marshal" "\<lambda>S. S = job_start m q" job_inv
proof
  show "job_inv S" if "S = job_start m q" for S
    using that store_inv_Nil
    by (simp add: job_inv_def rows_inv_def job_start_def NewWorker_def SetRecorder_def NewService_def states_def)
qed (rule job_exec_inv)

section \<open>One Job at a time\<close>

text \<open>The database accepts every terminal write of the run.\<close>

definition writes_up :: "'v job_ev list \<Rightarrow> bool" where
  "writes_up es \<longleftrightarrow> (\<forall>e\<in>set es. case e of EFinish ok _ \<Rightarrow> ok = up | EWrite ok _ \<Rightarrow> ok = up | _ \<Rightarrow> True)"

lemma up_not_refused:
  "\<not> refused (fst (Succeed up now i out t))" "\<not> refused (fst (Preempt up i t))"
  "\<not> refused (fst (FailOrRetry up now i msg m t))"
  by (auto simp: refused_def Succeed_def Preempt_def FailOrRetry_def mustAffect_def up_def Let_def scanOne_def
      split: list.splits)

lemma fst_writes:
  "fst (finish_succeed ok now r out s) = refused (fst (Succeed ok now (ID (r_job r)) out (s_store s)))"
  "fst (requeue ok i s) = refused (fst (Preempt ok i (s_store s)))"
  "fst (finish_fail ok now r msg s) = refused (fst (FailOrRetry ok now (ID (r_job r)) msg (s_maxAttempts s) (s_store s)))"
  by (simp_all add: finish_succeed_def requeue_def finish_fail_def Let_def split: prod.splits)

lemma fst_finish_abort:
  "fst (finish_abort ok now r c msg s) =
     (if c = CFail then fst (finish_fail ok now r msg s) else fst (requeue ok (ID (r_job r)) s))"
  by (cases c) (simp_all add: finish_abort_def split: prod.splits)

lemma up_finish [simp]:
  "\<not> fst (finish_succeed up now r out s)" "\<not> fst (finish_abort up now r c msg s)"
  by (simp_all add: fst_finish_abort fst_writes up_not_refused)

lemma orphans_after_write:
  "orphans (after_write p r S) = (if fst p then ID (r_job r) # orphans S else orphans S)"
  by (simp add: after_write_def split: prod.splits)

lemma orphans_step:
  assumes "job_exec marshal e S = Some S'" and "orphans S = []" and "writes_up [e]"
  shows "orphans S' = []"
proof -
  have "orphans S' = []" if "loop_step e S = Some S'"
    using that assms(2) by (cases "w S"; cases e) (auto simp: loop_step_def split: if_splits prod.splits sum.splits)
  moreover have "orphans S' = []" if "run_step e S = Some S'"
    using that assms(2,3)
    by (cases "w S"; cases e) (auto simp: run_step_def writes_up_def orphans_after_write split: sum.splits)
  moreover have "orphans S' = []" if "mon_step e S = Some S'"
    using that assms(2) by (auto simp: mon_step_def split: option.splits)
  moreover have "orphans S' = []" if "env_step marshal e S = Some S'"
    using that assms(2) by (cases e) (auto simp: env_step_def NewWorker_def split: if_splits prod.splits sum.splits)
  ultimately show ?thesis using assms(1) by (auto simp: job_exec_def split: option.splits)
qed

lemma orphans_run:
  assumes "run_events (job_exec marshal) es S = Some S'" and "orphans S = []" and "writes_up es"
  shows "orphans S' = []"
  using assms
proof (induction es arbitrary: S)
  case (Cons e es)
  from Cons.prems(1) obtain u where u: "job_exec marshal e S = Some u" "run_events (job_exec marshal) es u = Some S'"
    by (rule run_events_ConsE)
  have "writes_up [e]" "writes_up es" using Cons.prems(3) by (simp_all add: writes_up_def)
  then show ?case using orphans_step [OF u(1) Cons.prems(2)] Cons.IH [OF u(2)] by simp
qed simp

text \<open>
  C23. One Job runs at a time, and only with the GPU slot. In every interleaving of the worker, its
  monitor, API calls, pruning, yields, shutdowns and restarts, with a database that may refuse any call:
  a row is RUNNING only if it is the Job the worker has in hand or one whose last write the database
  refused; the worker has a Job in hand only while it holds the slot, and gives the slot back before it
  looks for work again; the live run the API shows is that Job's. If the terminal writes are not
  refused, at most one row is RUNNING, and none while the worker is between Jobs.
\<close>

theorem one_job_at_a_time:
  assumes "run_events (job_exec marshal) es (job_start m q) = Some S"
  shows "(\<forall>j\<in>set (s_store (svc S)). JState j = StateRunning \<longrightarrow> cur_id (w S) = Some (ID j) \<or> ID j \<in> set (orphans S))
     \<and> (slot S \<longleftrightarrow> busy (w S)) \<and> (cur_id (w S) \<noteq> None \<longrightarrow> slot S)
     \<and> (\<forall>i n. s_running (svc S) i = Some n \<longleftrightarrow> cur_reg (w S) = Some (i, n))
     \<and> (writes_up es \<longrightarrow>
          (\<forall>j\<in>set (s_store (svc S)). \<forall>k\<in>set (s_store (svc S)).
             JState j = StateRunning \<and> JState k = StateRunning \<longrightarrow> j = k)
          \<and> (cur_id (w S) = None \<longrightarrow> (\<forall>j\<in>set (s_store (svc S)). JState j \<noteq> StateRunning)))"
proof -
  have inv: "job_inv S" by (rule jobsys.run_inv [OF refl assms])
  let ?t = "s_store (svc S)"
  have run: "cur_id (w S) = Some (ID j) \<or> ID j \<in> set (orphans S)" if "j \<in> set ?t" "JState j = StateRunning" for j
    using inv that by (auto simp: job_inv_def rows_inv_def states_iff)
  have "cur_id (w S) \<noteq> None \<longrightarrow> busy (w S)" by (cases "w S") auto
  moreover have slot: "slot S = busy (w S)" using inv by (simp add: job_inv_def)
  moreover have "s_running (svc S) i = Some n \<longleftrightarrow> cur_reg (w S) = Some (i, n)" for i n
    using inv by (auto simp: job_inv_def split: option.splits if_splits)
  moreover have "(\<forall>j\<in>set ?t. \<forall>k\<in>set ?t. JState j = StateRunning \<and> JState k = StateRunning \<longrightarrow> j = k)
      \<and> (cur_id (w S) = None \<longrightarrow> (\<forall>j\<in>set ?t. JState j \<noteq> StateRunning))" if "writes_up es"
  proof -
    have "orphans S = []" using orphans_run [OF assms _ that] by (simp add: job_start_def NewWorker_def)
    then have cur: "cur_id (w S) = Some (ID j)" if "j \<in> set ?t" "JState j = StateRunning" for j
      using run [OF that] by simp
    have "j = k" if "j \<in> set ?t" "k \<in> set ?t" "JState j = StateRunning" "JState k = StateRunning" for j k
      using cur [OF that(1,3)] cur [OF that(2,4)] store_inv_inj [of ?t j k] inv that by (simp add: job_inv_def)
    then show ?thesis using cur by fastforce
  qed
  ultimately show ?thesis using run by blast
qed

definition demo_req :: "unit SubmitRequest" where
  "demo_req = \<lparr>q_IdempotencyKey = ''k'', q_Source = ''cron'', q_Owner = ''me'', q_Model = ''m'', q_Prompt = ''p'', q_Options = []\<rparr>"

lemmas job_eval = job_exec_def loop_step_def run_step_def mon_step_def env_step_def mon_turn_def cur_run_def
  set_run_def classify_def isClosed_def shouldPreempt_def jobCtx_done_def finish_succeed_def finish_abort_def finish_fail_def
  requeue_def refused_def run_time_def after_write_def svc_Submit_def request_params_def request_job_def demo_req_def
  cancel_write_def svc_Recover_def isCanceled_def job_start_def NewWorker_def SetRecorder_def NewService_def
  startRun_def bus_publish_def publish_def newBus_def HasQueued_def Cancel_def

definition demo_claim :: "unit job_ev list" where
  "demo_claim = [ESubmit ''a'' up 5 demo_req, ETop, EPeek up, EAcquire True, EHeld, EClaim up 6, EStart 6, EServe 6]"

theorem one_job_at_a_time_witness:
  "\<exists>S. run_events (job_exec (\<lambda>_. None)) demo_claim (job_start 3 0) = Some S \<and> slot S
     \<and> s_running (svc S) ''a'' = Some 0"
proof -
  obtain S where S: "run_events (job_exec (\<lambda>_. None)) demo_claim (job_start 3 0) = Some S"
    "cur_reg (w S) = Some (''a'', 0)" "busy (w S)"
    by (simp add: demo_claim_def job_eval store_eval Get_def)
  from one_job_at_a_time [OF S(1)] S show ?thesis by blast
qed

section \<open>Published terminal events\<close>

text \<open>
  C24. Nobody is told a Job is over before it durably is. In every interleaving, for every \<^verbatim>\<open>done\<close> event
  published since the process started, the event names a terminal state and the Job's row, unless it was
  pruned, is in exactly that state: a success that lost the race against a cancel, a retry or a refused
  write is never announced.
\<close>

theorem done_events_true:
  assumes "run_events (job_exec marshal) es (job_start m q) = Some S"
    and "(i, ev) \<in> set (s_published (svc S))" and "EvType ev = EventDone"
  shows "\<exists>s. EvState ev = Some s \<and> Terminal s \<and> (\<forall>j\<in>set (s_store (svc S)). ID j = i \<longrightarrow> JState j = s)"
proof -
  have "job_inv S" by (rule jobsys.run_inv [OF refl assms(1)])
  then have "done_ok (states (s_store (svc S))) (used S) (i, ev)"
    using assms(2) by (auto simp: job_inv_def rows_inv_def)
  then show ?thesis using assms(3) by (auto simp: done_ok_def states_def)
qed

theorem done_events_true_witness:
  "\<exists>S. run_events (job_exec (\<lambda>_. None)) (demo_claim @ [EGen (Inr ''out''), EFinish up 9]) (job_start 3 0) = Some S
     \<and> (''a'', done_event StateSucceeded) \<in> set (s_published (svc S))
     \<and> (\<forall>j\<in>set (s_store (svc S)). ID j = ''a'' \<longrightarrow> JState j = StateSucceeded)"
proof -
  obtain S where S: "run_events (job_exec (\<lambda>_. None)) (demo_claim @ [EGen (Inr ''out''), EFinish up 9]) (job_start 3 0) = Some S"
    "(''a'', done_event StateSucceeded) \<in> set (s_published (svc S))"
    by (simp add: demo_claim_def job_eval store_eval Get_def publishTerminal_def recordJob_def)
  from done_events_true [OF S] show ?thesis using S by auto
qed

section \<open>Attempts\<close>

text \<open>Ids and attempts, row by row: what most operations leave alone.\<close>

definition tries :: "table \<Rightarrow> (string \<times> int) list" where
  "tries t = map (\<lambda>j. (ID j, Attempts j)) t"

lemma tries_update:
  assumes "\<And>j. ID (f j) = ID j" "\<And>j. Attempts (f j) = Attempts j"
  shows "tries (update_where P f t) = tries t"
  using assms by (simp add: tries_def update_where_def)

lemma tries_ops:
  "tries (snd (ClaimNext ok now t)) = tries t" "tries (snd (Succeed ok now i out t)) = tries t"
  "tries (snd (Preempt ok i t)) = tries t" "tries (snd (Cancel ok now i t)) = tries t"
  "tries (snd (StampFetched ok now i t)) = tries t"
  by (auto simp: ClaimNext_def Succeed_def Preempt_def Cancel_def StampFetched_def Let_def
      intro!: tries_update split: sum.splits)

text \<open>No row that stays changes its attempts.\<close>

definition tries_kept :: "table \<Rightarrow> table \<Rightarrow> bool" where
  "tries_kept t t' \<longleftrightarrow> (\<forall>j\<in>set t. \<forall>j'\<in>set t'. ID j' = ID j \<longrightarrow> Attempts j' = Attempts j)"

lemma tries_kept_sub:
  assumes "store_inv t" and "set (tries t') \<subseteq> set (tries t)"
  shows "tries_kept t t'"
  unfolding tries_kept_def
proof (intro ballI impI)
  fix j j' assume j: "j \<in> set t" "j' \<in> set t'" "ID j' = ID j"
  then have "(ID j', Attempts j') \<in> set (tries t')" by (auto simp: tries_def intro: rev_image_eqI)
  then have "(ID j', Attempts j') \<in> set (tries t)" using assms(2) by blast
  then obtain k where "k \<in> set t" "ID k = ID j'" "Attempts k = Attempts j'" by (auto simp: tries_def)
  then show "Attempts j' = Attempts j" using store_inv_inj [OF assms(1) _ j(1)] j(3) by metis
qed

lemma tries_kept_same: "store_inv t \<Longrightarrow> tries t' = tries t \<Longrightarrow> tries_kept t t'"
  by (simp add: tries_kept_sub)

lemma tries_kept_refl: "store_inv t \<Longrightarrow> tries_kept t t"
  by (simp add: tries_kept_sub)

lemma tries_kept_Prune: "store_inv t \<Longrightarrow> tries_kept t (snd (Prune ok g h now t))"
  by (rule tries_kept_sub) (auto simp: Prune_def tries_def)

lemma tries_kept_snoc:
  assumes "tries_kept t t" and "\<forall>j\<in>set t. ID j \<noteq> ID row"
  shows "tries_kept t (t @ [row])"
  using assms unfolding tries_kept_def set_append list.set by (metis UnE empty_iff insertE)

lemma tries_kept_Submit:
  assumes "store_inv t"
  shows "tries_kept t (snd (Submit ok now j t))"
proof (cases "snd (Submit ok now j t) = t")
  case True
  then show ?thesis using tries_kept_refl [OF assms] by simp
next
  case False
  then obtain row where "snd (Submit ok now j t) = t @ [row]" "ID row = ID j" "\<not> list_ex (has_id (ID j)) t"
    by (auto simp: Submit_def Let_def split: sum.splits if_splits)
  then show ?thesis using tries_kept_snoc [OF tries_kept_refl [OF assms], of row]
    by (simp add: list_ex_iff has_id_def)
qed

lemma svc_Submit_store:
  "s_store (snd (svc_Submit marshal uuid ok now req s)) =
     (case request_params marshal req of
        None \<Rightarrow> s_store s | Some params \<Rightarrow> snd (Submit ok now (request_job uuid now params req) (s_store s)))"
  by (simp add: svc_Submit_def split: option.splits prod.splits sum.splits)

lemma s_store_writes:
  "s_store (snd (finish_succeed ok now r out s)) = snd (Succeed ok now (ID (r_job r)) out (s_store s))"
  "s_store (snd (requeue ok i s)) = snd (Preempt ok i (s_store s))"
  "s_store (snd (finish_fail ok now r msg s)) = snd (FailOrRetry ok now (ID (r_job r)) msg (s_maxAttempts s) (s_store s))"
  by (simp_all add: finish_succeed_def requeue_def finish_fail_def Let_def split: prod.splits sum.splits bool.splits)

lemma s_store_abort:
  "s_store (snd (finish_abort ok now r c msg s)) =
     (if c = CFail then snd (FailOrRetry ok now (ID (r_job r)) msg (s_maxAttempts s) (s_store s))
      else snd (Preempt ok (ID (r_job r)) (s_store s)))"
  by (cases c) (simp_all add: finish_abort_def s_store_writes split_beta)

lemma svc_after_write [simp]: "svc (after_write p r S) = snd p"
  by (simp add: after_write_def split: prod.splits)

lemma tries_run_step:
  assumes "store_inv (s_store (svc S))" and "run_step e S = Some S'"
    and "\<not> (\<exists>r msg ok now. w S = WWrite r CFail msg \<and> e = EWrite ok now)"
  shows "tries_kept (s_store (svc S)) (s_store (svc S'))"
proof (rule tries_kept_same [OF assms(1)])
  show "tries (s_store (svc S')) = tries (s_store (svc S))"
    using assms(2,3)
    by (cases "w S"; cases e) (auto simp: run_step_def s_store_writes s_store_abort tries_ops split: sum.splits)
qed

lemma tries_step:
  assumes "store_inv (s_store (svc S))" and "job_exec marshal e S = Some S'"
    and "\<not> (\<exists>r msg ok now. w S = WWrite r CFail msg \<and> e = EWrite ok now)" and "\<not> (\<exists>ok now. e = ERestart ok now)"
  shows "tries_kept (s_store (svc S)) (s_store (svc S'))"
proof -
  let ?t = "s_store (svc S)"
  note refl = tries_kept_refl [OF assms(1)] and same = tries_kept_same [OF assms(1)]
  have "tries_kept ?t (s_store (svc S'))" if "loop_step e S = Some S'"
  proof (rule same)
    have "tries (snd p) = tries ?t" if "ClaimNext ok now ?t = p" for ok now p using tries_ops(1) that by metis
    then show "tries (s_store (svc S')) = tries ?t" using that
      by (cases "w S"; cases e) (force simp: loop_step_def split: if_splits prod.splits sum.splits)+
  qed
  moreover have "tries_kept ?t (s_store (svc S'))" if "mon_step e S = Some S'"
    using that refl by (auto simp: mon_step_def split: option.splits)
  moreover have "tries_kept ?t (s_store (svc S'))" if st: "env_step marshal e S = Some S'"
  proof (cases e)
    case (ESubmit uuid ok now req)
    then show ?thesis using st refl tries_kept_Submit [OF assms(1)]
      by (auto simp: env_step_def svc_Submit_store split: if_splits option.splits)
  next
    case (ECancel ok now i)
    have "tries (snd p) = tries ?t" if "Cancel ok now i ?t = p" for p using tries_ops(4) that by metis
    then show ?thesis using st ECancel same by (force simp: env_step_def cancel_write_def split: prod.splits)
  next
    case (EResult ok now i)
    then show ?thesis using st refl same [OF tries_ops(5)]
      by (auto simp: env_step_def svc_Result_def split: sum.splits)
  next
    case (EPrune ok now g h)
    then show ?thesis using st tries_kept_Prune [OF assms(1)] by (auto simp: env_step_def pruneOnce_def)
  qed (use st refl assms(4) in \<open>auto simp: env_step_def split: if_splits\<close>)
  ultimately show ?thesis using assms(2) tries_run_step [OF assms(1) _ assms(3)]
    by (auto simp: job_exec_def split: option.splits)
qed

text \<open>A run that is about to be recorded as failed was not preempted.\<close>

definition fail_pc :: "job_sys \<Rightarrow> bool" where
  "fail_pc S \<longleftrightarrow> (\<forall>r msg. w S = WWrite r CFail msg \<longrightarrow> \<not> r_preempted r)"

lemma fail_pc_step:
  assumes "fail_pc S" and "job_exec marshal e S = Some S'"
  shows "fail_pc S'"
proof -
  have "fail_pc S'" if "loop_step e S = Some S'"
    using that by (cases "w S"; cases e) (auto simp: loop_step_def fail_pc_def split: if_splits prod.splits sum.splits)
  moreover have "fail_pc S'" if "run_step e S = Some S'"
    using that by (cases "w S"; cases e)
      (auto simp: run_step_def fail_pc_def classify_def after_write_def split: if_splits prod.splits sum.splits)
  moreover have "fail_pc S'" if "mon_step e S = Some S'"
    using that by (auto simp: mon_step_def set_run_def fail_pc_def split: option.splits wpc.splits)
  moreover have "fail_pc S'" if "env_step marshal e S = Some S'"
    using that assms(1)
    by (cases e) (auto simp: env_step_def NewWorker_def fail_pc_def split: if_splits prod.splits sum.splits)
  ultimately show ?thesis using assms(2) by (auto simp: job_exec_def split: option.splits)
qed

interpretation fail_run: event_system "job_exec marshal" "\<lambda>S. S = job_start m q" fail_pc
proof
  show "fail_pc S" if "S = job_start m q" for S using that by (simp add: fail_pc_def job_start_def NewWorker_def)
qed (rule fail_pc_step)



section \<open>Aborted runs\<close>

lemma cancelled_env:
  assumes "env_step marshal e S = Some S'" and "n \<notin> set (s_cancelled (svc S))" and "n \<in> set (s_cancelled (svc S'))"
  shows "\<exists>now i. e = ECancelFin now i \<and> i \<in> set (due S) \<and> s_running (svc S) i = Some n"
proof -
  have sub: "s_cancelled (snd (svc_Submit marshal uuid ok now req s)) = s_cancelled s" for uuid ok now req s
    by (simp add: svc_Submit_def split: option.splits prod.splits sum.splits)
  show ?thesis using assms
    by (cases e) (auto simp: env_step_def sub cancel_write_def svc_Result_def pruneOnce_def svc_Recover_def
        NewWorker_def SetRecorder_def NewService_def split: if_splits prod.splits sum.splits option.splits)
qed

lemma cancelled_writes:
  "s_cancelled (snd (finish_succeed ok now r out s)) = s_cancelled s"
  "s_cancelled (snd (finish_abort ok now r c msg s)) = s_cancelled s"
  by (cases c; simp add: finish_succeed_def finish_abort_def finish_fail_def requeue_def Let_def
      split: prod.splits sum.splits bool.splits)+



end
