(* ===== verification/Job_Api.thy ===== *)
theory Job_Api
  imports Job_Worker_Properties
begin

text \<open>
  \<^verbatim>\<open>internal/job/api.go\<close> and \<^verbatim>\<open>internal/httpx/httpx.go\<close>: the HTTP handlers of the Job API. A response is
  its status, content type and the value that is encoded as its body; the JSON codec is the arguments
  \<open>decode\<close> and \<open>marshal\<close>. The event stream is a list of frames.
\<close>

section \<open>Responses\<close>

datatype json_body =
    BError string
  | BJobId string
  | BStatus Status
  | BResult string string
  | BJobs "Status list"
  | BState string string

record api_response =
  rc_code :: nat
  rc_type :: string
  rc_body :: json_body

definition WriteJSON :: "nat \<Rightarrow> json_body \<Rightarrow> api_response" where
  "WriteJSON code v = \<lparr>rc_code = code, rc_type = ''application/json'', rc_body = v\<rparr>"

definition writeErr :: "nat \<Rightarrow> string \<Rightarrow> api_response" where
  "writeErr code msg = WriteJSON code (BError msg)"

definition writeStoreErr :: "err \<Rightarrow> api_response" where
  "writeStoreErr e =
     (case e of
        ErrNotFound \<Rightarrow> writeErr 404 ''job not found''
      | ErrNotReady \<Rightarrow> writeErr 409 ''job result not ready''
      | _ \<Rightarrow> writeErr 500 ''internal error'')"

section \<open>Handlers\<close>

record 'v submit_body =
  b_model :: string
  b_prompt :: string
  b_source :: string
  b_owner :: string
  b_options :: "(string \<times> 'v) list"

definition handleSubmit ::
  "(string \<Rightarrow> 'v submit_body option) \<Rightarrow> ((string \<times> 'v) list \<Rightarrow> string option) \<Rightarrow> string \<Rightarrow> driver \<Rightarrow> instant
     \<Rightarrow> string \<Rightarrow> string \<Rightarrow> Service \<Rightarrow> api_response \<times> Service" where
  "handleSubmit decode marshal uuid ok now key raw s =
     (if key = [] then (writeErr 400 ''Idempotency-Key header is required'', s)
      else case decode raw of
        None \<Rightarrow> (writeErr 400 ''invalid JSON body'', s)
      | Some sb \<Rightarrow>
          (if b_model sb = [] then (writeErr 400 ''model is required'', s)
           else case svc_Submit marshal uuid ok now
               \<lparr>q_IdempotencyKey = key, q_Source = b_source sb, q_Owner = b_owner sb, q_Model = b_model sb,
                q_Prompt = b_prompt sb, q_Options = b_options sb\<rparr> s of
             (Inl _, s1) \<Rightarrow> (writeErr 500 ''submit failed'', s1)
           | (Inr (j, created), s1) \<Rightarrow> (WriteJSON (if created then 201 else 200) (BJobId (ID j)), s1)))"

definition handleGet :: "driver \<Rightarrow> instant \<Rightarrow> string \<Rightarrow> Service \<Rightarrow> api_response" where
  "handleGet ok now i s =
     (case svc_Get ok now i s of Inl e \<Rightarrow> writeStoreErr e | Inr st \<Rightarrow> WriteJSON 200 (BStatus st))"

definition handleResult :: "driver \<Rightarrow> instant \<Rightarrow> string \<Rightarrow> Service \<Rightarrow> api_response \<times> Service" where
  "handleResult ok now i s =
     (case svc_Result ok now i s of
        (Inl e, s1) \<Rightarrow> (writeStoreErr e, s1)
      | (Inr result, s1) \<Rightarrow> (WriteJSON 200 (BResult i result), s1))"

definition list_status :: "Job \<Rightarrow> Status" where
  "list_status j =
     \<lparr>st_ID = ID j, st_State = JState j, st_Source = Source j, st_Owner = Owner j, st_Attempts = Attempts j,
      st_Position = 0, st_Progress = None, st_Error = JError j, st_CreatedAt = CreatedAt j, st_FetchedAt = FetchedAt j\<rparr>"

definition handleList :: "driver \<Rightarrow> string \<Rightarrow> string \<Rightarrow> string \<Rightarrow> Service \<Rightarrow> api_response" where
  "handleList ok source owner state s =
     (case svc_List ok \<lparr>f_Source = source, f_Owner = owner, f_State = state, f_Limit = 0\<rparr> s of
        Inl _ \<Rightarrow> writeErr 500 ''list failed''
      | Inr jobs \<Rightarrow> WriteJSON 200 (BJobs (map list_status jobs)))"

definition handleCancel :: "driver \<Rightarrow> instant \<Rightarrow> string \<Rightarrow> Service \<Rightarrow> api_response \<times> Service" where
  "handleCancel ok now i s =
     (case svc_Cancel ok now i s of
        (Inl e, s1) \<Rightarrow> (writeStoreErr e, s1)
      | (Inr j, s1) \<Rightarrow> (WriteJSON 200 (BState (ID j) (State_string (JState j))), s1))"

text \<open>The routes: method and path segments, with the id where the pattern has one.\<close>

datatype route = RSubmit | RList | RGet string | RResult string | REvents string | RCancel string

definition Routes :: "string \<Rightarrow> string list \<Rightarrow> route option" where
  "Routes meth segs =
     (case segs of
        [a] \<Rightarrow> (if a = ''jobs'' \<and> meth = ''POST'' then Some RSubmit
                else if a = ''jobs'' \<and> meth = ''GET'' then Some RList else None)
      | [a, i] \<Rightarrow> (if a = ''jobs'' \<and> meth = ''GET'' then Some (RGet i) else None)
      | [a, i, b] \<Rightarrow>
          (if a \<noteq> ''jobs'' then None
           else if meth = ''GET'' \<and> b = ''result'' then Some (RResult i)
           else if meth = ''GET'' \<and> b = ''events'' then Some (REvents i)
           else if meth = ''POST'' \<and> b = ''cancel'' then Some (RCancel i) else None)
      | _ \<Rightarrow> None)"

section \<open>The event stream\<close>

datatype frame = FEvent Event | FKeepalive

definition EventType_string :: "EventType \<Rightarrow> string" where
  "EventType_string t = (case t of EventState \<Rightarrow> ''state'' | EventProgress \<Rightarrow> ''progress''
     | EventPosition \<Rightarrow> ''position'' | EventDone \<Rightarrow> ''done'')"

text \<open>The bytes of a frame; an event that cannot be encoded is skipped.\<close>

definition sendEvent :: "(Event \<Rightarrow> string option) \<Rightarrow> Event \<Rightarrow> string" where
  "sendEvent marshal ev =
     (case marshal ev of
        None \<Rightarrow> []
      | Some b \<Rightarrow> ''event: '' @ EventType_string (EvType ev) @ [newline] @ ''data: '' @ b @ [newline, newline])"

definition frame_bytes :: "(Event \<Rightarrow> string option) \<Rightarrow> frame \<Rightarrow> string" where
  "frame_bytes marshal f = (case f of FEvent ev \<Rightarrow> sendEvent marshal ev | FKeepalive \<Rightarrow> '': keepalive'' @ [newline, newline])"

text \<open>What the \<^verbatim>\<open>select\<close> of the stream loop may pick: the client left, an event, the closed channel, the ticker.\<close>

datatype sse_in = InGone | InEvent Event | InClosed | InTick

fun events_loop :: "sse_in list \<Rightarrow> frame list \<times> bool" where
  "events_loop [] = ([], False)"
| "events_loop (InGone # ins) = ([], True)"
| "events_loop (InClosed # ins) = ([], True)"
| "events_loop (InTick # ins) = (case events_loop ins of (fs, fin) \<Rightarrow> (FKeepalive # fs, fin))"
| "events_loop (InEvent ev # ins) =
     (if EvType ev = EventDone then ([FEvent ev], True)
      else case events_loop ins of (fs, fin) \<Rightarrow> (FEvent ev # fs, fin))"

text \<open>
  \<^verbatim>\<open>handleEvents\<close>: an error response, or the frames sent, whether the handler has returned, and the
  service, whose subscription is gone once it has.
\<close>

definition handleEvents ::
  "bool \<Rightarrow> driver \<Rightarrow> instant \<Rightarrow> string \<Rightarrow> sse_in list \<Rightarrow> Service \<Rightarrow> (api_response + frame list \<times> bool) \<times> Service" where
  "handleEvents flusher ok now i ins s =
     (case svc_Get ok now i s of
        Inl e \<Rightarrow> (Inl (writeStoreErr e), s)
      | Inr st \<Rightarrow>
          (if \<not> flusher then (Inl (writeErr 500 ''streaming unsupported''), s)
           else let (sub, s1) = svc_Subscribe i s;
                    snapshot = FEvent \<lparr>EvType = EventState, EvState = Some (st_State st), EvPosition = st_Position st,
                                      EvProgress = st_Progress st\<rparr>;
                    (fs, fin) = (if Terminal (st_State st) then ([FEvent (done_event (st_State st))], True)
                                 else events_loop ins)
                in (Inr (snapshot # fs, fin),
                    if fin then (case unsubscribe i sub (s_bus s1) of None \<Rightarrow> s1 | Some b \<Rightarrow> s1\<lparr>s_bus := b\<rparr>) else s1)))"

section \<open>Stream shape\<close>

definition in_events :: "sse_in list \<Rightarrow> Event list" where
  "in_events ins = concat (map (\<lambda>x. case x of InEvent ev \<Rightarrow> [ev] | _ \<Rightarrow> []) ins)"

definition out_events :: "frame list \<Rightarrow> Event list" where
  "out_events fs = concat (map (\<lambda>x. case x of FEvent ev \<Rightarrow> [ev] | FKeepalive \<Rightarrow> []) fs)"

text \<open>
  What the loop sends: a prefix of what arrived, nothing after \<^verbatim>\<open>done\<close>, and all of it while it runs.
\<close>

definition loop_ok :: "Event list \<Rightarrow> frame list \<Rightarrow> bool \<Rightarrow> bool" where
  "loop_ok evs fs fin \<longleftrightarrow>
     prefix (out_events fs) evs
     \<and> list_all (\<lambda>ev. EvType ev \<noteq> EventDone) (butlast (out_events fs))
     \<and> (out_events fs \<noteq> [] \<and> EvType (last (out_events fs)) = EventDone \<longrightarrow> fin \<and> last fs = FEvent (last (out_events fs)))
     \<and> (\<not> fin \<longrightarrow> out_events fs = evs)"

lemma out_events_simps [simp]:
  "out_events [] = []" "out_events (FEvent ev # fs) = ev # out_events fs" "out_events (FKeepalive # fs) = out_events fs"
  by (simp_all add: out_events_def)

lemma in_events_simps [simp]:
  "in_events [] = []" "in_events (InEvent ev # ins) = ev # in_events ins" "in_events (InTick # ins) = in_events ins"
  by (simp_all add: in_events_def)

lemma loop_ok_tick:
  assumes "loop_ok evs fs fin"
  shows "loop_ok evs (FKeepalive # fs) fin"
proof -
  have "out_events (FKeepalive # fs) = out_events fs" by simp
  moreover have "out_events fs \<noteq> [] \<Longrightarrow> last (FKeepalive # fs) = last fs" by (cases fs) simp_all
  ultimately show ?thesis using assms unfolding loop_ok_def by metis
qed

lemma loop_ok_event:
  assumes "loop_ok evs fs fin" and "EvType ev \<noteq> EventDone"
  shows "loop_ok (ev # evs) (FEvent ev # fs) fin"
proof (cases "out_events fs")
  case Nil
  then show ?thesis using assms by (simp add: loop_ok_def)
next
  case (Cons o1 os)
  then have "fs \<noteq> []" by auto
  then show ?thesis using assms Cons by (auto simp: loop_ok_def)
qed

lemma events_loop_ok: "events_loop ins = (fs, fin) \<Longrightarrow> loop_ok (in_events ins) fs fin"
proof (induction ins arbitrary: fs fin rule: events_loop.induct)
  case (4 ins)
  obtain fs' fin' where l: "events_loop ins = (fs', fin')" by fastforce
  show ?case using loop_ok_tick [OF "4.IH" [OF l]] "4.prems" l by auto
next
  case (5 ev ins)
  obtain fs' fin' where l: "events_loop ins = (fs', fin')" by fastforce
  show ?case
  proof (cases "EvType ev = EventDone")
    case True
    then show ?thesis using "5.prems" by (auto simp: loop_ok_def)
  next
    case False
    from loop_ok_event [OF "5.IH" [OF False l] False] show ?thesis using "5.prems" l False by auto
  qed
qed (auto simp: loop_ok_def)

section \<open>Properties\<close>

lemma reachable_store: "run_events (job_exec marshal) es (job_start m q) = Some S \<Longrightarrow> store_inv (s_store (svc S))"
  using jobsys.run_inv [OF refl] by (fastforce simp: job_inv_def)

lemma svc_Submit_cases:
  assumes "store_inv (s_store s)" and "svc_Submit marshal uuid ok now req s = (r, s')"
  shows "case r of
       Inl _ \<Rightarrow> s_store s' = s_store s
     | Inr (j, False) \<Rightarrow> s_store s' = s_store s \<and> j \<in> set (s_store s) \<and> IdempotencyKey j = q_IdempotencyKey req
     | Inr (j, True) \<Rightarrow> ID j = uuid \<and> line (s_store s') = line (s_store s) @ [uuid]
         \<and> (\<exists>row. s_store s' = s_store s @ [row] \<and> ID row = uuid \<and> IdempotencyKey row = q_IdempotencyKey req
              \<and> JState row = StateQueued \<and> Prompt row = q_Prompt req \<and> Model row = q_Model req)"
proof (cases "request_params marshal req")
  case None
  then show ?thesis using assms(2) by (auto simp: svc_Submit_def)
next
  case (Some params)
  obtain r' t where c: "Submit ok now (request_job uuid now params req) (s_store s) = (r', t)" by fastforce
  note C = Submit_spec [OF assms(1) c]
  have r: "r = r'" "s_store s' = t" using assms(2) c Some
    by (auto simp: svc_Submit_def split: sum.splits prod.splits if_splits)
  show ?thesis
  proof (cases r')
    case (Inl e)
    then show ?thesis using C r by simp
  next
    case (Inr p)
    then show ?thesis using C r by (cases p; cases "snd p") (auto simp: request_job_def)
  qed
qed

text \<open>
  C27. Submitting over HTTP. In every reachable state the answer is 400 exactly for a missing
  idempotency key, a body that does not decode or an empty model; 201 exactly when a new QUEUED Job with
  the key, prompt and model was appended to the table and to the line, and the body is its id; 200 when
  the key is already known, with the id of the Job that has it; else 500. Whenever the answer is not
  201 the table is unchanged.
\<close>

theorem submit_responses:
  assumes "run_events (job_exec marshal) es (job_start m q) = Some S"
    and "handleSubmit decode marshal uuid ok now key raw (svc S) = (resp, s')"
  shows "rc_code resp \<in> {200, 201, 400, 500}
     \<and> (rc_code resp = 400 \<longleftrightarrow> key = [] \<or> decode raw = None \<or> b_model (the (decode raw)) = [])
     \<and> (rc_code resp \<noteq> 201 \<longrightarrow> s_store s' = s_store (svc S))
     \<and> (rc_code resp = 201 \<longrightarrow> rc_body resp = BJobId uuid \<and> line (s_store s') = line (s_store (svc S)) @ [uuid]
          \<and> (\<exists>row. s_store s' = s_store (svc S) @ [row] \<and> ID row = uuid \<and> IdempotencyKey row = key
               \<and> JState row = StateQueued \<and> Prompt row = b_prompt (the (decode raw)) \<and> Model row = b_model (the (decode raw))))
     \<and> (rc_code resp = 200 \<longrightarrow> (\<exists>j\<in>set (s_store (svc S)). IdempotencyKey j = key \<and> rc_body resp = BJobId (ID j)))"
proof (cases "key = [] \<or> decode raw = None \<or> b_model (the (decode raw)) = []")
  case True
  then show ?thesis using assms(2)
    by (auto simp: handleSubmit_def writeErr_def WriteJSON_def split: if_splits option.splits)
next
  case False
  then obtain sb where sb: "decode raw = Some sb" "b_model sb \<noteq> []" "key \<noteq> []" by auto
  let ?req = "\<lparr>q_IdempotencyKey = key, q_Source = b_source sb, q_Owner = b_owner sb, q_Model = b_model sb,
    q_Prompt = b_prompt sb, q_Options = b_options sb\<rparr>"
  obtain r s1 where c: "svc_Submit marshal uuid ok now ?req (svc S) = (r, s1)" by fastforce
  note C = svc_Submit_cases [OF reachable_store [OF assms(1)] c]
  show ?thesis
  proof (cases r)
    case (Inl e)
    then show ?thesis using assms(2) sb c C by (auto simp: handleSubmit_def writeErr_def WriteJSON_def)
  next
    case (Inr p)
    obtain j b where p: "p = (j, b)" by fastforce
    have resp: "resp = WriteJSON (if b then 201 else 200) (BJobId (ID j))" "s' = s1"
      using assms(2) sb c Inr p by (auto simp: handleSubmit_def)
    show ?thesis using C Inr p sb unfolding resp by (cases b) (auto simp: WriteJSON_def)
  qed
qed

definition demo_decode :: "string \<Rightarrow> unit submit_body option" where
  "demo_decode raw = (if raw = ''{}'' then Some \<lparr>b_model = ''m'', b_prompt = ''p'', b_source = [], b_owner = [], b_options = []\<rparr> else None)"

theorem submit_responses_witness:
  "\<exists>S resp s'. run_events (job_exec (\<lambda>_. None)) demo_claim (job_start 3 0) = Some S
     \<and> handleSubmit demo_decode (\<lambda>_. None) ''b'' up 7 ''key2'' ''{}'' (svc S) = (resp, s')
     \<and> rc_code resp = 201 \<and> line (s_store s') = line (s_store (svc S)) @ [''b'']"
proof -
  obtain S where S: "run_events (job_exec (\<lambda>_. None)) demo_claim (job_start 3 0) = Some S"
    "\<exists>resp s'. handleSubmit demo_decode (\<lambda>_. None) ''b'' up 7 ''key2'' ''{}'' (svc S) = (resp, s') \<and> rc_code resp = 201"
    by (simp add: demo_claim_def job_eval store_eval Get_def handleSubmit_def demo_decode_def WriteJSON_def)
  then obtain resp s' where r: "handleSubmit demo_decode (\<lambda>_. None) ''b'' up 7 ''key2'' ''{}'' (svc S) = (resp, s')"
    "rc_code resp = 201" by blast
  from submit_responses [OF S(1) r(1)] r S(1) show ?thesis by blast
qed

text \<open>
  C28. Reading and cancelling over HTTP. In every reachable state and with a working database: for an
  unknown id every per-Job route answers 404 and changes nothing; for a known Job, the result route
  answers 200 with exactly the stored result when the Job has SUCCEEDED and 409 otherwise; the status
  route answers 200 with the Job's state, and with its 1-based place exactly while it waits; cancelling
  answers 200 with the state the Job then durably has: CANCELED, or its own if it was already terminal.
\<close>

theorem job_route_responses:
  assumes "run_events (job_exec marshal) es (job_start m q) = Some S"
  shows "(i \<notin> ID ` set (s_store (svc S)) \<longrightarrow> rc_code (handleGet up now i (svc S)) = 404
            \<and> (\<exists>resp. handleResult up now i (svc S) = (resp, svc S) \<and> rc_code resp = 404)
            \<and> (\<exists>resp. handleCancel up now i (svc S) = (resp, svc S) \<and> rc_code resp = 404))
     \<and> (\<forall>j\<in>set (s_store (svc S)). ID j = i \<longrightarrow>
            fst (handleResult up now i (svc S)) =
              (if JState j = StateSucceeded then WriteJSON 200 (BResult i (Result j)) else writeErr 409 ''job result not ready'')
            \<and> (\<exists>st. handleGet up now i (svc S) = WriteJSON 200 (BStatus st) \<and> st_State st = JState j
                 \<and> (JState j = StateQueued \<longrightarrow> Position up i (s_store (svc S)) = Inr (st_Position st))
                 \<and> (JState j \<noteq> StateQueued \<longrightarrow> st_Position st = 0))
            \<and> (\<exists>s' k. handleCancel up now i (svc S) = (WriteJSON 200 (BState i (State_string (JState k))), s')
                 \<and> k \<in> set (s_store s') \<and> ID k = i
                 \<and> JState k = (if Terminal (JState j) then JState j else StateCanceled)))"
proof (intro conjI impI ballI, goal_cases)
  case 1
  then have "Get up i (s_store (svc S)) = Inl ErrNotFound"
    using scan_id(2) [OF reachable_store [OF assms], of i ErrNotFound] by (auto simp: Get_def up_def)
  then show ?case by (simp add: handleGet_def svc_Get_def writeStoreErr_def writeErr_def WriteJSON_def)
next
  case 2
  then have "Get up i (s_store (svc S)) = Inl ErrNotFound"
    using scan_id(2) [OF reachable_store [OF assms], of i ErrNotFound] by (auto simp: Get_def up_def)
  then show ?case by (simp add: handleResult_def svc_Result_def writeStoreErr_def writeErr_def WriteJSON_def)
next
  case 3
  then have "Cancel up now i (s_store (svc S)) = (Inl ErrNotFound, s_store (svc S))"
    using scan_id(2) [OF reachable_store [OF assms], of i ErrNotFound] by (auto simp: Cancel_def up_def)
  then show ?case by (simp add: handleCancel_def svc_Cancel_def cancel_write_def writeStoreErr_def writeErr_def WriteJSON_def)
next
  case (4 j)
  then have "Get up i (s_store (svc S)) = Inr j"
    using scan_id(1) [OF reachable_store [OF assms], of i j] by (simp add: Get_def up_def)
  then show ?case by (simp add: handleResult_def svc_Result_def writeStoreErr_def writeErr_def)
next
  case (5 j)
  then have g: "Get up i (s_store (svc S)) = Inr j"
    using scan_id(1) [OF reachable_store [OF assms], of i j] by (simp add: Get_def up_def)
  have "(\<lambda>n. up (Suc n)) = up" by (simp add: up_def)
  moreover have "\<exists>p. Position up i (s_store (svc S)) = Inr p" using g by (simp add: Position_def up_def)
  ultimately show ?case using g by (auto simp: handleGet_def svc_Get_def)
next
  case (6 j)
  let ?s = "svc S"
  have inv: "store_inv (s_store ?s)" by (rule reachable_store [OF assms])
  have sc: "scanOne (filter (has_id i) (s_store ?s)) = Inr j" using scan_id(1) [OF inv, of i j] 6 by simp
  obtain r t where c: "Cancel up now i (s_store ?s) = (r, t)" by fastforce
  have "\<exists>k. r = Inr k" using c by (cases "Terminal (JState j)") (simp_all add: Cancel_def up_def sc, blast+)
  then obtain k where r: "r = Inr k" by blast
  note C = Cancel_spec [OF inv c, unfolded r, simplified]
  obtain j2 where j2: "j2 \<in> set (s_store ?s)" "ID j2 = i" "if Terminal (JState j2) then k = j2 \<and> t = s_store ?s
      else k = j2\<lparr>JState := StateCanceled, FinishedAt := Some now\<rparr> \<and> t = put j2 k (s_store ?s)" using C by blast
  have "j2 = j" using store_inv_inj [OF inv j2(1) 6(1)] j2(2) 6(2) by simp
  then have k: "k \<in> set t" "ID k = i" "JState k = (if Terminal (JState j) then JState j else StateCanceled)"
    using j2 set_put [OF j2(1), of k] by (auto split: if_splits)
  have "handleCancel up now i ?s = (WriteJSON 200 (BState i (State_string (JState k))),
      if JState k = StateCanceled then cancel_finish now i (?s\<lparr>s_store := t\<rparr>) else ?s\<lparr>s_store := t\<rparr>)"
    using c r k(2) by (simp add: handleCancel_def svc_Cancel_def cancel_write_def)
  then show ?case using k by (intro exI [of _ "if JState k = StateCanceled then cancel_finish now i (?s\<lparr>s_store := t\<rparr>) else ?s\<lparr>s_store := t\<rparr>"]
      exI [of _ k]) auto
qed

theorem job_route_responses_witness:
  "\<exists>S. run_events (job_exec (\<lambda>_. None)) demo_claim (job_start 3 0) = Some S
     \<and> fst (handleResult up 9 ''a'' (svc S)) = writeErr 409 ''job result not ready''
     \<and> rc_code (handleGet up 9 ''zz'' (svc S)) = 404"
proof -
  obtain S where S: "run_events (job_exec (\<lambda>_. None)) demo_claim (job_start 3 0) = Some S"
    "\<exists>j\<in>set (s_store (svc S)). ID j = ''a'' \<and> JState j = StateRunning" "''zz'' \<notin> ID ` set (s_store (svc S))"
    by (simp add: demo_claim_def job_eval store_eval Get_def)
  from S(2) obtain j where j: "j \<in> set (s_store (svc S))" "ID j = ''a''" "JState j = StateRunning" by blast
  show ?thesis using S(1,3) j job_route_responses [OF S(1), of "''a''" 9] job_route_responses [OF S(1), of "''zz''" 9] by auto
qed

text \<open>
  The shape of an event stream. For every Job that exists, whatever the bus, the ticker and the
  client do: the stream starts with a snapshot of the Job's current state; a Job that is already
  terminal gets \<^verbatim>\<open>done\<close> at once and the stream ends; otherwise the events sent after the snapshot are a
  prefix, in order, of those received, all of them as long as the stream is open, and \<^verbatim>\<open>done\<close> is sent at
  most once, as the last frame, and ends the stream.
\<close>

theorem event_stream_shape:
  assumes "handleEvents True ok now i ins s = (Inr (fs, fin), s')"
  shows "\<exists>st rest. svc_Get ok now i s = Inr st \<and> fs = FEvent \<lparr>EvType = EventState, EvState = Some (st_State st),
         EvPosition = st_Position st, EvProgress = st_Progress st\<rparr> # rest
     \<and> (Terminal (st_State st) \<longrightarrow> rest = [FEvent (done_event (st_State st))] \<and> fin)
     \<and> (\<not> Terminal (st_State st) \<longrightarrow> prefix (out_events rest) (in_events ins) \<and> (\<not> fin \<longrightarrow> out_events rest = in_events ins))
     \<and> list_all (\<lambda>ev. EvType ev \<noteq> EventDone) (butlast (out_events rest))
     \<and> (out_events rest \<noteq> [] \<and> EvType (last (out_events rest)) = EventDone \<longrightarrow> fin \<and> last rest = FEvent (last (out_events rest)))"
proof -
  obtain st where st: "svc_Get ok now i s = Inr st" using assms by (auto simp: handleEvents_def split: sum.splits)
  let ?snap = "FEvent \<lparr>EvType = EventState, EvState = Some (st_State st), EvPosition = st_Position st,
    EvProgress = st_Progress st\<rparr>"
  obtain rest where r: "fs = ?snap # rest"
    "(rest, fin) = (if Terminal (st_State st) then ([FEvent (done_event (st_State st))], True) else events_loop ins)"
    using assms st by (auto simp: handleEvents_def Let_def split: prod.splits if_splits)
  show ?thesis
  proof (cases "Terminal (st_State st)")
    case True
    then show ?thesis using st r by (intro exI [of _ st] exI [of _ rest]) simp
  next
    case False
    then have "loop_ok (in_events ins) rest fin" using events_loop_ok [of ins rest fin] r(2) by simp
    then show ?thesis using st r(1) False unfolding loop_ok_def by (intro exI [of _ st] exI [of _ rest]) blast
  qed
qed

theorem event_stream_shape_witness:
  "\<exists>S fs fin s'. run_events (job_exec (\<lambda>_. None)) demo_claim (job_start 3 0) = Some S
     \<and> handleEvents True up 9 ''a'' [InTick, InEvent (done_event StateSucceeded), InTick] (svc S) = (Inr (fs, fin), s')
     \<and> fin \<and> last (tl fs) = FEvent (done_event StateSucceeded)"
proof -
  let ?ins = "[InTick, InEvent (done_event StateSucceeded), InTick]"
  obtain S where S: "run_events (job_exec (\<lambda>_. None)) demo_claim (job_start 3 0) = Some S"
    "\<exists>fs fin s'. handleEvents True up 9 ''a'' ?ins (svc S) = (Inr (fs, fin), s')
       \<and> out_events (tl fs) = [done_event StateSucceeded]"
    by (simp add: demo_claim_def job_eval store_eval Get_def handleEvents_def svc_Get_def svc_Subscribe_def subscribe_def Terminal_def)
      blast
  then obtain fs fin s' where h: "handleEvents True up 9 ''a'' ?ins (svc S) = (Inr (fs, fin), s')"
    "out_events (tl fs) = [done_event StateSucceeded]" by blast
  from event_stream_shape [OF h(1)] h(2) have "fin \<and> last (tl fs) = FEvent (done_event StateSucceeded)" by force
  with S(1) h(1) show ?thesis by blast
qed

end
