(* ===== verification/Line_Scanner.thy ===== *)
theory Line_Scanner
  imports Broker_Prelude
begin

text \<open>
  The line scanner both streaming clients read an upstream's body with: \<^verbatim>\<open>bufio.Scanner\<close> with
  \<^verbatim>\<open>ScanLines\<close> and a limit on the length of a line. A body is the bytes it delivers and the error that
  ends it, if it is not the end of the data. The contract of a streaming client over such a body is a
  locale that the two parsers interpret.
\<close>

section \<open>Lines of a body\<close>

type_synonym reader = "string \<times> goerr option"

definition ErrTooLong :: goerr where "ErrTooLong = new_err ''bufio.Scanner: token too long''"

definition dropCR :: "string \<Rightarrow> string" where
  "dropCR l = (if l \<noteq> [] \<and> last l = CHR 0x0D then butlast l else l)"

text \<open>
  The lines without their ends; a last line without one counts when it is not empty, also before a read
  error. A line that fills the buffer stops the scan.
\<close>

fun scan_tokens :: "nat \<Rightarrow> goerr option \<Rightarrow> string list \<Rightarrow> string list \<times> goerr option" where
  "scan_tokens lim rerr [] = ([], rerr)"
| "scan_tokens lim rerr [l] =
     (if l = [] then ([], rerr)
      else if lim \<le> length l then ([], Some ErrTooLong) else ([dropCR l], rerr))"
| "scan_tokens lim rerr (l # ls) =
     (if lim \<le> length l then ([], Some ErrTooLong)
      else case scan_tokens lim rerr ls of (ts, er) \<Rightarrow> (dropCR l # ts, er))"

definition scan_lines :: "nat \<Rightarrow> reader \<Rightarrow> string list \<times> goerr option" where
  "scan_lines lim rd = scan_tokens lim (snd rd) (split_on newline (fst rd))"

lemma scan_line:
  assumes "newline \<notin> set l" and "length l < lim"
  shows "scan_lines lim (l @ newline # s, er) = (case scan_lines lim (s, er) of (ts, e) \<Rightarrow> (dropCR l # ts, e))"
proof -
  obtain x xs where "split_on newline s = x # xs" using split_on_not_Nil by (metis list.exhaust)
  then show ?thesis using assms by (simp add: scan_lines_def split_on_append)
qed

section \<open>Streaming clients\<close>

text \<open>What a streaming call returns: the text, the count of tokens, the error.\<close>

type_synonym stream_result = "string \<times> int \<times> goerr option"

text \<open>
  The contract of a parser: pieces of text are reported as they arrive, numbered from one; a success is
  their concatenation and needs the upstream's end marker; a failure returns no text.
\<close>

locale stream_client =
  fixes parse :: "'i \<Rightarrow> stream_result \<times> (string \<times> int) list"
    and ended :: "'i \<Rightarrow> bool"
  assumes numbered: "parse i = (r, calls) \<Longrightarrow> map snd calls = map int [1..<Suc (length calls)]"
    and nonempty: "parse i = (r, calls) \<Longrightarrow> c \<in> set calls \<Longrightarrow> fst c \<noteq> []"
    and success: "parse i = ((t, n, None), calls) \<Longrightarrow> t = concat (map fst calls) \<and> ended i"
    and failure: "parse i = ((t, n, Some e), calls) \<Longrightarrow> t = []"
begin

text \<open>Progress reported to a caller never goes back.\<close>

lemma progress_increases:
  assumes "parse i = (r, calls)"
  shows "sorted (map snd calls)" and "distinct (map snd calls)"
  using numbered[OF assms] by (simp_all add: sorted_map distinct_map sorted_wrt_upt del: upt_Suc)

text \<open>What a caller may rely on: a whole text of a stream that ended, or no text.\<close>

lemma complete_or_error:
  assumes "parse i = ((t, n, er), calls)"
  shows "(case er of Some _ \<Rightarrow> t = [] | None \<Rightarrow> ended i \<and> t = concat (map fst calls)) \<and>
    sorted (map snd calls) \<and> distinct (map snd calls)"
  using assms success failure progress_increases[OF assms] by (auto split: option.splits)

end

end
