(* ===== verification/Compute_Schedule.thy ===== *)
theory Compute_Schedule
  imports Complex_Main Line_Scanner
begin

text \<open>
  \<^verbatim>\<open>internal/schedule/schedule.go\<close>, the worker limits of \<^verbatim>\<open>internal/tdarr/tdarr.go\<close> and the loop
  \<^verbatim>\<open>runTdarrSchedule\<close> of \<^verbatim>\<open>cmd/broker/main.go\<close>. A time is its local weekday and time of day; what the Tdarr
  server answers is an argument. Durations of windows are hours as rationals, cut to whole seconds.
\<close>

section \<open>The calendar\<close>

datatype weekday = Sunday | Monday | Tuesday | Wednesday | Thursday | Friday | Saturday

record localtime =
  lt_Weekday :: weekday
  lt_Hour :: int
  lt_Minute :: int
  lt_Second :: int

record Window =
  wn_Name :: string
  wn_Weekday :: "weekday option"
  wn_StartHour :: int
  wn_StartMinute :: int
  wn_DurationH :: rat
  wn_Description :: string

definition windows :: "Window list" where
  "windows =
     [\<lparr>wn_Name = ''internal-scraper-service'', wn_Weekday = Some Friday, wn_StartHour = 2, wn_StartMinute = 0,
       wn_DurationH = 5, wn_Description = ''estatesales.net Ollama vision scan (GPU via broker, heavy batch)''\<rparr>,
      \<lparr>wn_Name = ''safe-batch'', wn_Weekday = None, wn_StartHour = 2, wn_StartMinute = 0,
       wn_DurationH = 7, wn_Description = ''preferred window for background GPU batch work (low inference demand)''\<rparr>]"

text \<open>The conversion of a float to an int cuts towards zero.\<close>

definition go_trunc :: "rat \<Rightarrow> int" where
  "go_trunc q = (if q < 0 then - \<lfloor>- q\<rfloor> else \<lfloor>q\<rfloor>)"

definition time_of_day :: "localtime \<Rightarrow> int" where
  "time_of_day t = lt_Hour t * 3600 + lt_Minute t * 60 + lt_Second t"

definition contains :: "Window \<Rightarrow> localtime \<Rightarrow> bool" where
  "contains w t =
     (case wn_Weekday w of
        Some d \<Rightarrow> if lt_Weekday t \<noteq> d then False
          else wn_StartHour w * 3600 + wn_StartMinute w * 60 \<le> time_of_day t \<and>
            time_of_day t < wn_StartHour w * 3600 + wn_StartMinute w * 60 + go_trunc (wn_DurationH w * 3600)
      | None \<Rightarrow> wn_StartHour w * 3600 + wn_StartMinute w * 60 \<le> time_of_day t \<and>
            time_of_day t < wn_StartHour w * 3600 + wn_StartMinute w * 60 + go_trunc (wn_DurationH w * 3600))"

definition Active :: "localtime \<Rightarrow> Window list" where
  "Active t = filter (\<lambda>w. contains w t) windows"

definition InWindow :: "string \<Rightarrow> localtime \<Rightarrow> bool" where
  "InWindow name t = list_ex (\<lambda>w. wn_Name w = name) (Active t)"

definition SafeForBackgroundGPU :: "localtime \<Rightarrow> bool" where
  "SafeForBackgroundGPU t \<longleftrightarrow> \<not> InWindow ''internal-scraper-service'' t"

record schedule_Snapshot =
  sn_ActiveWindows :: "(string \<times> string) list"
  sn_SafeForTdarr :: bool

definition TakeSnapshot :: "localtime \<Rightarrow> schedule_Snapshot" where
  "TakeSnapshot t =
     \<lparr>sn_ActiveWindows = map (\<lambda>w. (wn_Name w, wn_Description w)) (Active t), sn_SafeForTdarr = SafeForBackgroundGPU t\<rparr>"

section \<open>Tdarr\<close>

record tdarr_Client =
  td_nodeID :: string
  td_gpuWorkers :: int

definition tdarr_New :: "string \<Rightarrow> int \<Rightarrow> tdarr_Client" where
  "tdarr_New node n = \<lparr>td_nodeID = node, td_gpuWorkers = (if n < 1 then 1 else n)\<rparr>"

record workerLimits =
  wl_HealthCheckCPU :: int
  wl_HealthCheckGPU :: int
  wl_TranscodeCPU :: int
  wl_TranscodeGPU :: int

text \<open>
  The surroundings of \<^verbatim>\<open>post\<close>: marshalling a request for a node, with limits when it sets them, building the
  request for a path, and sending it, which returns the status and the raw answer. \<open>te_message\<close> and
  \<open>te_limits\<close> decode an answer.
\<close>

record tdarr_env =
  te_marshal :: "string \<Rightarrow> workerLimits option \<Rightarrow> goerr + string"
  te_newreq :: "string \<Rightarrow> goerr option"
  te_do :: "string \<Rightarrow> string \<Rightarrow> goerr + (int \<times> string)"
  te_message :: "string \<Rightarrow> string option"
  te_limits :: "string \<Rightarrow> goerr + workerLimits"

definition tdarr_post :: "tdarr_env \<Rightarrow> string \<Rightarrow> string \<Rightarrow> workerLimits option \<Rightarrow> goerr + string" where
  "tdarr_post env path node upd =
     (case te_marshal env node upd of
        Inl e \<Rightarrow> Inl (wrap_err ''tdarr: marshal: '' e)
      | Inr b \<Rightarrow>
          (case te_newreq env path of
             Some e \<Rightarrow> Inl (wrap_err ''tdarr: new request: '' e)
           | None \<Rightarrow>
               (case te_do env path b of
                  Inl e \<Rightarrow> Inl (wrap_err (''tdarr: '' @ path @ '': '') e)
                | Inr (code, raw) \<Rightarrow>
                    (if code \<noteq> 200 then Inl (new_err (''tdarr: '' @ path @ '': status '' @ itoa code @ '': '' @ raw))
                     else Inr raw))))"

definition setWorkers :: "tdarr_env \<Rightarrow> tdarr_Client \<Rightarrow> workerLimits \<Rightarrow> goerr option" where
  "setWorkers env c limits =
     (case tdarr_post env ''/api/v2/update-node'' (td_nodeID c) (Some limits) of
        Inl e \<Rightarrow> Some e
      | Inr raw \<Rightarrow>
          (if raw \<noteq> ''OK'' \<and> raw \<noteq> [] then
             (case te_message env raw of
                Some m \<Rightarrow> (if m \<noteq> [] then Some (new_err (''tdarr: update-node: '' @ m)) else None)
              | None \<Rightarrow> None)
           else None))"

definition gpu_limits :: "int \<Rightarrow> workerLimits" where
  "gpu_limits n = \<lparr>wl_HealthCheckCPU = 0, wl_HealthCheckGPU = 0, wl_TranscodeCPU = 1, wl_TranscodeGPU = n\<rparr>"

definition PauseGPU :: "tdarr_env \<Rightarrow> tdarr_Client \<Rightarrow> goerr option" where
  "PauseGPU env c = setWorkers env c (gpu_limits 0)"

definition ResumeGPU :: "tdarr_env \<Rightarrow> tdarr_Client \<Rightarrow> goerr option" where
  "ResumeGPU env c = setWorkers env c (gpu_limits (td_gpuWorkers c))"

definition WorkerLimits :: "tdarr_env \<Rightarrow> tdarr_Client \<Rightarrow> goerr + int" where
  "WorkerLimits env c =
     (case tdarr_post env ''/api/v2/poll-worker-limits'' (td_nodeID c) None of
        Inl e \<Rightarrow> Inl e
      | Inr raw \<Rightarrow>
          (case te_limits env raw of
             Inl e \<Rightarrow> Inl (wrap_err ''tdarr: decode worker-limits: '' e)
           | Inr l \<Rightarrow> Inr (wl_TranscodeGPU l)))"

section \<open>The schedule loop\<close>

datatype tdarr_call = CallPause | CallResume

text \<open>One tick: the call it makes, if any, and the flag afterwards; \<open>ok\<close> says whether a call would succeed.\<close>

definition schedule_tick :: "localtime \<Rightarrow> bool \<Rightarrow> bool \<Rightarrow> tdarr_call option \<times> bool" where
  "schedule_tick now ok paused =
     (let shouldPause = \<not> SafeForBackgroundGPU now in
      if shouldPause \<and> \<not> paused then (Some CallPause, if ok then True else paused)
      else if \<not> shouldPause \<and> paused then (Some CallResume, if ok then False else paused)
      else (None, paused))"

fun runTdarrSchedule :: "(localtime \<times> bool) list \<Rightarrow> bool \<Rightarrow> (tdarr_call \<times> bool) list \<times> bool" where
  "runTdarrSchedule [] paused = ([], paused)"
| "runTdarrSchedule ((now, ok) # ticks) paused =
     (case schedule_tick now ok paused of
        (call, paused') \<Rightarrow>
          (case runTdarrSchedule ticks paused' of
             (calls, p) \<Rightarrow> ((case call of Some c \<Rightarrow> [(c, ok)] | None \<Rightarrow> []) @ calls, p)))"

section \<open>Lemmas\<close>

lemma safe_iff:
  "SafeForBackgroundGPU t \<longleftrightarrow> \<not> (lt_Weekday t = Friday \<and> 7200 \<le> time_of_day t \<and> time_of_day t < 25200)"
  by (auto simp: SafeForBackgroundGPU_def InWindow_def Active_def windows_def contains_def go_trunc_def)

text \<open>The state of Tdarr as the calls that succeeded leave it.\<close>

fun gpu_paused :: "(tdarr_call \<times> bool) list \<Rightarrow> bool \<Rightarrow> bool" where
  "gpu_paused [] b = b"
| "gpu_paused ((c, ok) # cs) b = gpu_paused cs (if ok then c = CallPause else b)"

lemma gpu_paused_append: "gpu_paused (xs @ ys) b = gpu_paused ys (gpu_paused xs b)"
  by (induction xs b rule: gpu_paused.induct) simp_all

text \<open>
  The loop follows the calendar: its flag always agrees with what its successful calls did, and after a
  tick whose call does not fail it is set exactly inside the window.
\<close>

theorem schedule_follows_calendar:
  "snd (runTdarrSchedule ticks p) = gpu_paused (fst (runTdarrSchedule ticks p)) p"
proof (induction ticks arbitrary: p)
  case (Cons tk ticks)
  obtain now ok where tk: "tk = (now, ok)" by fastforce
  obtain call p' where st: "schedule_tick now ok p = (call, p')" by fastforce
  obtain calls q where r: "runTdarrSchedule ticks p' = (calls, q)" by fastforce
  have "p' = gpu_paused (case call of Some c \<Rightarrow> [(c, ok)] | None \<Rightarrow> []) p"
    using st by (auto simp: schedule_tick_def Let_def split: if_splits)
  with Cons[of p'] st r show ?case by (simp add: tk gpu_paused_append)
qed simp

theorem schedule_tick_settles:
  "snd (schedule_tick now True p) \<longleftrightarrow> lt_Weekday now = Friday \<and> 7200 \<le> time_of_day now \<and> time_of_day now < 25200"
  unfolding schedule_tick_def Let_def by (auto simp: safe_iff)

text \<open>
  The loop does not see the calls of the yield controller. When a yield clears inside the window, its
  resume stays in force: the next tick makes no call.
\<close>

theorem resumed_inside_window:
  assumes "\<not> SafeForBackgroundGPU now" and "\<not> SafeForBackgroundGPU now'"
  shows "fst (runTdarrSchedule [(now, True)] False) = [(CallPause, True)] \<and>
    fst (runTdarrSchedule [(now', True)] (snd (runTdarrSchedule [(now, True)] False))) = [] \<and>
    \<not> gpu_paused ([(CallPause, True)] @ [(CallPause, True), (CallResume, True)] @ []) False"
  using assms by (simp add: schedule_tick_def)

end
