(* ===== verification/Queue_Scheduler.thy ===== *)
theory Queue_Scheduler
  imports Broker_Prelude
begin

text \<open>
  \<^verbatim>\<open>internal/queue/scheduler.go\<close>: the priority-aware gate over the GPU. The \<^verbatim>\<open>Scheduler\<close> struct is
  the record \<open>Scheduler\<close>; each method is a function on it, split at the points where the code
  gives up the mutex. The goroutines that call \<^verbatim>\<open>Acquire\<close> and \<^verbatim>\<open>Release\<close> are modelled as an event
  system (\<open>sched_exec\<close>) whose events are exactly the critical sections, so every interleaving the
  mutex allows is a run.
\<close>

section \<open>Priority classes\<close>

text \<open>
  \<^verbatim>\<open>Class\<close> is an int8 with two named values; any other value is \<open>UnknownClass\<close>, which the code
  queues with batch work and prints as \<open>unknown\<close>.
\<close>

datatype Class = Batch | Interactive | UnknownClass

fun Class_String :: "Class \<Rightarrow> string" where
  "Class_String Interactive = ''interactive''"
| "Class_String Batch = ''batch''"
| "Class_String UnknownClass = ''unknown''"

definition MaxWaitersPerClass :: int where "MaxWaitersPerClass = 256"

section \<open>State\<close>

text \<open>
  The park queue (\<^verbatim>\<open>park.go\<close>) is a field of the scheduler, so its data are declared here. A
  \<^verbatim>\<open>*parkedReq\<close> is identified by its release channel, which is freshly allocated with it.
\<close>

record parkedReq =
  enqueuedAt :: instant
  pr_release :: chan

record parker =
  pq :: "parkedReq list"
  maxQueue :: int
  hold :: duration
  drainBurst :: int

text \<open>
  \<open>interactiveWaiting\<close> is the token in the channel of capacity one; \<open>shutdownCtx\<close> is the Done
  channel of the shutdown context, \<open>None\<close> for \<^verbatim>\<open>context.Background()\<close>, which never fires.
\<close>

record Scheduler =
  inflight :: int
  maxInflight :: int
  iq :: "chan list"
  bq :: "chan list"
  maxWaiters :: int
  interactiveWaiting :: bool
  park :: parker
  shutdownCtx :: "chan option"

definition New :: Scheduler where
  "New = \<lparr>inflight = 0, maxInflight = 1, iq = [], bq = [], maxWaiters = MaxWaitersPerClass,
     interactiveWaiting = False,
     park = \<lparr>pq = [], maxQueue = 0, hold = 0, drainBurst = 0\<rparr>,
     shutdownCtx = None\<rparr>"

definition SetMaxWaiters :: "int \<Rightarrow> Scheduler \<Rightarrow> Scheduler" where
  "SetMaxWaiters n s = (if n < 1 then s else s\<lparr>maxWaiters := n\<rparr>)"

definition SetMaxInflight :: "int \<Rightarrow> Scheduler \<Rightarrow> Scheduler" where
  "SetMaxInflight n s = (if n < 1 then s else s\<lparr>maxInflight := n\<rparr>)"

section \<open>Helpers under the mutex\<close>

text \<open>A send on a full buffered channel takes the default branch: the ping is coalesced.\<close>

definition pingInteractiveLocked :: "Scheduler \<Rightarrow> Scheduler" where
  "pingInteractiveLocked s = (if interactiveWaiting s then s else s\<lparr>interactiveWaiting := True\<rparr>)"

definition queueLen :: "Class \<Rightarrow> Scheduler \<Rightarrow> int" where
  "queueLen class s = (if class = Interactive then int (length (iq s)) else int (length (bq s)))"

definition enqueue :: "Class \<Rightarrow> chan \<Rightarrow> Scheduler \<Rightarrow> Scheduler" where
  "enqueue class w s =
     (if class = Interactive then s\<lparr>iq := iq s @ [w]\<rparr> else s\<lparr>bq := bq s @ [w]\<rparr>)"

definition dequeue :: "Scheduler \<Rightarrow> chan option \<times> Scheduler" where
  "dequeue s =
     (case iq s of
        w # ws \<Rightarrow> (Some w, s\<lparr>iq := ws\<rparr>)
      | [] \<Rightarrow> (case bq s of
          w # ws \<Rightarrow> (Some w, s\<lparr>bq := ws\<rparr>)
        | [] \<Rightarrow> (None, s)))"

definition removeWaiter :: "Class \<Rightarrow> chan \<Rightarrow> Scheduler \<Rightarrow> bool \<times> Scheduler" where
  "removeWaiter class w s =
     (if class = Interactive
      then (case scan_remove w (iq s) of (found, q) \<Rightarrow> (found, s\<lparr>iq := q\<rparr>))
      else (case scan_remove w (bq s) of (found, q) \<Rightarrow> (found, s\<lparr>bq := q\<rparr>)))"

section \<open>Acquire and Release\<close>

text \<open>
  The first critical section of \<^verbatim>\<open>Acquire\<close>: a free slot is taken, a full class queue is refused,
  otherwise the caller is queued on a fresh channel and goes on to its select.
\<close>

datatype acquire_result = AcqNil | AcqErrQueueFull | AcqWait chan

definition Acquire :: "Class \<Rightarrow> Scheduler \<Rightarrow> heap \<Rightarrow> acquire_result \<times> Scheduler \<times> heap" where
  "Acquire class s h =
     (if inflight s < maxInflight s then (AcqNil, s\<lparr>inflight := inflight s + 1\<rparr>, h)
      else if queueLen class s \<ge> maxWaiters s then (AcqErrQueueFull, s, h)
      else (case make_chan h of (w, h') \<Rightarrow>
        let s' = enqueue class w s in
        (AcqWait w, if class = Interactive then pingInteractiveLocked s' else s', h')))"

text \<open>\<open>None\<close> is the panic of closing a closed channel.\<close>

definition Release :: "Scheduler \<Rightarrow> heap \<Rightarrow> (Scheduler \<times> heap) option" where
  "Release s h =
     (case dequeue s of
        (Some w, s') \<Rightarrow> map_option (\<lambda>h'. (s', h')) (close_chan w h)
      | (None, s') \<Rightarrow> Some (s'\<lparr>inflight := inflight s' - 1\<rparr>, h))"

record Stats =
  Busy :: bool
  StInflight :: int
  StMaxInflight :: int
  StInteractive :: int
  StBatch :: int
  Parked :: int

definition Scheduler_Stats :: "Scheduler \<Rightarrow> Stats" where
  "Scheduler_Stats s =
     \<lparr>Busy = inflight s > 0, StInflight = inflight s, StMaxInflight = maxInflight s,
      StInteractive = int (length (iq s)), StBatch = int (length (bq s)),
      Parked = int (length (pq (park s)))\<rparr>"

declare SetMaxWaiters_def [broker_defs] SetMaxInflight_def [broker_defs]
  pingInteractiveLocked_def [broker_defs] queueLen_def [broker_defs] enqueue_def [broker_defs]
  make_chan_def [broker_defs]

section \<open>The goroutines\<close>

text \<open>
  A goroutine that uses the scheduler is outside it, waiting in the select of \<^verbatim>\<open>Acquire\<close> on its
  channel, holding a slot, or, after its context was done while the slot had already been granted
  to it, about to call \<^verbatim>\<open>Release\<close> to hand the slot on.
\<close>

datatype pc = Outside | Waiting Class chan | Holding | HandingOn

type_synonym tid = nat

record sched_sys =
  sch :: Scheduler
  hp :: heap
  pcs :: "tid \<Rightarrow> pc"
  panicked :: bool

datatype sched_event =
    EvAcquire tid Class   \<comment> \<open>enter \<^verbatim>\<open>Acquire\<close>, up to the first unlock\<close>
  | EvWoken tid           \<comment> \<open>the select receives from the waiter's channel\<close>
  | EvCtxDone tid         \<comment> \<open>the select takes the context branch, up to its unlock\<close>
  | EvRelease tid         \<comment> \<open>a holder calls \<^verbatim>\<open>Release\<close>\<close>
  | EvRecvPing            \<comment> \<open>the Job worker receives from \<^verbatim>\<open>InteractiveWaiting\<close>\<close>

fun sched_exec :: "sched_event \<Rightarrow> sched_sys \<Rightarrow> sched_sys option" where
  "sched_exec (EvAcquire t class) S =
     (if pcs S t \<noteq> Outside then None
      else case Acquire class (sch S) (hp S) of
        (AcqNil, s, h) \<Rightarrow> Some (S\<lparr>sch := s, hp := h, pcs := (pcs S)(t := Holding)\<rparr>)
      | (AcqErrQueueFull, s, h) \<Rightarrow> Some (S\<lparr>sch := s, hp := h\<rparr>)
      | (AcqWait w, s, h) \<Rightarrow> Some (S\<lparr>sch := s, hp := h, pcs := (pcs S)(t := Waiting class w)\<rparr>))"
| "sched_exec (EvWoken t) S =
     (case pcs S t of
        Waiting class w \<Rightarrow>
          if w \<in> closedc (hp S) then Some (S\<lparr>pcs := (pcs S)(t := Holding)\<rparr>) else None
      | _ \<Rightarrow> None)"
| "sched_exec (EvCtxDone t) S =
     (case pcs S t of
        Waiting class w \<Rightarrow>
          (case removeWaiter class w (sch S) of
             (True, s) \<Rightarrow> Some (S\<lparr>sch := s, pcs := (pcs S)(t := Outside)\<rparr>)
           | (False, s) \<Rightarrow> Some (S\<lparr>sch := s, pcs := (pcs S)(t := HandingOn)\<rparr>))
      | _ \<Rightarrow> None)"
| "sched_exec (EvRelease t) S =
     (if pcs S t = Holding \<or> pcs S t = HandingOn
      then (case Release (sch S) (hp S) of
              None \<Rightarrow> Some (S\<lparr>panicked := True\<rparr>)
            | Some (s, h) \<Rightarrow> Some (S\<lparr>sch := s, hp := h, pcs := (pcs S)(t := Outside)\<rparr>))
      else None)"
| "sched_exec EvRecvPing S =
     (if interactiveWaiting (sch S) then Some (S\<lparr>sch := (sch S)\<lparr>interactiveWaiting := False\<rparr>\<rparr>)
      else None)"

text \<open>A scheduler as the broker starts it: built by \<^verbatim>\<open>New\<close> and configured before serving.\<close>

definition sched_start :: "int \<Rightarrow> int \<Rightarrow> sched_sys" where
  "sched_start maxw maxi =
     \<lparr>sch = SetMaxInflight maxi (SetMaxWaiters maxw New), hp = empty_heap,
      pcs = (\<lambda>_. Outside), panicked = False\<rparr>"


section \<open>The invariant\<close>

text \<open>
  A slot is owned by a holder, by a goroutine handing its slot on, and by a waiter whose channel
  has been closed: ownership moves at the close, before the waiter runs.
\<close>

definition owners :: "sched_sys \<Rightarrow> tid set" where
  "owners S = {t. pcs S t = Holding \<or> pcs S t = HandingOn
     \<or> (\<exists>c w. pcs S t = Waiting c w \<and> w \<in> closedc (hp S))}"

definition queue_of_class :: "Class \<Rightarrow> Scheduler \<Rightarrow> chan list" where
  "queue_of_class c s = (if c = Interactive then iq s else bq s)"

definition slots_ok :: "sched_sys \<Rightarrow> bool" where
  "slots_ok S \<longleftrightarrow> finite (owners S) \<and> inflight (sch S) = int (card (owners S))
     \<and> inflight (sch S) \<le> maxInflight (sch S)
     \<and> (iq (sch S) @ bq (sch S) \<noteq> [] \<longrightarrow> inflight (sch S) = maxInflight (sch S))"

definition line_ok :: "sched_sys \<Rightarrow> bool" where
  "line_ok S \<longleftrightarrow> heap_ok (hp S) \<and> distinct (iq (sch S) @ bq (sch S))
     \<and> (\<forall>w \<in> set (iq (sch S)) \<union> set (bq (sch S)). w \<notin> closedc (hp S) \<and> w < nextc (hp S)
          \<and> (\<exists>t c. pcs S t = Waiting c w))
     \<and> (\<forall>t c w. pcs S t = Waiting c w \<longrightarrow> w < nextc (hp S)
          \<and> (w \<in> closedc (hp S) \<or> w \<in> set (queue_of_class c (sch S))))
     \<and> (\<forall>t t' c c' w. pcs S t = Waiting c w \<longrightarrow> pcs S t' = Waiting c' w \<longrightarrow> t = t')"

definition caps_ok :: "sched_sys \<Rightarrow> bool" where
  "caps_ok S \<longleftrightarrow> int (length (iq (sch S))) \<le> maxWaiters (sch S)
     \<and> int (length (bq (sch S))) \<le> maxWaiters (sch S)"

definition sched_inv :: "sched_sys \<Rightarrow> bool" where
  "sched_inv S \<longleftrightarrow> slots_ok S \<and> line_ok S \<and> caps_ok S \<and> \<not> panicked S"

lemmas sched_inv_defs = sched_inv_def slots_ok_def line_ok_def caps_ok_def queue_of_class_def
  heap_ok_def

lemma sched_start_inv: "sched_inv (sched_start maxw maxi)"
  by (auto simp: sched_inv_defs sched_start_def New_def broker_defs owners_def empty_heap_def
      MaxWaitersPerClass_def)

lemma line_okI:
  assumes "\<And>w. w \<in> closedc (hp S) \<Longrightarrow> w < nextc (hp S)"
    and "distinct (iq (sch S) @ bq (sch S))"
    and "\<And>w. w \<in> set (iq (sch S)) \<union> set (bq (sch S)) \<Longrightarrow> w \<notin> closedc (hp S)"
    and "\<And>w. w \<in> set (iq (sch S)) \<union> set (bq (sch S)) \<Longrightarrow> w < nextc (hp S)"
    and "\<And>w. w \<in> set (iq (sch S)) \<union> set (bq (sch S)) \<Longrightarrow> \<exists>t c. pcs S t = Waiting c w"
    and "\<And>t c w. pcs S t = Waiting c w \<Longrightarrow> w < nextc (hp S)"
    and "\<And>t c w. pcs S t = Waiting c w \<Longrightarrow>
           w \<in> closedc (hp S) \<or> w \<in> set (queue_of_class c (sch S))"
    and "\<And>t t' c c' w. pcs S t = Waiting c w \<Longrightarrow> pcs S t' = Waiting c' w \<Longrightarrow> t = t'"
  shows "line_ok S"
  using assms unfolding line_ok_def heap_ok_def by blast

text \<open>What the invariant says of one waiter and of one queued channel.\<close>

lemma waiter_alloc [broker_inv]: "sched_inv S \<Longrightarrow> pcs S t = Waiting c w \<Longrightarrow> w < nextc (hp S)"
  by (auto simp: sched_inv_def line_ok_def)

lemma waiter_granted_or_queued [broker_inv]:
  "sched_inv S \<Longrightarrow> pcs S t = Waiting c w \<Longrightarrow>
     w \<in> closedc (hp S) \<or> w \<in> set (queue_of_class c (sch S))"
  by (auto simp: sched_inv_def line_ok_def)

lemma waiter_unique [broker_inv]:
  "sched_inv S \<Longrightarrow> pcs S t = Waiting c w \<Longrightarrow> pcs S t' = Waiting c' w \<Longrightarrow> t = t'"
  unfolding sched_inv_def line_ok_def by blast

lemma queued_fresh [broker_inv]:
  assumes "sched_inv S" "w \<in> set (iq (sch S)) \<union> set (bq (sch S))"
  shows "w \<notin> closedc (hp S)" "w < nextc (hp S)" "\<exists>t c. pcs S t = Waiting c w"
  using assms unfolding sched_inv_def line_ok_def by blast+

lemma queues_distinct [broker_inv]:
  "sched_inv S \<Longrightarrow> distinct (iq (sch S) @ bq (sch S))"
  by (simp add: sched_inv_def line_ok_def)

lemma closed_alloc [broker_inv]: "sched_inv S \<Longrightarrow> w \<in> closedc (hp S) \<Longrightarrow> w < nextc (hp S)"
  by (auto simp: sched_inv_def line_ok_def heap_ok_def)

subsection \<open>One lemma per event\<close>

lemma owners_upd_holding:
  "pcs S t = Outside \<Longrightarrow> owners (S\<lparr>sch := s, pcs := (pcs S)(t := Holding)\<rparr>) = insert t (owners S)"
  by (auto simp: owners_def)

lemma not_owner_outside: "pcs S t = Outside \<Longrightarrow> t \<notin> owners S"
  by (simp add: owners_def)

lemma acquire_slot_inv:
  assumes "sched_inv S" "pcs S t = Outside" "inflight (sch S) < maxInflight (sch S)"
  shows "sched_inv (S\<lparr>sch := (sch S)\<lparr>inflight := inflight (sch S) + 1\<rparr>,
    pcs := (pcs S)(t := Holding)\<rparr>)" (is "sched_inv ?S")
proof -
  have own: "owners ?S = insert t (owners S)" "t \<notin> owners S"
    using assms(2) by (simp_all add: owners_upd_holding not_owner_outside)
  then have "slots_ok ?S" using assms(1,3) by (auto simp: sched_inv_def slots_ok_def)
  moreover have "line_ok ?S" using assms(1,2) unfolding sched_inv_def line_ok_def queue_of_class_def
    by (simp split: if_splits) (metis pc.distinct(1))
  ultimately show ?thesis using assms(1) by (simp add: sched_inv_def caps_ok_def)
qed

lemma acquire_wait_inv:
  assumes inv: "sched_inv S" and out: "pcs S t = Outside"
    and busy: "\<not> inflight (sch S) < maxInflight (sch S)"
    and room: "\<not> queueLen class (sch S) \<ge> maxWaiters (sch S)"
  shows "sched_inv (S\<lparr>sch := enqueue class (nextc (hp S)) (sch S)\<lparr>interactiveWaiting := b\<rparr>,
     hp := (hp S)\<lparr>nextc := Suc (nextc (hp S))\<rparr>,
     pcs := (pcs S)(t := Waiting class (nextc (hp S)))\<rparr>)" (is "sched_inv ?S")
proof -
  let ?w = "nextc (hp S)"
  have fresh: "?w \<notin> closedc (hp S)" "?w \<notin> set (iq (sch S))" "?w \<notin> set (bq (sch S))"
    "\<And>u c. pcs S u \<noteq> Waiting c ?w"
    using closed_alloc [OF inv, of ?w] queued_fresh [OF inv, of ?w] waiter_alloc [OF inv] by auto
  have own: "owners ?S = owners S" using fresh(1) out by (auto simp: owners_def)
  have "slots_ok ?S" using inv busy unfolding sched_inv_def slots_ok_def own
    by (auto simp: enqueue_def)
  moreover have "line_ok ?S"
  proof (rule line_okI, goal_cases)
    case (1 w) then show ?case using closed_alloc [OF inv, of w] by simp
  next
    case 2 show ?case using queues_distinct [OF inv] fresh by (auto simp: enqueue_def)
  next
    case (3 w) then show ?case using queued_fresh(1) [OF inv, of w] fresh
      by (auto simp: enqueue_def split: if_splits)
  next
    case (4 w) then show ?case using queued_fresh(2) [OF inv, of w]
      by (auto simp: enqueue_def split: if_splits)
  next
    case (5 w)
    then have "w = ?w \<or> w \<in> set (iq (sch S)) \<union> set (bq (sch S))"
      by (auto simp: enqueue_def split: if_splits)
    then show ?case using queued_fresh(3) [OF inv, of w] out
      by (auto simp del: fun_upd_apply) (metis fun_upd_apply pc.distinct(1))+
  next
    case (6 u c w) then show ?case using waiter_alloc [OF inv, of u c w] by (auto split: if_splits)
  next
    case (7 u c w) then show ?case using waiter_granted_or_queued [OF inv, of u c w]
      by (auto simp: enqueue_def queue_of_class_def split: if_splits)
  next
    case (8 u u' c c' w) then show ?case using waiter_unique [OF inv, of u c w u' c'] fresh(4)
      by (auto split: if_splits)
  qed
  moreover have "caps_ok ?S" using inv room
    by (auto simp: sched_inv_def caps_ok_def enqueue_def queueLen_def split: if_splits)
  ultimately show ?thesis using inv by (simp add: sched_inv_def)
qed


text \<open>A waiter leaves its select: its channel is no longer queued and nobody waits on it.\<close>

lemma waiter_leaves_line:
  assumes inv: "sched_inv S" and wt: "pcs S t = Waiting c w"
    and p: "\<And>c' w'. p \<noteq> Waiting c' w'"
    and q: "iq s' = remove1 w (iq (sch S))" "bq s' = remove1 w (bq (sch S))"
  shows "line_ok (S\<lparr>sch := s', pcs := (pcs S)(t := p)\<rparr>)" (is "line_ok ?S")
proof -
  have sub: "set (iq s') \<union> set (bq s') = set (iq (sch S)) \<union> set (bq (sch S)) - {w}"
    using queues_distinct [OF inv] by (auto simp: q set_remove1_eq)
  show ?thesis
  proof (rule line_okI, goal_cases)
    case (1 v) then show ?case using closed_alloc [OF inv, of v] by simp
  next
    case 2 show ?case using queues_distinct [OF inv] by (auto simp: q dest: notin_set_remove1)
  next
    case (3 v) then show ?case using queued_fresh(1) [OF inv, of v] sub by auto
  next
    case (4 v) then show ?case using queued_fresh(2) [OF inv, of v] sub by auto
  next
    case (5 v)
    then have v: "v \<in> set (iq (sch S)) \<union> set (bq (sch S))" "v \<noteq> w" using sub by auto
    then obtain t' c' where t': "pcs S t' = Waiting c' v" using queued_fresh(3) [OF inv] by blast
    with wt v(2) have "t' \<noteq> t" by auto
    with t' show ?case by auto
  next
    case (6 u c' v) then show ?case using waiter_alloc [OF inv, of u c' v] p by (auto split: if_splits)
  next
    case (7 u c' v)
    then have u: "pcs S u = Waiting c' v" "u \<noteq> t" using p by (auto split: if_splits)
    then have "v \<noteq> w" using waiter_unique [OF inv u(1), of t c] wt by auto
    then show ?case using waiter_granted_or_queued [OF inv u(1)] by (auto simp: queue_of_class_def q)
  next
    case (8 u u' c1 c2 v) then show ?case using waiter_unique [OF inv, of u c1 v u' c2] p
      by (auto split: if_splits)
  qed
qed

lemma removeWaiter_eq:
  assumes inv: "sched_inv S" and wt: "pcs S t = Waiting c w"
  obtains s' where "removeWaiter c w (sch S) = (w \<notin> closedc (hp S), s')"
    "s' = (sch S)\<lparr>iq := remove1 w (iq (sch S)), bq := remove1 w (bq (sch S))\<rparr>"
proof -
  have cl: "w \<in> closedc (hp S) \<Longrightarrow> w \<notin> set (iq (sch S)) \<union> set (bq (sch S))"
    using queued_fresh(1) [OF inv, of w] by blast
  have qu: "w \<notin> closedc (hp S) \<Longrightarrow> w \<in> set (queue_of_class c (sch S))"
    using waiter_granted_or_queued [OF inv wt] by blast
  show thesis
  proof (rule that)
    show "removeWaiter c w (sch S) = (w \<notin> closedc (hp S),
        (sch S)\<lparr>iq := remove1 w (iq (sch S)), bq := remove1 w (bq (sch S))\<rparr>)"
    proof (cases "w \<in> closedc (hp S)")
      case True
      then show ?thesis using cl
        by (auto simp: removeWaiter_def scan_remove_eq remove1_idem)
    next
      case False
      then have "w \<in> set (queue_of_class c (sch S))" by (rule qu)
      then have "c = Interactive \<and> remove1 w (bq (sch S)) = bq (sch S) \<and> w \<in> set (iq (sch S))
          \<or> c \<noteq> Interactive \<and> remove1 w (iq (sch S)) = iq (sch S) \<and> w \<in> set (bq (sch S))"
        using queues_distinct [OF inv] by (auto simp: queue_of_class_def intro!: remove1_idem
            split: if_splits)
      with False show ?thesis by (auto simp: removeWaiter_def scan_remove_eq)
    qed
  qed simp
qed

lemma woken_inv:
  assumes inv: "sched_inv S" and wt: "pcs S t = Waiting c w" and cl: "w \<in> closedc (hp S)"
  shows "sched_inv (S\<lparr>pcs := (pcs S)(t := Holding)\<rparr>)" (is "sched_inv ?S")
proof -
  have "w \<notin> set (iq (sch S)) \<union> set (bq (sch S))" using queued_fresh(1) [OF inv, of w] cl by blast
  then have "line_ok (S\<lparr>sch := sch S, pcs := (pcs S)(t := Holding)\<rparr>)"
    by (intro waiter_leaves_line [OF inv wt]) (simp_all add: remove1_idem)
  moreover have "owners ?S = owners S" using wt cl by (auto simp: owners_def)
  ultimately show ?thesis using inv by (auto simp: sched_inv_def slots_ok_def caps_ok_def)
qed

lemma ctx_done_inv:
  assumes inv: "sched_inv S" and wt: "pcs S t = Waiting c w"
    and rm: "removeWaiter c w (sch S) = (found, s')"
  shows "sched_inv (S\<lparr>sch := s', pcs := (pcs S)(t := (if found then Outside else HandingOn))\<rparr>)"
    (is "sched_inv ?S")
proof -
  obtain s'' where "removeWaiter c w (sch S) = (w \<notin> closedc (hp S), s'')"
    and s'': "s'' = (sch S)\<lparr>iq := remove1 w (iq (sch S)), bq := remove1 w (bq (sch S))\<rparr>"
    by (rule removeWaiter_eq [OF inv wt])
  with rm have fs: "found = (w \<notin> closedc (hp S))" "s' = s''" by auto
  have line: "line_ok ?S" by (rule waiter_leaves_line [OF inv wt]) (auto simp: fs s'')
  have own: "owners ?S = owners S" using wt fs(1) by (auto simp: owners_def)
  have "iq s' @ bq s' \<noteq> [] \<Longrightarrow> iq (sch S) @ bq (sch S) \<noteq> []" by (auto simp: fs s'')
  with own inv have "slots_ok ?S" by (auto simp: sched_inv_def slots_ok_def fs(2) s'')
  moreover have "caps_ok ?S" using inv
    by (auto simp: sched_inv_def caps_ok_def fs(2) s'' length_remove1)
  ultimately show ?thesis using line inv by (simp add: sched_inv_def)
qed


text \<open>
  \<^verbatim>\<open>dequeue\<close> serves the interactive queue first. The two queues laid end to end are the waiting
  line; it takes its head.
\<close>

definition waiting_line :: "Scheduler \<Rightarrow> chan list" where
  "waiting_line s = iq s @ bq s"

lemma dequeue_line:
  "dequeue s = (case waiting_line s of [] \<Rightarrow> (None, s)
     | w # ws \<Rightarrow> (Some w, if iq s = [] then s\<lparr>bq := ws\<rparr> else s\<lparr>iq := tl (iq s)\<rparr>))"
  by (auto simp: dequeue_def waiting_line_def split: list.splits)

lemma dequeue_frame:
  assumes "dequeue s = (r, s')"
  shows "inflight s' = inflight s" "maxInflight s' = maxInflight s" "maxWaiters s' = maxWaiters s"
    "waiting_line s' = tl (waiting_line s)" "r = (case waiting_line s of [] \<Rightarrow> None | w # _ \<Rightarrow> Some w)"
    "length (iq s') \<le> length (iq s)" "length (bq s') \<le> length (bq s)"
    "\<And>w. w \<in> set (iq s') \<Longrightarrow> w \<in> set (iq s)" "\<And>w. w \<in> set (bq s') \<Longrightarrow> w \<in> set (bq s)"
  using assms by (auto simp: dequeue_def waiting_line_def split: list.splits)

lemma release_empty_inv:
  assumes inv: "sched_inv S" and own: "pcs S t = Holding \<or> pcs S t = HandingOn"
    and emp: "waiting_line (sch S) = []"
  shows "sched_inv (S\<lparr>sch := (sch S)\<lparr>inflight := inflight (sch S) - 1\<rparr>,
    pcs := (pcs S)(t := Outside)\<rparr>)" (is "sched_inv ?S")
proof -
  have "t \<in> owners S" "owners ?S = owners S - {t}" using own by (auto simp: owners_def)
  moreover have fin: "finite (owners S)" "inflight (sch S) = int (card (owners S))"
    "inflight (sch S) \<le> maxInflight (sch S)"
    using inv by (auto simp: sched_inv_def slots_ok_def)
  moreover from this \<open>t \<in> owners S\<close> have "card (owners S) > 0" by (auto simp: card_gt_0_iff)
  ultimately have "slots_ok ?S" using emp
    by (simp add: slots_ok_def waiting_line_def card_Diff_singleton of_nat_diff)
  moreover have "line_ok ?S"
  proof (rule line_okI, goal_cases)
    case (1 w) then show ?case using closed_alloc [OF inv, of w] by simp
  next
    case (6 u c w) then show ?case using waiter_alloc [OF inv, of u c w] by (auto split: if_splits)
  next
    case (7 u c w) then show ?case using waiter_granted_or_queued [OF inv, of u c w]
      by (auto simp: queue_of_class_def split: if_splits)
  next
    case (8 u u' c c' w) then show ?case using waiter_unique [OF inv, of u c w u' c']
      by (auto split: if_splits)
  qed (use emp in \<open>auto simp: waiting_line_def\<close>)
  ultimately show ?thesis using inv by (simp add: sched_inv_def caps_ok_def)
qed

lemma release_grant_inv:
  assumes inv: "sched_inv S" and own: "pcs S t = Holding \<or> pcs S t = HandingOn"
    and line: "waiting_line (sch S) = w # ws" and dq: "dequeue (sch S) = (Some w, s')"
  shows "sched_inv (S\<lparr>sch := s', hp := (hp S)\<lparr>closedc := insert w (closedc (hp S))\<rparr>,
    pcs := (pcs S)(t := Outside)\<rparr>)" (is "sched_inv ?S")
proof -
  note fr = dequeue_frame [OF dq]
  have w: "w \<in> set (iq (sch S)) \<union> set (bq (sch S))" "w \<notin> set ws" "distinct ws"
    using line queues_distinct [OF inv] by (auto simp: waiting_line_def simp flip: set_append)
  have ws: "iq s' @ bq s' = ws" using fr(4) line by (simp add: waiting_line_def)
  then have ws': "set (iq s') \<union> set (bq s') = set ws" by (metis set_append)
  obtain t0 c0 where t0: "pcs S t0 = Waiting c0 w" using queued_fresh(3) [OF inv w(1)] by blast
  have "owners ?S = insert t0 (owners S - {t})"
  proof (intro set_eqI)
    fix u show "u \<in> owners ?S \<longleftrightarrow> u \<in> insert t0 (owners S - {t})"
      using t0 own waiter_unique [OF inv t0, of u] by (cases "pcs S u") (auto simp: owners_def)
  qed
  moreover have "t0 \<notin> owners S" "t \<in> owners S" "t0 \<noteq> t"
    using t0 own queued_fresh(1) [OF inv w(1)] by (auto simp: owners_def)
  moreover have sl: "finite (owners S)" "inflight (sch S) = int (card (owners S))"
    "inflight (sch S) = maxInflight (sch S)"
    using inv line by (auto simp: sched_inv_def slots_ok_def waiting_line_def)
  ultimately have "finite (owners ?S)" "card (owners ?S) = card (owners S)"
    by (simp, metis card.remove card_insert_disjoint finite_Diff DiffD1)
  then have "slots_ok ?S" using sl fr by (simp add: slots_ok_def)
  moreover have "line_ok ?S"
  proof (rule line_okI, goal_cases)
    case (1 v) then show ?case using closed_alloc [OF inv, of v] queued_fresh(2) [OF inv w(1)] by auto
  next
    case 2 then show ?case using ws w(3) by simp
  next
    case (3 v) then show ?case using queued_fresh(1) [OF inv, of v] ws' w(2) fr(8,9) by auto
  next
    case (4 v) then show ?case using queued_fresh(2) [OF inv, of v] fr(8,9) by auto
  next
    case (5 v)
    then obtain t' c' where t': "pcs S t' = Waiting c' v"
      using queued_fresh(3) [OF inv, of v] fr(8,9) by auto
    with own have "t' \<noteq> t" by auto
    with t' show ?case by auto
  next
    case (6 u c v) then show ?case using waiter_alloc [OF inv, of u c v] by (auto split: if_splits)
  next
    case (7 u c v)
    then have "v \<in> closedc (hp S) \<or> v \<in> set (queue_of_class c (sch S))"
      using waiter_granted_or_queued [OF inv, of u c v] by (auto split: if_splits)
    then show ?case using dq line
      by (auto simp: dequeue_def waiting_line_def queue_of_class_def split: list.splits if_splits)
  next
    case (8 u u' c c' v) then show ?case using waiter_unique [OF inv, of u c v u' c']
      by (auto split: if_splits)
  qed
  ultimately show ?thesis using inv fr by (auto simp: sched_inv_def caps_ok_def)
qed


lemma release_inv:
  assumes inv: "sched_inv S" and own: "pcs S t = Holding \<or> pcs S t = HandingOn" and ex: "sched_exec (EvRelease t) S = Some S'"
  shows "sched_inv S'"
proof (cases "waiting_line (sch S)")
  case Nil
  then have "Release (sch S) (hp S) = Some ((sch S)\<lparr>inflight := inflight (sch S) - 1\<rparr>, hp S)"
    by (simp add: Release_def dequeue_line)
  with ex own release_empty_inv [OF inv own Nil] show ?thesis by auto
next
  case (Cons w ws)
  then obtain s' where dq: "dequeue (sch S) = (Some w, s')" by (simp add: dequeue_line)
  have "w \<notin> closedc (hp S)"
    using queued_fresh(1) [OF inv, of w] Cons by (auto simp: waiting_line_def simp flip: set_append)
  with dq have "Release (sch S) (hp S) = Some (s', (hp S)\<lparr>closedc := insert w (closedc (hp S))\<rparr>)"
    by (simp add: Release_def close_chan_def)
  with ex own release_grant_inv [OF inv own Cons dq] show ?thesis by auto
qed

lemma sched_exec_inv:
  assumes inv: "sched_inv S" and ex: "sched_exec e S = Some S'"
  shows "sched_inv S'"
proof (cases e)
  case (EvAcquire t cls)
  with ex have out: "pcs S t = Outside" by (auto split: if_splits)
  consider "inflight (sch S) < maxInflight (sch S)"
    | "\<not> inflight (sch S) < maxInflight (sch S)" "queueLen cls (sch S) \<ge> maxWaiters (sch S)"
    | "\<not> inflight (sch S) < maxInflight (sch S)" "\<not> queueLen cls (sch S) \<ge> maxWaiters (sch S)"
    by blast
  then show ?thesis
  proof cases
    case 1
    then show ?thesis using ex EvAcquire out acquire_slot_inv [OF inv out 1]
      by (simp add: Acquire_def)
  next
    case 2
    then show ?thesis using ex EvAcquire out inv by (simp add: Acquire_def)
  next
    case 3
    then have "S' = S\<lparr>sch := enqueue cls (nextc (hp S)) (sch S)
        \<lparr>interactiveWaiting := interactiveWaiting (sch S) \<or> cls = Interactive\<rparr>,
       hp := (hp S)\<lparr>nextc := Suc (nextc (hp S))\<rparr>,
       pcs := (pcs S)(t := Waiting cls (nextc (hp S)))\<rparr>"
      using ex EvAcquire out
      by (auto simp: Acquire_def make_chan_def Let_def pingInteractiveLocked_def enqueue_def)
    with acquire_wait_inv [OF inv out 3] show ?thesis by simp
  qed
next
  case (EvWoken t)
  then show ?thesis using ex woken_inv [OF inv] by (auto split: pc.splits if_splits)
next
  case (EvCtxDone t)
  then show ?thesis using ex ctx_done_inv [OF inv] by (fastforce split: pc.splits prod.splits bool.splits)
next
  case (EvRelease t)
  then have own: "pcs S t = Holding \<or> pcs S t = HandingOn" using ex by (auto split: if_splits)
  show ?thesis using release_inv [OF inv own] ex EvRelease by blast
next
  case EvRecvPing
  with ex have S': "S' = S\<lparr>sch := (sch S)\<lparr>interactiveWaiting := False\<rparr>\<rparr>" by (simp split: if_splits)
  have "owners S' = owners S" by (simp add: S' owners_def)
  moreover have "line_ok S' = line_ok S" by (simp add: S' line_ok_def queue_of_class_def)
  ultimately show ?thesis using inv by (auto simp: S' sched_inv_def slots_ok_def caps_ok_def)
qed

text \<open>The scheduler's goroutines are an event system that keeps the invariant.\<close>

interpretation sched: event_system sched_exec "\<lambda>S. \<exists>maxw maxi. S = sched_start maxw maxi" sched_inv
proof
  show "sched_inv S" if "\<exists>maxw maxi. S = sched_start maxw maxi" for S
    using that sched_start_inv by blast
  show "sched_inv S'" if "sched_inv S" "sched_exec e S = Some S'" for S e S'
    using that by (rule sched_exec_inv)
qed

lemma sched_run_inv: "run_events sched_exec es (sched_start maxw maxi) = Some S \<Longrightarrow> sched_inv S"
  using sched.run_inv by blast


text \<open>No event changes the configuration.\<close>

lemma Acquire_frame:
  "Acquire c s h = (r, s', h') \<Longrightarrow> maxInflight s' = maxInflight s \<and> maxWaiters s' = maxWaiters s"
  by (auto simp: Acquire_def broker_defs Let_def split: if_splits)

lemma Release_frame:
  "Release s h = Some (s', h') \<Longrightarrow> maxInflight s' = maxInflight s \<and> maxWaiters s' = maxWaiters s"
  by (auto simp: Release_def dequeue_def close_chan_Some_iff split: list.splits)

lemma removeWaiter_frame:
  "removeWaiter c w s = (b, s') \<Longrightarrow> maxInflight s' = maxInflight s \<and> maxWaiters s' = maxWaiters s"
  by (auto simp: removeWaiter_def scan_remove_eq split: if_splits)

lemma sched_exec_frame:
  assumes "sched_exec e S = Some S'"
  shows "maxInflight (sch S') = maxInflight (sch S) \<and> maxWaiters (sch S') = maxWaiters (sch S)"
proof (cases e)
  case (EvAcquire t c)
  then show ?thesis using assms Acquire_frame
    by (auto split: if_splits prod.splits acquire_result.splits)
next
  case (EvCtxDone t)
  then show ?thesis using assms removeWaiter_frame
    by (auto split: pc.splits prod.splits bool.splits)
next
  case (EvRelease t)
  then show ?thesis using assms Release_frame
    by (auto split: if_splits option.splits prod.splits)
qed (use assms in \<open>auto split: pc.splits if_splits\<close>)

lemma sched_run_frame:
  "run_events sched_exec es S = Some S' \<Longrightarrow>
     maxInflight (sch S') = maxInflight (sch S) \<and> maxWaiters (sch S') = maxWaiters (sch S)"
  by (induction es arbitrary: S) (auto split: option.splits dest: sched_exec_frame)

lemma sched_start_config:
  "maxInflight (sch (sched_start maxw maxi)) = (if maxi < 1 then 1 else maxi)"
  "maxWaiters (sch (sched_start maxw maxi)) = (if maxw < 1 then 256 else maxw)"
  by (simp_all add: sched_start_def New_def broker_defs MaxWaitersPerClass_def)

section \<open>The waiting line as an abstract priority queue\<close>

text \<open>
  What the package promises its callers: one line in which interactive requests stand before all
  others and each class is first come, first served. \<open>line_join\<close> is the specification of joining
  it: behind everyone of the same or a higher class.
\<close>

fun line_join :: "bool \<times> 'w \<Rightarrow> (bool \<times> 'w) list \<Rightarrow> (bool \<times> 'w) list" where
  "line_join x [] = [x]"
| "line_join x (y # ys) = (if fst x \<and> \<not> fst y then x # y # ys else y # line_join x ys)"

fun serve_n :: "('s \<Rightarrow> 'w option \<times> 's) \<Rightarrow> nat \<Rightarrow> 's \<Rightarrow> 'w option list" where
  "serve_n nxt 0 s = []"
| "serve_n nxt (Suc n) s = (case nxt s of (r, s') \<Rightarrow> r # serve_n nxt n s')"

lemma line_join_sorted:
  "sorted_wrt (\<lambda>x y. fst y \<longrightarrow> fst x) l \<Longrightarrow> sorted_wrt (\<lambda>x y. fst y \<longrightarrow> fst x) (line_join x l)"
proof (induction l)
  case (Cons y ys)
  have "set (line_join x ys) = insert x (set ys)" by (induction ys) auto
  with Cons show ?case by auto
qed simp

lemma line_join_low: "line_join (False, w) l = l @ [(False, w)]"
  by (induction l) auto

locale priority_line =
  fixes join :: "bool \<Rightarrow> 'w \<Rightarrow> 's \<Rightarrow> 's"
    and nxt :: "'s \<Rightarrow> 'w option \<times> 's"
    and view :: "'s \<Rightarrow> (bool \<times> 'w) list"
  assumes view_join: "view (join p w s) = line_join (p, w) (view s)"
    and view_nxt: "nxt s = (r, s') \<Longrightarrow>
      view s' = tl (view s) \<and> r = (case view s of [] \<Rightarrow> None | x # _ \<Rightarrow> Some (snd x))"
begin

lemma join_keeps_priority:
  "sorted_wrt (\<lambda>x y. fst y \<longrightarrow> fst x) (view s) \<Longrightarrow>
   sorted_wrt (\<lambda>x y. fst y \<longrightarrow> fst x) (view (join p w s))"
  by (simp add: view_join line_join_sorted)

lemma serve_n_nth: "i < n \<Longrightarrow> i < length (view s) \<Longrightarrow> serve_n nxt n s ! i = Some (snd (view s ! i))"
proof (induction n arbitrary: s i)
  case (Suc n)
  obtain r s' where nx: "nxt s = (r, s')" by fastforce
  note v = view_nxt [OF nx]
  show ?case
  proof (cases i)
    case 0
    then show ?thesis using Suc.prems v nx by (cases "view s") auto
  next
    case (Suc j)
    then have "serve_n nxt n s' ! j = Some (snd (view s' ! j))"
      using Suc.prems Suc.IH v by (cases "view s") auto
    then show ?thesis using Suc Suc.prems v nx by (cases "view s") auto
  qed
qed simp

text \<open>Whoever joins last of the high class is served after everyone already there of that class.\<close>

lemma join_high_position:
  assumes "\<forall>x \<in> set l. fst x" and "\<forall>x \<in> set m. \<not> fst x" and "view s = l @ m"
  shows "view (join True w s) = l @ (True, w) # m"
  using assms(1,2) unfolding view_join assms(3) by (induction l) (auto, cases m, auto)

lemma join_low_position: "view (join False w s) = view s @ [(False, w)]"
  by (simp add: view_join line_join_low)

end

definition tagged_line :: "Scheduler \<Rightarrow> (bool \<times> chan) list" where
  "tagged_line s = map (Pair True) (iq s) @ map (Pair False) (bq s)"

lemma line_join_tagged:
  "line_join (p, w) (map (Pair True) xs @ map (Pair False) ys) =
     (if p then map (Pair True) (xs @ [w]) @ map (Pair False) ys
      else map (Pair True) xs @ map (Pair False) (ys @ [w]))"
proof -
  have "line_join (p, w) (map (Pair False) ys)
      = (if p then (True, w) # map (Pair False) ys else map (Pair False) (ys @ [w]))"
    by (induction ys) auto
  then show ?thesis by (induction xs) auto
qed

lemma remove1_map_Pair: "remove1 (b, w) (map (Pair b) xs) = map (Pair b) (remove1 w xs)"
  by (induction xs) auto

lemma remove1_tagged:
  "remove1 (p, w) (map (Pair True) xs @ map (Pair False) ys) =
     (if p then map (Pair True) (remove1 w xs) @ map (Pair False) ys
      else map (Pair True) xs @ map (Pair False) (remove1 w ys))"
proof (cases p)
  case True
  have "remove1 (True, w) (map (Pair False) ys) = map (Pair False) ys" by (rule remove1_idem) auto
  then show ?thesis using True
    by (cases "w \<in> set xs") (auto simp: remove1_append remove1_map_Pair remove1_idem)
next
  case False
  have "(False, w) \<notin> set (map (Pair True) xs)" by auto
  then show ?thesis using False by (simp add: remove1_append remove1_map_Pair)
qed

interpretation line: priority_line "\<lambda>p. enqueue (if p then Interactive else Batch)" dequeue tagged_line
proof
  show "tagged_line (enqueue (if p then Interactive else Batch) w s) = line_join (p, w) (tagged_line s)"
    for p w s
    by (simp add: tagged_line_def line_join_tagged enqueue_def)
  show "tagged_line s' = tl (tagged_line s)
      \<and> r = (case tagged_line s of [] \<Rightarrow> None | x # _ \<Rightarrow> Some (snd x))"
    if "dequeue s = (r, s')" for s r s'
    using that by (auto simp: tagged_line_def dequeue_def split: list.splits)
qed


section \<open>Handing the slots on\<close>

fun release_n :: "nat \<Rightarrow> Scheduler \<times> heap \<Rightarrow> (Scheduler \<times> heap) option" where
  "release_n 0 x = Some x"
| "release_n (Suc n) (s, h) = (case Release s h of None \<Rightarrow> None | Some x \<Rightarrow> release_n n x)"

lemma Release_grants_head:
  assumes "waiting_line s = w # ws" and "w \<notin> closedc h"
  obtains s' where "Release s h = Some (s', h\<lparr>closedc := insert w (closedc h)\<rparr>)"
    "waiting_line s' = ws"
proof -
  obtain s' where dq: "dequeue s = (Some w, s')" using assms(1) by (simp add: dequeue_line)
  show thesis
    by (rule that [of s']) (use dq assms dequeue_frame(4) [OF dq] in \<open>auto simp: Release_def close_chan_def\<close>)
qed

text \<open>
  Each release serves the head of the line; \<open>n\<close> releases serve the first \<open>n\<close> in order and close
  no other channel.
\<close>

lemma release_n_serves:
  assumes "distinct (waiting_line s)" and "\<forall>w \<in> set (waiting_line s). w \<notin> closedc h"
    and "n \<le> length (waiting_line s)"
  shows "\<exists>s' h'. release_n n (s, h) = Some (s', h')
     \<and> closedc h' = closedc h \<union> set (take n (waiting_line s))
     \<and> waiting_line s' = drop n (waiting_line s)"
  using assms
proof (induction n arbitrary: s h)
  case (Suc n)
  then obtain w ws where ln: "waiting_line s = w # ws" by (cases "waiting_line s") auto
  with Suc.prems(2) have "w \<notin> closedc h" by simp
  with ln obtain s' where rel: "Release s h = Some (s', h\<lparr>closedc := insert w (closedc h)\<rparr>)"
    and ln': "waiting_line s' = ws" by (rule Release_grants_head)
  have "\<exists>s'' h''. release_n n (s', h\<lparr>closedc := insert w (closedc h)\<rparr>) = Some (s'', h'')
      \<and> closedc h'' = insert w (closedc h) \<union> set (take n ws) \<and> waiting_line s'' = drop n ws"
    using Suc.IH [of s' "h\<lparr>closedc := insert w (closedc h)\<rparr>"] Suc.prems ln ln' by auto
  with rel ln show ?case by auto
qed simp

section \<open>Properties\<close>

text \<open>
  C2. Mutual exclusion over the GPU slots. In every interleaving of \<^verbatim>\<open>Acquire\<close>, \<^verbatim>\<open>Release\<close>, wake-ups
  and cancellations, the goroutines that own a slot (holding it, having been granted it, or handing
  it on) number exactly \<^verbatim>\<open>inflight\<close>, which never exceeds the configured concurrency.
\<close>

theorem slots_never_oversubscribed:
  assumes "run_events sched_exec es (sched_start maxw maxi) = Some S"
  shows "finite (owners S) \<and> int (card (owners S)) = inflight (sch S)
     \<and> inflight (sch S) \<le> (if maxi < 1 then 1 else maxi)"
proof -
  have "sched_inv S" using assms by (rule sched_run_inv)
  moreover have "maxInflight (sch S) = (if maxi < 1 then 1 else maxi)"
    using sched_run_frame [OF assms] sched_start_config by simp
  ultimately show ?thesis by (simp add: sched_inv_def slots_ok_def)
qed

theorem slots_never_oversubscribed_witness:
  "\<exists>S. run_events sched_exec
      [EvAcquire 0 Batch, EvAcquire 1 Batch, EvAcquire 2 Interactive, EvRelease 0] (sched_start 8 1) = Some S
   \<and> finite (owners S) \<and> int (card (owners S)) = inflight (sch S) \<and> inflight (sch S) \<le> 1"
proof -
  let ?es = "[EvAcquire 0 Batch, EvAcquire 1 Batch, EvAcquire 2 Interactive, EvRelease 0]"
  obtain S where S: "run_events sched_exec ?es (sched_start 8 1) = Some S"
    by (simp add: sched_start_def New_def empty_heap_def broker_defs Acquire_def Release_def
        dequeue_def close_chan_def MaxWaitersPerClass_def)
  with slots_never_oversubscribed [OF S] show ?thesis by auto
qed




text \<open>
  C3. No lost wake-up and no double close: a goroutine waiting in \<^verbatim>\<open>Acquire\<close> has either been granted
  its slot (its channel is closed) or still stands in the queue of its class, no two goroutines wait
  on one channel, each class queue respects its cap, and \<^verbatim>\<open>Release\<close> never closes a closed channel,
  which would panic.
\<close>

theorem no_lost_wakeup:
  assumes "run_events sched_exec es (sched_start maxw maxi) = Some S"
  shows "\<not> panicked S
     \<and> (\<forall>t c w. pcs S t = Waiting c w \<longrightarrow> w \<in> closedc (hp S) \<or> w \<in> set (queue_of_class c (sch S)))
     \<and> (\<forall>t t' c c' w. pcs S t = Waiting c w \<longrightarrow> pcs S t' = Waiting c' w \<longrightarrow> t = t')
     \<and> int (length (iq (sch S))) \<le> (if maxw < 1 then 256 else maxw)
     \<and> int (length (bq (sch S))) \<le> (if maxw < 1 then 256 else maxw)"
proof -
  have inv: "sched_inv S" using assms by (rule sched_run_inv)
  moreover have "maxWaiters (sch S) = (if maxw < 1 then 256 else maxw)"
    using sched_run_frame [OF assms] sched_start_config by simp
  ultimately have "caps_ok S" "\<not> panicked S" "maxWaiters (sch S) = (if maxw < 1 then 256 else maxw)"
    by (simp_all add: sched_inv_def)
  then show ?thesis
    using waiter_granted_or_queued [OF inv] waiter_unique [OF inv] by (simp add: caps_ok_def)
qed

theorem no_lost_wakeup_witness:
  "\<exists>S. run_events sched_exec [EvAcquire 0 Batch, EvAcquire 1 Batch, EvAcquire 2 Batch, EvRelease 0]
      (sched_start 2 1) = Some S
   \<and> pcs S 1 = Waiting Batch 0 \<and> 0 \<in> closedc (hp S) \<and> \<not> panicked S \<and> length (bq (sch S)) \<le> 2"
proof -
  let ?es = "[EvAcquire 0 Batch, EvAcquire 1 Batch, EvAcquire 2 Batch, EvRelease 0]"
  obtain S where S: "run_events sched_exec ?es (sched_start 2 1) = Some S"
    "pcs S 1 = Waiting Batch 0" "0 \<in> closedc (hp S)"
    by (simp add: sched_start_def New_def empty_heap_def broker_defs Acquire_def Release_def
        dequeue_def close_chan_def MaxWaitersPerClass_def)
  with no_lost_wakeup [OF S(1)] show ?thesis by auto
qed

text \<open>
  C4. The two slices refine one priority line: \<^verbatim>\<open>enqueue\<close> joins it behind everyone of the same or a
  higher class, \<^verbatim>\<open>dequeue\<close> serves its head, \<^verbatim>\<open>removeWaiter\<close> removes exactly the given waiter of the
  given class and reports whether it stood there.
\<close>

theorem scheduler_refines_priority_line:
  "tagged_line (enqueue c w s) = line_join (c = Interactive, w) (tagged_line s)
   \<and> fst (dequeue s) = (case tagged_line s of [] \<Rightarrow> None | x # _ \<Rightarrow> Some (snd x))
   \<and> tagged_line (snd (dequeue s)) = tl (tagged_line s)
   \<and> fst (removeWaiter c w s) = ((c = Interactive, w) \<in> set (tagged_line s))
   \<and> tagged_line (snd (removeWaiter c w s)) = remove1 (c = Interactive, w) (tagged_line s)"
proof -
  have "enqueue c w s = enqueue (if c = Interactive then Interactive else Batch) w s"
    by (simp add: enqueue_def)
  then have "tagged_line (enqueue c w s) = line_join (c = Interactive, w) (tagged_line s)"
    using line.view_join [of "c = Interactive" w s] by simp
  moreover have "tagged_line (snd (removeWaiter c w s)) = remove1 (c = Interactive, w) (tagged_line s)"
    by (simp add: removeWaiter_def scan_remove_eq tagged_line_def remove1_tagged)
  moreover have "fst (removeWaiter c w s) = ((c = Interactive, w) \<in> set (tagged_line s))"
    by (auto simp: removeWaiter_def scan_remove_eq tagged_line_def)
  ultimately show ?thesis using line.view_nxt [of s "fst (dequeue s)" "snd (dequeue s)"] by simp
qed

text \<open>
  Bounded waiting. From any reachable state, the request at position \<open>k\<close> of the line is granted
  by the \<open>(k+1)\<close>-th release, and nobody behind it before that, if nobody joins in between.
\<close>

theorem kth_waiter_granted:
  assumes "run_events sched_exec es (sched_start maxw maxi) = Some S"
    and "k < length (waiting_line (sch S))"
  shows "\<exists>s' h'. release_n (Suc k) (sch S, hp S) = Some (s', h')
     \<and> waiting_line (sch S) ! k \<in> closedc h'
     \<and> (\<forall>j. k < j \<and> j < length (waiting_line (sch S)) \<longrightarrow> waiting_line (sch S) ! j \<notin> closedc h')"
proof -
  have inv: "sched_inv S" using assms(1) by (rule sched_run_inv)
  have d: "distinct (waiting_line (sch S))" "\<forall>w \<in> set (waiting_line (sch S)). w \<notin> closedc (hp S)"
    using queues_distinct [OF inv] queued_fresh(1) [OF inv] by (auto simp: waiting_line_def)
  obtain s' h' where rel: "release_n (Suc k) (sch S, hp S) = Some (s', h')"
    and cl: "closedc h' = closedc (hp S) \<union> set (take (Suc k) (waiting_line (sch S)))"
    using release_n_serves [OF d, of "Suc k"] assms(2) by auto
  have "waiting_line (sch S) ! k \<in> set (take (Suc k) (waiting_line (sch S)))"
    using assms(2) by (auto simp: in_set_conv_nth intro!: exI [of _ k])
  moreover have "waiting_line (sch S) ! j \<notin> closedc h'"
    if "k < j" "j < length (waiting_line (sch S))" for j
    using that d cl nth_mem [OF that(2)] by (auto simp: in_set_conv_nth nth_eq_iff_index_eq)
  ultimately show ?thesis using rel cl by blast
qed

theorem kth_waiter_granted_witness:
  "\<exists>S. run_events sched_exec [EvAcquire 0 Batch, EvAcquire 1 Batch, EvAcquire 2 Interactive]
      (sched_start 8 1) = Some S
   \<and> (\<exists>s' h'. release_n 2 (sch S, hp S) = Some (s', h') \<and> waiting_line (sch S) ! 1 \<in> closedc h')"
proof -
  let ?es = "[EvAcquire 0 Batch, EvAcquire 1 Batch, EvAcquire 2 Interactive]"
  obtain S where S: "run_events sched_exec ?es (sched_start 8 1) = Some S"
    "1 < length (waiting_line (sch S))"
    by (simp add: sched_start_def New_def empty_heap_def broker_defs Acquire_def Let_def
        MaxWaitersPerClass_def waiting_line_def)
  with kth_waiter_granted [OF S] show ?thesis by (auto simp: numeral_2_eq_2)
qed

end
