(* ===== verification/Control_Plane.thy ===== *)
theory Control_Plane
  imports Broker_Wiring Job_Api Compute_Schedule Queue_Scheduler
begin

text \<open>
  \<^verbatim>\<open>internal/admin/admin.go\<close> and the health check of \<^verbatim>\<open>cmd/broker/main.go\<close>: the control plane. The handlers
  read the yield controller, the scheduler, the calendar and the Job table, and one of them changes the
  controller's mode. The decoder of the request body and the parsing of network addresses are arguments;
  the routes of the Job API and of the metrics are marked as such and not followed here.
\<close>

section \<open>Requests and responses\<close>

record admin_request =
  ad_Method :: string
  ad_Path :: string
  ad_Authorization :: string   \<comment> \<open>empty when the header is missing\<close>
  ad_RemoteAddr :: string
  ad_Body :: string

record status_doc =
  sd_yield :: State
  sd_queue :: Stats
  sd_schedule :: schedule_Snapshot
  sd_jobs :: "Counts option"
  sd_tdarr :: "(int \<times> bool) option"
  sd_routing :: "RouteSummary list option"
  sd_idle :: "IdleSummaryEntry list option option"

datatype admin_out =
    OText int header string         \<comment> \<open>\<^verbatim>\<open>http.Error\<close> and plain text\<close>
  | OHealth int string "string option"
  | OState int State
  | OStatus int status_doc
  | OMetrics
  | OJobs

section \<open>Who may change the mode\<close>

text \<open>
  \<open>split\<close> is \<^verbatim>\<open>net.SplitHostPort\<close>, \<open>loop\<close> is \<^verbatim>\<open>net.ParseIP\<close> followed by \<^verbatim>\<open>IsLoopback\<close>, \<open>None\<close> for what is no
  address.
\<close>

definition isLoopback :: "(string \<Rightarrow> string option) \<Rightarrow> (string \<Rightarrow> bool option) \<Rightarrow> string \<Rightarrow> bool" where
  "isLoopback split loop remoteAddr =
     (let host = (case split remoteAddr of Some h \<Rightarrow> h | None \<Rightarrow> remoteAddr)
      in case loop host of None \<Rightarrow> False | Some b \<Rightarrow> b)"

definition authorized ::
  "(string \<Rightarrow> string option) \<Rightarrow> (string \<Rightarrow> bool option) \<Rightarrow> string \<Rightarrow> admin_request \<Rightarrow> bool" where
  "authorized split loop controlToken r =
     (if controlToken = [] then isLoopback split loop (ad_RemoteAddr r)
      else if \<not> HasPrefix (ad_Authorization r) ''Bearer '' then False
      else drop (length ''Bearer '') (ad_Authorization r) = controlToken)"

section \<open>The handlers\<close>

record control_st =
  cs_ctl :: Controller
  cs_heap :: heap
  cs_ctx :: heap
  cs_spawned :: "action list"

definition err_out :: "int \<Rightarrow> header \<Rightarrow> string \<Rightarrow> admin_out" where
  "err_out code h msg = OText code h (msg @ [newline])"

definition set_mode :: "(nat \<Rightarrow> instant) \<Rightarrow> Mode \<Rightarrow> control_st \<Rightarrow> control_st" where
  "set_mode clk m s =
     (case SetMode m clk (cs_ctl s) (cs_heap s) (cs_ctx s) of
        (_, as1, _, c', h', cx') \<Rightarrow>
          \<lparr>cs_ctl = c', cs_heap = h', cs_ctx = cx', cs_spawned = cs_spawned s @ as1\<rparr>)"

definition handleControl ::
  "(string \<Rightarrow> string option) \<Rightarrow> (string \<Rightarrow> bool option) \<Rightarrow> (string \<Rightarrow> string option) \<Rightarrow> string \<Rightarrow> (nat \<Rightarrow> instant)
     \<Rightarrow> admin_request \<Rightarrow> control_st \<Rightarrow> admin_out \<times> control_st" where
  "handleControl split loop decode controlToken clk r s =
     (if ad_Method r = ''GET'' then (OState 200 (Snapshot (cs_ctl s)), s)
      else if ad_Method r = ''POST'' then
        (if \<not> authorized split loop controlToken r
         then (err_out 401 (Map.empty(''WWW-Authenticate'' \<mapsto> ''Bearer realm=\"control\"'')) ''unauthorized'', s)
         else case decode (ad_Body r) of
           None \<Rightarrow> (err_out 400 Map.empty ''invalid JSON body'', s)
         | Some md \<Rightarrow>
             (case ParseMode md of
                (m, ok) \<Rightarrow>
                  (if \<not> ok then (err_out 400 Map.empty ''mode must be one of: auto, yield, serve'', s)
                   else let s' = set_mode clk m s in (OState 200 (Snapshot (cs_ctl s')), s'))))
      else (err_out 405 (Map.empty(''Allow'' \<mapsto> ''GET, POST'')) ''method not allowed'', s))"

text \<open>\<open>health\<close> is \<open>None\<close> when no check is configured, else what it returned.\<close>

definition handleHealthz :: "goerr option option \<Rightarrow> admin_out" where
  "handleHealthz health =
     (case health of
        None \<Rightarrow> OText 200 (Map.empty(''Content-Type'' \<mapsto> ''text/plain'')) (''ok'' @ [newline])
      | Some (Some e) \<Rightarrow> OHealth 503 ''unhealthy'' (Some (e_text e))
      | Some None \<Rightarrow> OHealth 200 ''ok'' None)"

text \<open>The optional sections of \<^verbatim>\<open>/status\<close>: \<open>None\<close> where the function is nil.\<close>

record status_sources =
  ss_stats :: Stats
  ss_now :: localtime
  ss_jobs :: "Counts option"
  ss_tdarr :: "(int \<times> bool) option option"
  ss_routing :: "RouteSummary list option"
  ss_idle :: "IdleSummaryEntry list option option"   \<comment> \<open>its result may be nil, which is encoded as null\<close>

definition handleStatus :: "status_sources \<Rightarrow> control_st \<Rightarrow> admin_out" where
  "handleStatus src s =
     OStatus 200 \<lparr>sd_yield = Snapshot (cs_ctl s), sd_queue = ss_stats src, sd_schedule = TakeSnapshot (ss_now src),
       sd_jobs = ss_jobs src, sd_tdarr = (case ss_tdarr src of None \<Rightarrow> None | Some t \<Rightarrow> t),
       sd_routing = ss_routing src, sd_idle = ss_idle src\<rparr>"

text \<open>The routes; any other path is not found.\<close>

definition admin_Mux ::
  "(string \<Rightarrow> string option) \<Rightarrow> (string \<Rightarrow> bool option) \<Rightarrow> (string \<Rightarrow> string option) \<Rightarrow> string \<Rightarrow> (nat \<Rightarrow> instant)
     \<Rightarrow> goerr option option \<Rightarrow> bool \<Rightarrow> status_sources \<Rightarrow> admin_request \<Rightarrow> control_st \<Rightarrow> admin_out \<times> control_st" where
  "admin_Mux split loop decode controlToken clk health jobs src r s =
     (if ad_Path r = ''/healthz'' then (handleHealthz health, s)
      else if ad_Path r = ''/metrics'' then (OMetrics, s)
      else if jobs \<and> (ad_Path r = ''/jobs'' \<or> HasPrefix (ad_Path r) ''/jobs/'') then (OJobs, s)
      else if ad_Path r = ''/control'' then handleControl split loop decode controlToken clk r s
      else if ad_Path r = ''/status'' then (handleStatus src s, s)
      else (err_out 404 Map.empty ''404 page not found'', s))"

section \<open>The health check\<close>

definition detectStaleFactor :: int where "detectStaleFactor = 3"

text \<open>What the upstream probe returned, the error a failing database call has, and the state the check reads.\<close>

definition healthCheck ::
  "goerr option \<Rightarrow> goerr \<Rightarrow> driver \<Rightarrow> table \<Rightarrow> duration \<Rightarrow> instant \<Rightarrow> Controller \<Rightarrow> goerr option" where
  "healthCheck reachable dbErr ok t detectInterval now c =
     (case reachable of
        Some e \<Rightarrow> Some (wrap_err ''upstream unreachable: '' e)
      | None \<Rightarrow>
          (case HasQueued ok t of
             Inl _ \<Rightarrow> Some (wrap_err ''job store unreadable: '' dbErr)
           | Inr _ \<Rightarrow>
               (let maxAge = detectStaleFactor * detectInterval in
                if maxAge < PollAge now c
                then Some (new_err (''contention detector stalled: no poll in over '' @
                       duration_String (go_round (PollAge now c) second) @ '' (want under '' @ duration_String maxAge @ '')''))
                else None)))"

section \<open>Lemmas\<close>

lemma spawn_action_frame:
  assumes "spawn_action k tr i c h = (a, c', h')"
  shows "mode c' = mode c" "autoContended c' = autoContended c" "effective c' = effective c"
    "lastPoll c' = lastPoll c"
  using assms by (auto simp: spawn_action_def startAction_def make_chan_def)

lemma spawn_each_frame:
  assumes "spawn_each k tr is c h = (as, c', h')"
  shows "mode c' = mode c \<and> autoContended c' = autoContended c \<and> effective c' = effective c \<and> lastPoll c' = lastPoll c"
  using assms
proof (induction "is" arbitrary: as c h)
  case (Cons i "is")
  obtain a c1 h1 where a: "spawn_action k tr i c h = (a, c1, h1)" by (metis prod_cases3)
  obtain as1 c2 h2 where r: "spawn_each k tr is c1 h1 = (as1, c2, h2)" by (metis prod_cases3)
  have "c' = c2" "h' = h2" using Cons.prems a r by simp_all
  then show ?case using Cons.IH r spawn_action_frame[OF a] by simp
qed simp

lemma reset_loop_frame:
  "mode (fold (\<lambda>i c. reset_flag i (reset_dispatch i (clk i) c)) is c) = mode c"
  "autoContended (fold (\<lambda>i c. reset_flag i (reset_dispatch i (clk i) c)) is c) = autoContended c"
  "effective (fold (\<lambda>i c. reset_flag i (reset_dispatch i (clk i) c)) is c) = effective c"
  "lastPoll (fold (\<lambda>i c. reset_flag i (reset_dispatch i (clk i) c)) is c) = lastPoll c"
  by (induction "is" arbitrary: c) (simp_all add: reset_flag_def reset_dispatch_def)

text \<open>Setting the mode takes effect at once: the controller has it and what it does is what it computes.\<close>

lemma set_mode_effect:
  shows "mode (cs_ctl (set_mode clk m s)) = m"
    and "effective (cs_ctl (set_mode clk m s)) = fst (computeLocked (cs_ctl (set_mode clk m s)))"
proof -
  let ?c = "(cs_ctl s)\<lparr>mode := m\<rparr>"
  obtain ev as1 mgr c1 h1 cx1 where sw: "applyLocked_switch ?c (cs_heap s) (cs_ctx s) = (ev, as1, mgr, c1, h1, cx1)"
    by (metis prod_cases6)
  have c1: "mode c1 = m \<and> autoContended c1 = autoContended (cs_ctl s) \<and>
      effective c1 = fst (computeLocked ?c)"
    using sw by (auto simp: applyLocked_switch_def make_chan_def Let_def split: prod.splits if_splits dest!: spawn_each_frame)
  have ctl: "cs_ctl (set_mode clk m s) = (if ev = YieldStop
      then fold (\<lambda>i c. reset_flag i (reset_dispatch i (clk i) c)) [0..<length (idleTimeouts c1)] c1 else c1)"
    using sw by (simp add: set_mode_def SetMode_def applyLocked_def)
  show "mode (cs_ctl (set_mode clk m s)) = m" unfolding ctl using c1 by (simp add: reset_loop_frame)
  show "effective (cs_ctl (set_mode clk m s)) = fst (computeLocked (cs_ctl (set_mode clk m s)))"
    unfolding ctl using c1 by (simp add: reset_loop_frame computeLocked_def split: Mode.split)
qed

lemma ParseMode_String: "ParseMode md = (m, True) \<Longrightarrow> Mode_String m = md"
  by (auto simp: ParseMode_def Mode_String_def split: if_splits)

definition out_code :: "admin_out \<Rightarrow> int" where
  "out_code x = (case x of OText c _ _ \<Rightarrow> c | OHealth c _ _ \<Rightarrow> c | OState c _ \<Rightarrow> c | OStatus c _ \<Rightarrow> c | _ \<Rightarrow> 200)"

lemma authorized_iff:
  "authorized split loop tok r \<longleftrightarrow>
     (if tok = [] then isLoopback split loop (ad_RemoteAddr r) else ad_Authorization r = ''Bearer '' @ tok)"
proof -
  have "HasPrefix a p \<and> drop (length p) a = t \<longleftrightarrow> a = p @ t" for a p t :: string
    unfolding HasPrefix_def by (metis append_eq_conv_conj append_take_drop_id)
  from this[of "ad_Authorization r" "''Bearer ''" tok] show ?thesis by (auto simp: authorized_def)
qed

lemma handleControl_post:
  assumes "handleControl split loop decode tok clk r s = (out, s')" and "ad_Method r = ''POST''"
  shows "if \<not> authorized split loop tok r then out_code out = 401 \<and> s' = s
    else case decode (ad_Body r) of
      None \<Rightarrow> out_code out = 400 \<and> s' = s
    | Some md \<Rightarrow>
        (if md \<notin> {''auto'', ''yield'', ''serve''} then out_code out = 400 \<and> s' = s
         else out = OState 200 (Snapshot (cs_ctl s')) \<and> Mode_String (mode (cs_ctl s')) = md \<and>
           effective (cs_ctl s') = fst (Yielding (cs_ctl s')))"
proof (cases "authorized split loop tok r")
  case False
  then show ?thesis using assms by (auto simp: handleControl_def err_out_def out_code_def)
next
  case True
  show ?thesis
  proof (cases "decode (ad_Body r)")
    case None
    then show ?thesis using assms True by (auto simp: handleControl_def err_out_def out_code_def)
  next
    case (Some md)
    obtain m ok where pm: "ParseMode md = (m, ok)" by fastforce
    then have ok: "ok \<longleftrightarrow> md \<in> {''auto'', ''yield'', ''serve''}" by (auto simp: ParseMode_def split: if_splits)
    show ?thesis
    proof (cases ok)
      case False
      then show ?thesis using assms True Some pm ok by (auto simp: handleControl_def err_out_def out_code_def)
    next
      case okT: True
      then have "s' = set_mode clk m s" "out = OState 200 (Snapshot (cs_ctl s'))"
        using assms True Some pm by (auto simp: handleControl_def Let_def)
      then show ?thesis using True Some okT ok pm ParseMode_String[of md m]
        by (simp add: set_mode_effect Yielding_def)
    qed
  qed
qed


text \<open>A request with the configured token switches a fresh controller to yielding.\<close>

definition demo_request :: admin_request where
  "demo_request = \<lparr>ad_Method = ''POST'', ad_Path = ''/control'', ad_Authorization = ''Bearer k'',
     ad_RemoteAddr = ''10.0.0.7:5000'', ad_Body = ''yield''\<rparr>"

definition demo_control :: control_st where
  "demo_control = \<lparr>cs_ctl = fst (NewWithConfirm (Some 0) 1 1 0 empty_heap), cs_heap = empty_heap,
     cs_ctx = snd (NewWithConfirm (Some 0) 1 1 0 empty_heap), cs_spawned = []\<rparr>"

definition demo_sources :: status_sources where
  "demo_sources = \<lparr>ss_stats = Scheduler_Stats New, ss_now = \<lparr>lt_Weekday = Friday, lt_Hour = 3, lt_Minute = 0, lt_Second = 0\<rparr>,
     ss_jobs = None, ss_tdarr = None, ss_routing = None, ss_idle = None\<rparr>"


text \<open>The health check passes exactly when all three dependencies are well.\<close>

lemma healthy_iff:
  "healthCheck reachable dbErr ok t d now c = None \<longleftrightarrow> reachable = None \<and> ok 0 \<and> PollAge now c \<le> 3 * d"
  by (auto simp: healthCheck_def HasQueued_def detectStaleFactor_def Let_def split: option.split)

text \<open>Before the first poll the detector counts as stalled for every interval the configuration can give.\<close>

lemma stalled_before_first_poll:
  assumes "lastPoll c = None" and "3 * d < maxInt64"
  shows "\<exists>e. healthCheck None dbErr (\<lambda>_. True) t d now c = Some e"
  using assms by (simp add: healthCheck_def HasQueued_def detectStaleFactor_def PollAge_def Let_def)

text \<open>Polling keeps the detector from counting as stalled: the time of a poll is that of the last refresh.\<close>

lemma checkIdle_lastPoll: "checkIdle_from clk is c h = (as, c', h') \<Longrightarrow> lastPoll c' = lastPoll c"
proof (induction "is" arbitrary: c h as)
  case (Cons i "is")
  obtain as1 c1 h1 where o: "checkIdle_one i (clk i) c h = (as1, c1, h1)" by (metis prod_cases3)
  obtain as2 c2 h2 where r: "checkIdle_from clk is c1 h1 = (as2, c2, h2)" by (metis prod_cases3)
  have "lastPoll c1 = lastPoll c"
    using o by (auto simp: checkIdle_one_def idle_fire_def split: prod.splits if_splits dest!: spawn_action_frame(4))
  moreover have "c' = c2" "h' = h2" using Cons.prems o r by simp_all
  ultimately show ?case using Cons.IH r by simp
qed simp

lemma applyLocked_lastPoll:
  assumes "applyLocked clk c h cx = (ev, as, mgr, c', h', cx')"
  shows "lastPoll c' = lastPoll c"
proof -
  obtain ev1 as1 mgr1 c1 h1 cx1 where sw: "applyLocked_switch c h cx = (ev1, as1, mgr1, c1, h1, cx1)" by (metis prod_cases6)
  then have "lastPoll c1 = lastPoll c"
    by (auto simp: applyLocked_switch_def make_chan_def Let_def split: prod.splits if_splits dest!: spawn_each_frame)
  then show ?thesis using assms sw by (auto simp: applyLocked_def reset_loop_frame split: if_splits)
qed

lemma refresh_lastPoll:
  assumes "refresh reason contended clk c h cx = (ev, as, mgr, c', h', cx')"
  shows "lastPoll c' = Some (clk 0)"
proof -
  obtain ev1 as1 mgr1 c1 h1 cx1 where a:
    "applyLocked clk (refresh_detect reason contended (clk 0) c) h cx = (ev1, as1, mgr1, c1, h1, cx1)" by (metis prod_cases6)
  have "lastPoll (refresh_detect reason contended (clk 0) c) = Some (clk 0)"
    by (simp add: refresh_detect_def split: prod.splits)
  then show ?thesis using assms a applyLocked_lastPoll[OF a]
    by (auto simp: refresh_def checkIdleLocked_def split: prod.splits dest!: checkIdle_lastPoll)
qed

lemma Run_ticks_lastPoll:
  assumes "Run_ticks ps c h cx = (as, c', h', cx')" and "ps \<noteq> []"
  shows "lastPoll c' = Some (snd (snd (last ps)) 0)"
  using assms
proof (induction ps arbitrary: c h cx as)
  case (Cons p ps)
  obtain reason contended clk where p: "p = (reason, contended, clk)" by (metis prod_cases3)
  obtain ev as1 mgr c1 h1 cx1 where f: "refresh reason contended clk c h cx = (ev, as1, mgr, c1, h1, cx1)" by (metis prod_cases6)
  obtain as2 c2 h2 cx2 where r: "Run_ticks ps c1 h1 cx1 = (as2, c2, h2, cx2)" by (metis prod_cases4)
  have c': "c' = c2" "h' = h2" "cx' = cx2" using Cons.prems(1) by (simp_all add: p f r)
  show ?case
  proof (cases "ps = []")
    case True
    then show ?thesis using r c' refresh_lastPoll[OF f] by (simp add: p)
  next
    case False
    then show ?thesis using Cons.IH[of c1 h1 cx1 as2] r c' by simp
  qed
qed simp

theorem polling_is_healthy:
  assumes "Run first ticks c h cx = (as, c', h', cx')" and "now - snd (snd (last (first # ticks))) 0 \<le> 3 * d"
  shows "healthCheck None dbErr (\<lambda>_. True) t d now c' = None"
  using assms Run_ticks_lastPoll[of "first # ticks" c h cx] by (simp add: Run_def healthy_iff PollAge_def)

end
