(* ===== verification/OpenAI_Stream.thy ===== *)
theory OpenAI_Stream
  imports Line_Scanner
begin

text \<open>
  \<^verbatim>\<open>internal/openaicompat/stream.go\<close>: the parser of an OpenAI-compatible SSE response. A response body is
  the bytes it delivers and the error that ends it, cut into lines with the limit the code sets. \<^verbatim>\<open>json.Unmarshal\<close> into \<^verbatim>\<open>sseChunk\<close> is the argument \<open>dec\<close>, and \<open>cx k\<close> is what
  the \<open>k\<close>-th look at \<^verbatim>\<open>ctx.Err()\<close> finds.
\<close>

definition maxTokenSize :: nat where "maxTokenSize = 4 * 1024 * 1024"

section \<open>The parser\<close>

text \<open>The fields of a chunk that are decoded: the delta of every choice, usage and error when present.\<close>

record sseChunk =
  ck_Choices :: "string list"
  ck_Usage :: "int option"
  ck_Error :: "string option"

record sse_st =
  sb :: string
  tokens :: int
  usageTokens :: int
  dataLines :: "string list"
  onChunk :: "(string \<times> int) list"   \<comment> \<open>the calls of the callback so far\<close>

definition sse_init :: sse_st where
  "sse_init = \<lparr>sb = [], tokens = 0, usageTokens = - 1, dataLines = [], onChunk = []\<rparr>"

fun Join :: "string \<Rightarrow> string list \<Rightarrow> string" where
  "Join sep [] = []"
| "Join sep [x] = x"
| "Join sep (x # xs) = x @ sep @ Join sep xs"

definition cutPrefix :: "string \<Rightarrow> string \<Rightarrow> string option" where
  "cutPrefix s p =
     (if \<not> HasPrefix s p then None
      else let rest = drop (length p) s in Some (if HasPrefix rest '' '' then drop 1 rest else rest))"

type_synonym chunk_dec = "string \<Rightarrow> goerr + sseChunk"

definition take_chunk :: "sseChunk \<Rightarrow> sse_st \<Rightarrow> sse_st" where
  "take_chunk ck st =
     (let st1 = (case ck_Choices ck of
            [] \<Rightarrow> st
          | content # _ \<Rightarrow>
              if content = [] then st
              else st\<lparr>sb := sb st @ content, tokens := tokens st + 1,
                      onChunk := onChunk st @ [(content, tokens st + 1)]\<rparr>)
      in (case ck_Usage ck of None \<Rightarrow> st1 | Some n \<Rightarrow> st1\<lparr>usageTokens := n\<rparr>))"

definition flush :: "chunk_dec \<Rightarrow> sse_st \<Rightarrow> (goerr + bool) \<times> sse_st" where
  "flush dec st =
     (if dataLines st = [] then (Inr False, st)
      else let data = Join [newline] (dataLines st); st1 = st\<lparr>dataLines := []\<rparr> in
        if data = ''[DONE]'' then (Inr True, st1)
        else case dec data of
          Inl e \<Rightarrow> (Inl (wrap_err ''decode SSE chunk: '' e), st1)
        | Inr ck \<Rightarrow>
            (case ck_Error ck of
               Some msg \<Rightarrow> (Inl (new_err (''openai upstream: '' @ (if msg = [] then ''unknown error'' else msg))), st1)
             | None \<Rightarrow> (Inr False, take_chunk ck st1)))"

definition sse_done :: "sse_st \<Rightarrow> stream_result" where
  "sse_done st = (sb st, if 0 \<le> usageTokens st then usageTokens st else tokens st, None)"

definition sse_fail :: "goerr \<Rightarrow> sse_st \<Rightarrow> stream_result" where
  "sse_fail e st = ([], tokens st, Some e)"

text \<open>The scan loop from look \<open>k\<close> at the context on: the result, if it returns, and the state it leaves.\<close>

fun sse_loop ::
  "chunk_dec \<Rightarrow> (nat \<Rightarrow> ctx_err option) \<Rightarrow> nat \<Rightarrow> string list \<Rightarrow> sse_st \<Rightarrow> stream_result option \<times> sse_st" where
  "sse_loop dec cx k [] st = (None, st)"
| "sse_loop dec cx k (line # ls) st =
     (case cx k of
        Some c \<Rightarrow> (Some (sse_fail (ctx_error c) st), st)
      | None \<Rightarrow>
          (let trimmed = TrimSpace line in
           if trimmed = [] then
             (case flush dec st of
                (Inl e, st') \<Rightarrow> (Some (sse_fail e st'), st')
              | (Inr isDone, st') \<Rightarrow>
                  if isDone then (Some (sse_done st'), st') else sse_loop dec cx (Suc k) ls st')
           else
             (case cutPrefix trimmed ''data:'' of
                None \<Rightarrow> sse_loop dec cx (Suc k) ls st
              | Some data \<Rightarrow> sse_loop dec cx (Suc k) ls (st\<lparr>dataLines := dataLines st @ [data]\<rparr>))))"

text \<open>After the loop: a read error, a trailing event without a blank line, or a truncated stream.\<close>

definition sse_tail ::
  "chunk_dec \<Rightarrow> ctx_err option \<Rightarrow> goerr option \<Rightarrow> sse_st \<Rightarrow> stream_result \<times> sse_st" where
  "sse_tail dec c scErr st =
     (case scErr of
        Some e \<Rightarrow> (sse_fail (case c of Some x \<Rightarrow> ctx_error x | None \<Rightarrow> e) st, st)
      | None \<Rightarrow>
          (case flush dec st of
             (Inl e, st') \<Rightarrow> (sse_fail e st', st')
           | (Inr isDone, st') \<Rightarrow>
               if isDone then (sse_done st', st')
               else (sse_fail (case c of Some x \<Rightarrow> ctx_error x
                        | None \<Rightarrow> new_err ''openai upstream: stream ended without done'') st', st')))"

definition parseSSEStreamChunks ::
  "chunk_dec \<Rightarrow> (nat \<Rightarrow> ctx_err option) \<Rightarrow> reader \<Rightarrow> stream_result \<times> (string \<times> int) list" where
  "parseSSEStreamChunks dec cx rd =
     (let (lines, scErr) = scan_lines maxTokenSize rd;
          (r, st) = sse_loop dec cx 0 lines sse_init;
          (res, st') = (case r of Some v \<Rightarrow> (v, st) | None \<Rightarrow> sse_tail dec (cx (length lines)) scErr st)
      in (res, onChunk st'))"

text \<open>The variant that reports only the running count, to a callback that may be nil.\<close>

definition parseSSEStream ::
  "chunk_dec \<Rightarrow> (nat \<Rightarrow> ctx_err option) \<Rightarrow> reader \<Rightarrow> bool \<Rightarrow> stream_result \<times> int list" where
  "parseSSEStream dec cx rd onTokens =
     (case parseSSEStreamChunks dec cx rd of (res, calls) \<Rightarrow> (res, if onTokens then map snd calls else []))"

section \<open>What the callback saw\<close>

text \<open>The calls of the callback carry non-empty text, are numbered from one, and make up the text.\<close>

definition calls_ok :: "sse_st \<Rightarrow> bool" where
  "calls_ok st \<longleftrightarrow> sb st = concat (map fst (onChunk st)) \<and> map snd (onChunk st) = map int [1..<Suc (length (onChunk st))] \<and>
     tokens st = int (length (onChunk st)) \<and> (\<forall>c\<in>set (onChunk st). fst c \<noteq> [])"

lemma calls_ok_init: "calls_ok sse_init"
  by (simp add: calls_ok_def sse_init_def)

lemma calls_ok_dataLines [simp]: "calls_ok (st\<lparr>dataLines := d\<rparr>) = calls_ok st"
  by (simp add: calls_ok_def)

lemma calls_ok_usage [simp]: "calls_ok (st\<lparr>usageTokens := d\<rparr>) = calls_ok st"
  by (simp add: calls_ok_def)

lemma calls_ok_take: "calls_ok st \<Longrightarrow> calls_ok (take_chunk ck st)"
  by (auto simp: take_chunk_def calls_ok_def Let_def split: option.splits list.splits)

lemma calls_ok_flush: "calls_ok st \<Longrightarrow> calls_ok (snd (flush dec st))"
  by (auto simp: flush_def Let_def calls_ok_take split: sum.splits option.splits)

text \<open>One line of the loop, by what it does to the state.\<close>

datatype line_act = LReturn stream_result sse_st | LNext sse_st

definition sse_line :: "chunk_dec \<Rightarrow> ctx_err option \<Rightarrow> string \<Rightarrow> sse_st \<Rightarrow> line_act" where
  "sse_line dec c line st =
     (case c of
        Some x \<Rightarrow> LReturn (sse_fail (ctx_error x) st) st
      | None \<Rightarrow>
          (if TrimSpace line = [] then
             (case flush dec st of
                (Inl e, st') \<Rightarrow> LReturn (sse_fail e st') st'
              | (Inr isDone, st') \<Rightarrow> if isDone then LReturn (sse_done st') st' else LNext st')
           else
             (case cutPrefix (TrimSpace line) ''data:'' of
                None \<Rightarrow> LNext st
              | Some data \<Rightarrow> LNext (st\<lparr>dataLines := dataLines st @ [data]\<rparr>))))"

lemma sse_loop_line:
  "sse_loop dec cx k (line # ls) st =
     (case sse_line dec (cx k) line st of LReturn r st' \<Rightarrow> (Some r, st') | LNext st' \<Rightarrow> sse_loop dec cx (Suc k) ls st')"
  by (simp add: sse_line_def Let_def split: option.split sum.split prod.split)

declare sse_loop.simps(2) [simp del]

definition act_state :: "line_act \<Rightarrow> sse_st" where
  "act_state a = (case a of LReturn _ st \<Rightarrow> st | LNext st \<Rightarrow> st)"

lemma calls_ok_line: "calls_ok st \<Longrightarrow> calls_ok (act_state (sse_line dec c line st))"
  using calls_ok_flush[of st dec]
  by (simp add: sse_line_def act_state_def split: option.split sum.split prod.split) auto

lemma calls_ok_loop: "calls_ok st \<Longrightarrow> calls_ok (snd (sse_loop dec cx k ls st))"
proof (induction ls arbitrary: k st)
  case (Cons line ls)
  have "calls_ok (act_state (sse_line dec (cx k) line st))" using Cons.prems by (rule calls_ok_line)
  then show ?case
    by (cases "sse_line dec (cx k) line st") (simp_all add: sse_loop_line act_state_def Cons.IH)
qed simp

lemma calls_ok_tail: "calls_ok st \<Longrightarrow> calls_ok (snd (sse_tail dec c er st))"
  using calls_ok_flush[of st dec] by (auto simp: sse_tail_def split: option.splits prod.splits sum.splits)

section \<open>A success is never a truncated stream\<close>

text \<open>The payloads of the data lines among \<open>ls\<close>.\<close>

definition payloads :: "string list \<Rightarrow> string set" where
  "payloads ls = {d. \<exists>l\<in>set ls. cutPrefix (TrimSpace l) ''data:'' = Some d}"

lemma payloads_Cons:
  "payloads (l # ls) = payloads [l] \<union> payloads ls"
  by (auto simp: payloads_def)

lemma Join_newline: "1 < length ds \<Longrightarrow> newline \<in> set (Join [newline] ds)"
  by (induction "[newline]" ds rule: Join.induct) auto

lemma Join_DONE: "Join [newline] ds = ''[DONE]'' \<Longrightarrow> ds = [''[DONE]'']"
proof -
  assume j: "Join [newline] ds = ''[DONE]''"
  then have "\<not> 1 < length ds" using Join_newline[of ds] by (auto simp: newline_def)
  with j show ?thesis by (cases ds) auto
qed

lemma flush_done:
  assumes "flush dec st = (Inr True, st')"
  shows "''[DONE]'' \<in> set (dataLines st)"
  using assms by (auto simp: flush_def Let_def dest!: Join_DONE split: if_splits sum.splits option.splits)

lemma take_chunk_dataLines [simp]: "dataLines (take_chunk ck st) = dataLines st"
  by (simp add: take_chunk_def split: option.split list.split)

lemma flush_dataLines: "flush dec st = (r, st') \<Longrightarrow> dataLines st' = []"
  by (auto simp: flush_def Let_def split: if_splits sum.splits option.splits)

lemma sse_line_next:
  assumes "sse_line dec c line st = LNext st'"
  shows "set (dataLines st') \<subseteq> set (dataLines st) \<union> payloads [line]"
  using assms
  by (auto simp: sse_line_def payloads_def dest: flush_dataLines split: option.splits if_splits sum.splits prod.splits)

lemma sse_line_success:
  assumes "sse_line dec c line st = LReturn (t, n, None) st'"
  shows "t = sb st' \<and> ''[DONE]'' \<in> set (dataLines st)"
  using assms
  by (auto simp: sse_line_def sse_fail_def sse_done_def dest: flush_done
      split: option.splits if_splits sum.splits prod.splits)

lemma sse_loop_success:
  "sse_loop dec cx k ls st = (Some (t, n, None), st') \<Longrightarrow>
     t = sb st' \<and> ''[DONE]'' \<in> set (dataLines st) \<union> payloads ls"
proof (induction ls arbitrary: k st)
  case (Cons line ls)
  show ?case
  proof (cases "sse_line dec (cx k) line st")
    case (LReturn r st1)
    then show ?thesis using Cons.prems sse_line_success by (fastforce simp: sse_loop_line)
  next
    case (LNext st1)
    then have "t = sb st' \<and> ''[DONE]'' \<in> set (dataLines st1) \<union> payloads ls"
      using Cons.prems by (intro Cons.IH) (simp add: sse_loop_line)
    then show ?thesis using sse_line_next[OF LNext] payloads_Cons[of line ls] by blast
  qed
qed simp

lemma sse_loop_dataLines:
  "sse_loop dec cx k ls st = (None, st') \<Longrightarrow> set (dataLines st') \<subseteq> set (dataLines st) \<union> payloads ls"
proof (induction ls arbitrary: k st)
  case (Cons line ls)
  then obtain st1 where l: "sse_line dec (cx k) line st = LNext st1" and "sse_loop dec cx (Suc k) ls st1 = (None, st')"
    by (auto simp: sse_loop_line split: line_act.splits)
  from Cons.IH[OF this(2)] sse_line_next[OF l] payloads_Cons[of line ls] show ?case by blast
qed simp

lemma sse_tail_success:
  assumes "sse_tail dec c er st = ((t, n, None), st')"
  shows "t = sb st' \<and> ''[DONE]'' \<in> set (dataLines st)"
  using assms
  by (auto simp: sse_tail_def sse_fail_def sse_done_def dest: flush_done
      split: option.splits if_splits sum.splits prod.splits)

lemma parse_calls:
  assumes "parseSSEStreamChunks dec cx rd = ((t, n, e), calls)"
  shows "map snd calls = map int [1..<Suc (length calls)]" and "\<forall>c\<in>set calls. fst c \<noteq> []"
proof -
  obtain ls er where sl: "scan_lines maxTokenSize rd = (ls, er)" by fastforce
  obtain r st where lp: "sse_loop dec cx 0 ls sse_init = (r, st)" by fastforce
  have ok: "calls_ok st" using calls_ok_loop[OF calls_ok_init, of dec cx 0 ls] lp by simp
  then have "calls_ok (snd (sse_tail dec (cx (length ls)) er st))" by (rule calls_ok_tail)
  with ok have "\<exists>st'. calls_ok st' \<and> calls = onChunk st'"
    using assms sl lp by (auto simp: parseSSEStreamChunks_def split: option.splits prod.splits)
  then show "map snd calls = map int [1..<Suc (length calls)]" and "\<forall>c\<in>set calls. fst c \<noteq> []"
    by (auto simp: calls_ok_def)
qed

lemma parse_success:
  assumes "parseSSEStreamChunks dec cx rd = ((t, n, None), calls)"
  shows "t = concat (map fst calls)" and "''[DONE]'' \<in> payloads (fst (scan_lines maxTokenSize rd))"
proof -
  obtain ls er where sl: "scan_lines maxTokenSize rd = (ls, er)" by fastforce
  obtain r st where lp: "sse_loop dec cx 0 ls sse_init = (r, st)" by fastforce
  have ok: "calls_ok st" using calls_ok_loop[OF calls_ok_init, of dec cx 0 ls] lp by simp
  have "\<exists>st'. calls_ok st' \<and> calls = onChunk st' \<and> t = sb st' \<and> ''[DONE]'' \<in> payloads ls"
  proof (cases r)
    case None
    obtain st' where tl: "sse_tail dec (cx (length ls)) er st = ((t, n, None), st')" "calls = onChunk st'"
      using assms sl lp None by (auto simp: parseSSEStreamChunks_def split: prod.splits)
    then have "calls_ok st'" using calls_ok_tail[OF ok, of dec "cx (length ls)" er] by simp
    moreover have "''[DONE]'' \<in> payloads ls"
      using sse_tail_success[OF tl(1)] sse_loop_dataLines lp None by (fastforce simp: sse_init_def)
    ultimately show ?thesis using tl sse_tail_success by blast
  next
    case (Some v)
    then have "v = (t, n, None)" "calls = onChunk st" using assms sl lp by (auto simp: parseSSEStreamChunks_def)
    then show ?thesis using sse_loop_success lp Some ok by (fastforce simp: sse_init_def)
  qed
  then show "t = concat (map fst calls)" and "''[DONE]'' \<in> payloads (fst (scan_lines maxTokenSize rd))"
    using sl by (auto simp: calls_ok_def)
qed

lemma parse_failure:
  assumes "parseSSEStreamChunks dec cx rd = ((t, n, Some e), calls)"
  shows "t = []"
proof -
  have fl: "sse_loop dec cx k ls st = (Some (t, n, Some e), st') \<Longrightarrow> t = []" for k ls st st'
  proof (induction ls arbitrary: k st)
    case (Cons line ls)
    then show ?case
      by (cases "sse_line dec (cx k) line st")
         (auto simp: sse_loop_line sse_line_def sse_fail_def sse_done_def split: option.splits if_splits sum.splits prod.splits)
  qed simp
  have tl: "sse_tail dec c er st = ((t, n, Some e), st') \<Longrightarrow> t = []" for c er st st'
    by (auto simp: sse_tail_def sse_fail_def sse_done_def split: option.splits if_splits sum.splits prod.splits)
  show ?thesis using assms fl tl
    by (fastforce simp: parseSSEStreamChunks_def split: option.splits prod.splits)
qed

text \<open>The parser meets the contract of a streaming client; its end marker is the \<^verbatim>\<open>[DONE]\<close> event.\<close>

interpretation sse_client: stream_client "parseSSEStreamChunks dec cx" "\<lambda>rd. ''[DONE]'' \<in> payloads (fst (scan_lines maxTokenSize rd))"
proof
  fix i r calls c
  assume p: "parseSSEStreamChunks dec cx i = (r, calls)"
  obtain t n e where r: "r = (t, n, e)" by (cases r) auto
  show "map snd calls = map int [1..<Suc (length calls)]" using parse_calls(1) p r by blast
  show "c \<in> set calls \<Longrightarrow> fst c \<noteq> []" using parse_calls(2) p r by blast
qed (use parse_success parse_failure in blast)+

section \<open>Round trip\<close>

text \<open>An event as an upstream writes it, with a JSON object on one line.\<close>

definition sse_event :: "string \<Rightarrow> string" where
  "sse_event d = ''data: '' @ d @ [newline, newline]"

definition object_text :: "string \<Rightarrow> bool" where
  "object_text d \<longleftrightarrow> d \<noteq> [] \<and> hd d = CHR ''{'' \<and> last d = CHR ''}'' \<and> newline \<notin> set d \<and> length d + 6 < maxTokenSize"

definition delta :: "sseChunk \<Rightarrow> string" where
  "delta ck = (case ck_Choices ck of [] \<Rightarrow> [] | c # _ \<Rightarrow> c)"

definition deltas :: "sseChunk list \<Rightarrow> string list" where
  "deltas cks = filter (\<lambda>c. c \<noteq> []) (map delta cks)"

definition final_count :: "sseChunk list \<Rightarrow> int" where
  "final_count cks =
     (let us = concat (map (\<lambda>ck. case ck_Usage ck of None \<Rightarrow> [] | Some n \<Rightarrow> [n]) cks)
      in if us \<noteq> [] \<and> 0 \<le> last us then last us else int (length (deltas cks)))"

lemma graphic_ends: "graphic (CHR ''d'')" "graphic (CHR ''}'')" "graphic (CHR '']'')"
  by (simp_all add: graphic_def space_encs_def)

text \<open>The two lines of an event and what the loop makes of them.\<close>

definition payload_ok :: "string \<Rightarrow> bool" where
  "payload_ok d \<longleftrightarrow> newline \<notin> set d \<and> length d + 6 < maxTokenSize \<and> d \<noteq> [] \<and> (last d = CHR ''}'' \<or> last d = CHR '']'')"

lemma payload_line:
  assumes "payload_ok d"
  shows "TrimSpace (''data: '' @ d) = ''data: '' @ d" and "dropCR (''data: '' @ d) = ''data: '' @ d"
    and "newline \<notin> set (''data: '' @ d)" and "length (''data: '' @ d) < maxTokenSize"
proof -
  from assms have d: "d = butlast d @ [last d]" and g: "graphic (last d)"
    by (auto simp: payload_ok_def graphic_ends)
  have "TrimSpace (CHR ''d'' # (''ata: '' @ butlast d) @ [last d]) = CHR ''d'' # (''ata: '' @ butlast d) @ [last d]"
    by (rule TrimSpace_graphic[OF graphic_ends(1) g])
  then show "TrimSpace (''data: '' @ d) = ''data: '' @ d" by (subst d, subst (2) d) simp
  show "dropCR (''data: '' @ d) = ''data: '' @ d" using assms by (auto simp: dropCR_def payload_ok_def)
  show "newline \<notin> set (''data: '' @ d)" using assms by (auto simp: payload_ok_def newline_def)
  show "length (''data: '' @ d) < maxTokenSize" using assms by (simp add: payload_ok_def)
qed

lemma scan_event:
  assumes "payload_ok d"
  shows "scan_lines maxTokenSize (sse_event d @ s, er) = (case scan_lines maxTokenSize (s, er) of (ts, e) \<Rightarrow> ((''data: '' @ d) # [] # ts, e))"
proof -
  have "scan_lines maxTokenSize (sse_event d @ s, er) = scan_lines maxTokenSize ((''data: '' @ d) @ newline # [] @ newline # s, er)"
    by (simp add: sse_event_def)
  also have "\<dots> = (case scan_lines maxTokenSize ([] @ newline # s, er) of (ts, e) \<Rightarrow> ((''data: '' @ d) # ts, e))"
    using payload_line[OF assms] by (subst scan_line) simp_all
  also have "\<dots> = (case scan_lines maxTokenSize (s, er) of (ts, e) \<Rightarrow> ((''data: '' @ d) # [] # ts, e))"
    by (subst scan_line) (simp_all add: maxTokenSize_def dropCR_def split: prod.split)
  finally show ?thesis .
qed

lemma loop_event:
  assumes "payload_ok d" and "\<And>i. cx i = None" and "dataLines st = []"
  shows "sse_loop dec cx k ((''data: '' @ d) # [] # ls) st =
     (case flush dec (st\<lparr>dataLines := [d]\<rparr>) of
        (Inl e, st') \<Rightarrow> (Some (sse_fail e st'), st')
      | (Inr isDone, st') \<Rightarrow> if isDone then (Some (sse_done st'), st') else sse_loop dec cx (Suc (Suc k)) ls st')"
proof -
  have "cutPrefix (''data: '' @ d) ''data:'' = Some d" by (simp add: cutPrefix_def HasPrefix_def)
  then have "sse_line dec (cx k) (''data: '' @ d) st = LNext (st\<lparr>dataLines := [d]\<rparr>)"
    using assms payload_line(1)[OF assms(1)] by (simp add: sse_line_def)
  moreover have "TrimSpace [] = []" by (simp add: TrimSpace_def)
  ultimately show ?thesis
    using assms(2) by (simp add: sse_loop_line sse_line_def split: prod.split sum.split)
qed

lemma flush_chunk:
  assumes "object_text d" and "dec d = Inr ck" and "ck_Error ck = None" and "dataLines st = []"
  shows "flush dec (st\<lparr>dataLines := [d]\<rparr>) = (Inr False, take_chunk ck st)"
proof -
  have "d \<noteq> ''[DONE]''" using assms(1) by (auto simp: object_text_def)
  moreover have eq: "st\<lparr>dataLines := []\<rparr> = st" using assms(4) by simp
  ultimately show ?thesis using assms(2,3) by (simp add: flush_def eq)
qed

lemma loop_chunks:
  assumes "list_all2 (\<lambda>d ck. object_text d \<and> dec d = Inr ck \<and> ck_Error ck = None) ds cks"
    and "\<And>i. cx i = None" and "dataLines st = []"
  shows "sse_loop dec cx k (concat (map (\<lambda>d. [''data: '' @ d, []]) ds) @ ls) st =
     sse_loop dec cx (k + 2 * length ds) ls (fold take_chunk cks st)"
  using assms(1,3)
proof (induction ds cks arbitrary: k st rule: list_all2_induct)
  case (Cons d ds ck cks)
  then have ok: "payload_ok d" by (auto simp: object_text_def payload_ok_def)
  have fl: "flush dec (st\<lparr>dataLines := [d]\<rparr>) = (Inr False, take_chunk ck st)"
    using Cons flush_chunk by blast
  have "sse_loop dec cx k ((''data: '' @ d) # [] # concat (map (\<lambda>d. [''data: '' @ d, []]) ds) @ ls) st =
     sse_loop dec cx (Suc (Suc k)) (concat (map (\<lambda>d. [''data: '' @ d, []]) ds) @ ls) (take_chunk ck st)"
    using loop_event[OF ok assms(2) Cons.prems] fl by simp
  then show ?case using Cons.IH[of "take_chunk ck st"] Cons.prems by simp
qed simp

lemma scan_chunks:
  assumes "\<forall>d\<in>set ds. payload_ok d"
  shows "scan_lines maxTokenSize (concat (map sse_event ds) @ s, er) =
     (case scan_lines maxTokenSize (s, er) of (ts, e) \<Rightarrow> (concat (map (\<lambda>d. [''data: '' @ d, []]) ds) @ ts, e))"
  using assms by (induction ds) (simp_all add: scan_event split: prod.split)

text \<open>What taking a list of chunks amounts to.\<close>

lemma take_chunk_calls:
  "map fst (onChunk (take_chunk ck st)) = map fst (onChunk st) @ deltas [ck]"
  by (simp add: take_chunk_def deltas_def delta_def split: option.split list.split)

lemma fold_take_calls: "map fst (onChunk (fold take_chunk cks st)) = map fst (onChunk st) @ deltas cks"
  by (induction cks arbitrary: st) (simp_all add: take_chunk_calls, simp_all add: deltas_def)

lemma fold_take_usage:
  "usageTokens (fold take_chunk cks st) =
     last (usageTokens st # concat (map (\<lambda>ck. case ck_Usage ck of None \<Rightarrow> [] | Some n \<Rightarrow> [n]) cks))"
proof (induction cks arbitrary: st)
  case (Cons ck cks)
  have "usageTokens (take_chunk ck st) = (case ck_Usage ck of None \<Rightarrow> usageTokens st | Some n \<Rightarrow> n)"
    by (simp add: take_chunk_def split: option.split list.split)
  with Cons[of "take_chunk ck st"] show ?case by (simp split: option.split)
qed simp

lemma fold_take_ok: "calls_ok st \<Longrightarrow> calls_ok (fold take_chunk cks st)"
  by (induction cks arbitrary: st) (simp_all add: calls_ok_take)

lemma fold_take_dataLines: "dataLines (fold take_chunk cks st) = dataLines st"
  by (induction cks arbitrary: st) simp_all

text \<open>
  C31. Reading what an upstream streams. For any list of chunks, each written as one \<^verbatim>\<open>data:\<close> event and
  decoded without error, followed by the \<^verbatim>\<open>[DONE]\<close> event, and whatever comes after it: the parser returns
  exactly the concatenation of the chunks' texts; it calls back once per non-empty text, in order, with the
  running count; and the final count is the upstream's own when it sent one that is not negative and the
  number of non-empty texts otherwise.
\<close>

theorem sse_roundtrip:
  assumes "list_all2 (\<lambda>d ck. object_text d \<and> dec d = Inr ck \<and> ck_Error ck = None) ds cks"
    and "\<And>i. cx i = None"
  shows "parseSSEStreamChunks dec cx (concat (map sse_event ds) @ sse_event ''[DONE]'' @ rest, rerr) =
    ((concat (deltas cks), final_count cks, None),
     zip (deltas cks) (map int [1..<Suc (length (deltas cks))]))"
proof -
  let ?st = "fold take_chunk cks sse_init"
  have done_ok: "payload_ok ''[DONE]''" by (simp add: payload_ok_def newline_def maxTokenSize_def)
  have ds: "\<forall>d\<in>set ds. payload_ok d"
    using assms(1) by (auto simp: list_all2_conv_all_nth in_set_conv_nth object_text_def payload_ok_def)
  obtain ts er where ts: "scan_lines maxTokenSize (rest, rerr) = (ts, er)" by fastforce
  have scan: "scan_lines maxTokenSize (concat (map sse_event ds) @ sse_event ''[DONE]'' @ rest, rerr) =
      (concat (map (\<lambda>d. [''data: '' @ d, []]) ds) @ (''data: '' @ ''[DONE]'') # [] # ts, er)"
    by (simp add: scan_chunks[OF ds] scan_event[OF done_ok] ts)
  have dl: "dataLines ?st = []" "dataLines sse_init = []" by (simp_all add: fold_take_dataLines sse_init_def)
  have fl: "flush dec (?st\<lparr>dataLines := [''[DONE]'']\<rparr>) = (Inr True, ?st)" using dl by (simp add: flush_def)
  have loop: "sse_loop dec cx 0 (concat (map (\<lambda>d. [''data: '' @ d, []]) ds) @ (''data: '' @ ''[DONE]'') # [] # ts) sse_init
      = (Some (sse_done ?st), ?st)"
    using loop_chunks[OF assms dl(2)] loop_event[OF done_ok assms(2) dl(1)] fl by simp
  have ok: "calls_ok ?st" by (simp add: fold_take_ok calls_ok_init)
  have calls: "map fst (onChunk ?st) = deltas cks" by (simp add: fold_take_calls sse_init_def)
  then have len: "length (onChunk ?st) = length (deltas cks)" by (metis length_map)
  have "onChunk ?st = zip (deltas cks) (map int [1..<Suc (length (deltas cks))])"
    using ok calls len by (metis calls_ok_def zip_map_fst_snd)
  moreover have "sse_done ?st = (concat (deltas cks), final_count cks, None)"
    using ok calls len
    by (auto simp: sse_done_def calls_ok_def fold_take_usage final_count_def Let_def sse_init_def)
  ultimately show ?thesis unfolding parseSSEStreamChunks_def scan using loop by simp
qed

text \<open>A decoder for the chunks of a small reply.\<close>

definition demo_dec :: chunk_dec where
  "demo_dec d =
     (if d = ''{a}'' then Inr \<lparr>ck_Choices = [''Hel''], ck_Usage = None, ck_Error = None\<rparr>
      else if d = ''{b}'' then Inr \<lparr>ck_Choices = [''lo''], ck_Usage = None, ck_Error = None\<rparr>
      else if d = ''{u}'' then Inr \<lparr>ck_Choices = [], ck_Usage = Some 7, ck_Error = None\<rparr>
      else Inl (new_err ''invalid character''))"

theorem sse_roundtrip_witness:
  "parseSSEStreamChunks demo_dec (\<lambda>_. None)
     (concat (map sse_event [''{a}'', ''{b}'', ''{u}'']) @ sse_event ''[DONE]'' @ ''late'', None) =
   ((''Hello'', 7, None), [(''Hel'', 1), (''lo'', 2)])"
proof -
  let ?cks = "[\<lparr>ck_Choices = [''Hel''], ck_Usage = None, ck_Error = None\<rparr>,
    \<lparr>ck_Choices = [''lo''], ck_Usage = None, ck_Error = None\<rparr>, \<lparr>ck_Choices = [], ck_Usage = Some 7, ck_Error = None\<rparr>]"
  have "list_all2 (\<lambda>d ck. object_text d \<and> demo_dec d = Inr ck \<and> ck_Error ck = None) [''{a}'', ''{b}'', ''{u}''] ?cks"
    by (simp add: object_text_def demo_dec_def newline_def maxTokenSize_def)
  from sse_roundtrip[OF this, of "\<lambda>_. None" "''late''" None] show ?thesis
    by (simp add: deltas_def delta_def final_count_def)
qed

end
