(* ===== verification/Upstream_Proxy.thy ===== *)
theory Upstream_Proxy
  imports Line_Scanner
begin

text \<open>
  \<^verbatim>\<open>internal/proxy/proxy.go\<close>: the retrying transport both lanes send through, the rewrites of both
  proxies and the translation of upstream errors into responses. What a round of the retry loop
  observes of the network and of the request's context is a record, one per attempt, so every behaviour
  of the upstream is some sequence of observations. Of \<^verbatim>\<open>httputil.ReverseProxy\<close> there is what the code relies on.
\<close>

section \<open>The retrying transport\<close>

record retryTransport =
  rt_retries :: int
  rt_backoff :: duration

definition Transport :: retryTransport where
  "Transport = \<lparr>rt_retries = 2, rt_backoff = 500 * millisecond\<rparr>"

definition isRetryableConnError :: "goerr \<Rightarrow> bool" where
  "isRetryableConnError e \<longleftrightarrow>
     errors_Is e IoEOF \<or> errors_Is e IoUnexpectedEOF \<or>
     Contains (e_text e) ''server disconnected'' \<or>
     Contains (e_text e) ''connection reset'' \<or>
     Contains (e_text e) ''broken pipe'' \<or>
     Contains (e_text e) ''EOF''"

text \<open>A request as far as the transport looks at it: its body and whether \<^verbatim>\<open>GetBody\<close> is set.\<close>

record rt_request =
  rq_Body :: "reader option"
  rq_GetBody :: bool

text \<open>What attempt \<open>i\<close> observes; \<open>a_result\<close> is what the base transport returns.\<close>

record 'r rt_attempt =
  a_ctxBefore :: bool               \<comment> \<open>\<^verbatim>\<open>req.Context().Err() != nil\<close> before the attempt\<close>
  a_getBody :: "goerr + reader"     \<comment> \<open>what the caller's \<^verbatim>\<open>GetBody\<close> returns\<close>
  a_result :: "'r option \<times> goerr option"
  a_ctxAfter :: bool                \<comment> \<open>\<^verbatim>\<open>req.Context().Err() != nil\<close> after it\<close>

datatype rt_ev = RSleep duration | RSend "reader option"

text \<open>The body of an attempt: the one at hand first, a fresh copy for a retry.\<close>

definition attempt_body ::
  "(goerr + reader) option \<Rightarrow> nat \<Rightarrow> reader option \<Rightarrow> goerr + reader option" where
  "attempt_body getBody attempt cur =
     (if attempt = 0 then Inr cur
      else case getBody of
        None \<Rightarrow> Inr cur
      | Some (Inl e) \<Rightarrow> Inl e
      | Some (Inr b) \<Rightarrow> Inr (Some b))"

function rt_loop ::
  "retryTransport \<Rightarrow> (nat \<Rightarrow> 'r rt_attempt) \<Rightarrow> (nat \<Rightarrow> (goerr + reader) option) \<Rightarrow> nat \<Rightarrow> reader option
     \<Rightarrow> goerr option \<Rightarrow> rt_ev list \<Rightarrow> ('r option \<times> goerr option) \<times> rt_ev list" where
  "rt_loop t obs getBody attempt cur lastErr log =
     (if rt_retries t < int attempt then ((None, lastErr), log)
      else if 0 < attempt \<and> a_ctxBefore (obs attempt) then ((None, lastErr), log)
      else case attempt_body (getBody attempt) attempt cur of
        Inl _ \<Rightarrow> ((None, lastErr), log)
      | Inr b \<Rightarrow>
          (let log' = log @ (if 0 < attempt then [RSleep (rt_backoff t)] else []) @ [RSend b] in
           case a_result (obs attempt) of
             (resp, None) \<Rightarrow> ((resp, None), log')
           | (resp, Some e) \<Rightarrow>
               (if a_ctxAfter (obs attempt) \<or> \<not> isRetryableConnError e then ((resp, Some e), log')
                else rt_loop t obs getBody (Suc attempt) b (Some e) log')))"
  by pat_completeness auto
termination
  by (relation "measure (\<lambda>(t, _, _, attempt, _). nat (rt_retries t + 1 - int attempt))") auto

declare rt_loop.simps [simp del]

definition RoundTrip ::
  "retryTransport \<Rightarrow> (nat \<Rightarrow> 'r rt_attempt) \<Rightarrow> rt_request \<Rightarrow> ('r option \<times> goerr option) \<times> rt_ev list" where
  "RoundTrip t obs req =
     (case (rq_Body req, rq_GetBody req) of
        (Some (b, Some e), False) \<Rightarrow> ((None, Some e), [])
      | (Some (b, None), False) \<Rightarrow> rt_loop t obs (\<lambda>_. Some (Inr (b, None))) 0 (Some (b, None)) None []
      | (None, False) \<Rightarrow> rt_loop t obs (\<lambda>_. None) 0 None None []
      | (cur, True) \<Rightarrow> rt_loop t obs (\<lambda>i. Some (a_getBody (obs i))) 0 cur None [])"

section \<open>Proxies and error responses\<close>

definition embedImagePath :: string where "embedImagePath = ''/embeddings_image''"

text \<open>
  The outbound request as \<^verbatim>\<open>Rewrite\<close> changes it: its URL and its Host header. \<open>esc\<close> is \<^verbatim>\<open>URL.EscapedPath\<close>, which
  only matters for a path whose encoding is not the default one.
\<close>

record out_url =
  ou_Scheme :: string
  ou_Host :: string
  ou_Path :: string
  ou_RawPath :: string
  ou_RawQuery :: string

record out_request =
  or_URL :: out_url
  or_Host :: string

definition HasSuffix :: "string \<Rightarrow> string \<Rightarrow> bool" where
  "HasSuffix s p \<longleftrightarrow> HasPrefix (rev s) (rev p)"

text \<open>\<^verbatim>\<open>ProxyRequest.SetURL\<close>: scheme and host of the target, the paths joined by one slash, the queries by an ampersand.\<close>

definition joiningSlash :: "string \<Rightarrow> string \<Rightarrow> string \<Rightarrow> string \<Rightarrow> string" where
  "joiningSlash a b x y =
     (if HasSuffix a ''/'' \<and> HasPrefix b ''/'' then x @ drop 1 y
      else if \<not> HasSuffix a ''/'' \<and> \<not> HasPrefix b ''/'' then x @ ''/'' @ y
      else x @ y)"

definition joinURLPath :: "(out_url \<Rightarrow> string) \<Rightarrow> out_url \<Rightarrow> out_url \<Rightarrow> string \<times> string" where
  "joinURLPath esc a b =
     (if ou_RawPath a = [] \<and> ou_RawPath b = []
      then (joiningSlash (ou_Path a) (ou_Path b) (ou_Path a) (ou_Path b), [])
      else (joiningSlash (esc a) (esc b) (ou_Path a) (ou_Path b), joiningSlash (esc a) (esc b) (esc a) (esc b)))"

definition SetURL :: "(out_url \<Rightarrow> string) \<Rightarrow> out_url \<Rightarrow> out_request \<Rightarrow> out_request" where
  "SetURL esc target r =
     (case joinURLPath esc target (or_URL r) of
        (p, raw) \<Rightarrow>
          \<lparr>or_URL = \<lparr>ou_Scheme = ou_Scheme target, ou_Host = ou_Host target, ou_Path = p, ou_RawPath = raw,
             ou_RawQuery = ou_RawQuery target @
               (if ou_RawQuery target = [] \<or> ou_RawQuery (or_URL r) = [] then [] else ''&'') @ ou_RawQuery (or_URL r)\<rparr>,
           or_Host = []\<rparr>)"

definition New_Rewrite :: "(out_url \<Rightarrow> string) \<Rightarrow> out_url \<Rightarrow> out_request \<Rightarrow> out_request" where
  "New_Rewrite esc target r = (SetURL esc target r)\<lparr>or_Host := ou_Host target\<rparr>"

text \<open>The inbound path is the one of the outbound request before it is rewritten.\<close>

definition NewEmbed_Rewrite :: "(out_url \<Rightarrow> string) \<Rightarrow> out_url \<Rightarrow> out_request \<Rightarrow> out_request" where
  "NewEmbed_Rewrite esc target r =
     (let r1 = (SetURL esc target r)\<lparr>or_Host := ou_Host target\<rparr>; p = ou_Path (or_URL r)
      in if p = ''/embeddings'' \<or> p = ''/v1/embeddings'' then r1\<lparr>or_URL := (or_URL r1)\<lparr>ou_Path := embedImagePath\<rparr>\<rparr> else r1)"

definition WriteUpstreamError :: "goerr \<Rightarrow> response \<Rightarrow> bool \<times> response" where
  "WriteUpstreamError e w =
     (if errors_Is e (CtxErr Canceled) then
        (True, write_status 503 (set_header ''Retry-After'' ''1'' (set_header ''X-Broker-Status'' ''deferred'' w)))
      else if errors_Is e (CtxErr DeadlineExceeded) then
        (True, write_status 503 (set_header ''Retry-After'' ''1'' (set_header ''X-Broker-Status'' ''deferred'' w)))
      else (False, w))"

definition errorHandler :: "goerr \<Rightarrow> response \<Rightarrow> response" where
  "errorHandler e w =
     (case WriteUpstreamError e w of (True, w') \<Rightarrow> w' | (False, w') \<Rightarrow> write_status 502 w')"

text \<open>
  \<^verbatim>\<open>ReverseProxy.ServeHTTP\<close> around the transport and the error handler: an error is handed to the handler; an
  answer is copied, and a copy that breaks off, because the upstream or the client ended it, panics. \<open>hop\<close>
  drops the headers of one hop, \<open>cutAt\<close> is where the client stopped reading. Of the values of a header the
  first is kept, and the broker's own come first. The upstream does not switch protocols.
\<close>

record proxy_answer =
  ps_code :: int
  ps_hdrs :: header
  ps_body :: reader

definition copied :: "nat option \<Rightarrow> proxy_answer \<Rightarrow> string" where
  "copied cutAt res = (case cutAt of None \<Rightarrow> fst (ps_body res) | Some n \<Rightarrow> take n (fst (ps_body res)))"

definition forward ::
  "(header \<Rightarrow> header) \<Rightarrow> nat option \<Rightarrow> proxy_answer option \<times> goerr option \<Rightarrow> response \<Rightarrow> response \<times> bool" where
  "forward hop cutAt r w =
     (case r of
        (_, Some e) \<Rightarrow> (errorHandler e w, False)
      | (None, None) \<Rightarrow> (w, True)
      | (Some res, None) \<Rightarrow>
          (let w1 = write_status (ps_code res) (w\<lparr>hdrs := hop (ps_hdrs res) ++ hdrs w\<rparr>)
           in (w1\<lparr>body := body w1 @ copied cutAt res\<rparr>, snd (ps_body res) \<noteq> None \<or> cutAt \<noteq> None)))"

lemma forward_simps [simp]:
  "forward hop cutAt (a, Some e) w = (errorHandler e w, False)"
  "forward hop cutAt (None, None) w = (w, True)"
  "forward hop cutAt (Some res, None) w =
     (let w1 = write_status (ps_code res) (w\<lparr>hdrs := hop (ps_hdrs res) ++ hdrs w\<rparr>)
      in (w1\<lparr>body := body w1 @ copied cutAt res\<rparr>, snd (ps_body res) \<noteq> None \<or> cutAt \<noteq> None))"
  by (cases a; simp add: forward_def)+

text \<open>A request of the server has no \<^verbatim>\<open>GetBody\<close>, and no body when its length is zero.\<close>

definition proxy_request :: "int \<Rightarrow> reader \<Rightarrow> rt_request" where
  "proxy_request contentLength b = \<lparr>rq_Body = (if contentLength = 0 then None else Some b), rq_GetBody = False\<rparr>"

definition proxy_ServeHTTP ::
  "(header \<Rightarrow> header) \<Rightarrow> nat option \<Rightarrow> (nat \<Rightarrow> proxy_answer rt_attempt) \<Rightarrow> int \<Rightarrow> reader \<Rightarrow> response \<Rightarrow> response \<times> bool" where
  "proxy_ServeHTTP hop cutAt net contentLength b w =
     forward hop cutAt (fst (RoundTrip Transport net (proxy_request contentLength b))) w"

section \<open>Where requests go\<close>

text \<open>
  A target that is only a scheme and a host changes neither path nor query; the embed lane sends both
  spellings of the OpenAI route to the image route.
\<close>

lemma New_keeps_path:
  assumes "ou_Path target \<in> {[], ''/''}" and "ou_RawPath target = []" and "ou_RawQuery target = []"
    and "ou_RawPath (or_URL r) = []" and "HasPrefix (ou_Path (or_URL r)) ''/''"
  shows "ou_Path (or_URL (New_Rewrite esc target r)) = ou_Path (or_URL r)"
    and "ou_RawQuery (or_URL (New_Rewrite esc target r)) = ou_RawQuery (or_URL r)"
    and "ou_Host (or_URL (New_Rewrite esc target r)) = ou_Host target"
    and "or_Host (New_Rewrite esc target r) = ou_Host target"
proof -
  obtain p where "ou_Path (or_URL r) = CHR ''/'' # p"
    using assms(5) by (cases "ou_Path (or_URL r)") (auto simp: HasPrefix_def)
  then show "ou_Path (or_URL (New_Rewrite esc target r)) = ou_Path (or_URL r)"
    "ou_RawQuery (or_URL (New_Rewrite esc target r)) = ou_RawQuery (or_URL r)"
    "ou_Host (or_URL (New_Rewrite esc target r)) = ou_Host target" "or_Host (New_Rewrite esc target r) = ou_Host target"
    using assms by (auto simp: New_Rewrite_def SetURL_def joinURLPath_def joiningSlash_def HasSuffix_def HasPrefix_def)
qed

text \<open>A base path in the embed lane's URL is kept for every route but the one that embeds.\<close>

lemma embed_drops_base_path:
  assumes "ou_Path target = ''/base''" and "ou_RawPath target = []" and "ou_RawPath (or_URL r) = []"
  shows "ou_Path (or_URL r) = ''/v1/embeddings'' \<Longrightarrow> ou_Path (or_URL (NewEmbed_Rewrite esc target r)) = ''/embeddings_image''"
    and "ou_Path (or_URL r) = ''/health'' \<Longrightarrow> ou_Path (or_URL (NewEmbed_Rewrite esc target r)) = ''/base/health''"
  using assms
  by (simp_all add: NewEmbed_Rewrite_def SetURL_def joinURLPath_def joiningSlash_def HasSuffix_def HasPrefix_def embedImagePath_def Let_def)

section \<open>The retry discipline\<close>

text \<open>The attempts a run of the loop makes, in order.\<close>

definition attempts :: "duration \<Rightarrow> reader option \<Rightarrow> nat \<Rightarrow> rt_ev list" where
  "attempts d b n = RSend b # concat (replicate n [RSleep d, RSend b])"

lemma attempts_Suc: "attempts d b (Suc n) = attempts d b n @ [RSleep d, RSend b]"
proof -
  have "concat (replicate (Suc n) es) = concat (replicate n es) @ es" for es :: "rt_ev list"
    by (induction n) simp_all
  then show ?thesis by (simp only: attempts_def append_Cons)
qed

text \<open>An attempt that the loop may follow by another one.\<close>

definition retried :: "'r rt_attempt \<Rightarrow> 'r rt_attempt \<Rightarrow> bool" where
  "retried a a' \<longleftrightarrow> (\<exists>resp e. a_result a = (resp, Some e) \<and> isRetryableConnError e) \<and>
     \<not> a_ctxAfter a \<and> \<not> a_ctxBefore a'"

text \<open>What the caller gets after the last attempt, and why there was no further one.\<close>

definition settled :: "retryTransport \<Rightarrow> (nat \<Rightarrow> 'r rt_attempt) \<Rightarrow> nat \<Rightarrow> 'r option \<times> goerr option \<Rightarrow> bool" where
  "settled t obs n res \<longleftrightarrow>
     (case a_result (obs n) of
        (resp, None) \<Rightarrow> res = (resp, None)
      | (resp, Some e) \<Rightarrow>
          if a_ctxAfter (obs n) \<or> \<not> isRetryableConnError e then res = (resp, Some e)
          else res = (None, Some e) \<and> (int n = rt_retries t \<or> a_ctxBefore (obs (Suc n))))"

text \<open>The log before attempt \<open>n\<close>.\<close>

definition log_before :: "duration \<Rightarrow> reader option \<Rightarrow> nat \<Rightarrow> rt_ev list" where
  "log_before d b n = (case n of 0 \<Rightarrow> [] | Suc m \<Rightarrow> attempts d b m)"

lemma log_before_Suc [simp]: "log_before d b (Suc n) = attempts d b n"
  by (simp add: log_before_def)

lemma log_before_attempt:
  "log_before d b n @ (if 0 < n then [RSleep d] else []) @ [RSend b] = attempts d b n"
  by (cases n) (simp add: log_before_def attempts_def, simp add: attempts_Suc)

lemma rt_loop_attempt:
  assumes "\<And>i. attempt_body (getBody i) i b = Inr b"
    and "int n \<le> rt_retries t" and "0 < n \<Longrightarrow> \<not> a_ctxBefore (obs n)"
    and "a_result (obs n) = (resp, er)"
  shows "rt_loop t obs getBody n b le (log_before (rt_backoff t) b n) =
     (case er of
        None \<Rightarrow> ((resp, None), attempts (rt_backoff t) b n)
      | Some e \<Rightarrow> (if a_ctxAfter (obs n) \<or> \<not> isRetryableConnError e then ((resp, Some e), attempts (rt_backoff t) b n)
          else rt_loop t obs getBody (Suc n) b (Some e) (attempts (rt_backoff t) b n)))"
  by (subst rt_loop.simps) (use assms in \<open>auto simp: log_before_attempt Let_def split: option.splits\<close>)

lemma rt_loop_discipline:
  assumes get: "\<And>i. attempt_body (getBody i) i b = Inr b"
    and "int n \<le> rt_retries t" and "0 < n \<Longrightarrow> \<not> a_ctxBefore (obs n)"
  shows "\<exists>res m. rt_loop t obs getBody n b le (log_before (rt_backoff t) b n) = (res, attempts (rt_backoff t) b m) \<and>
      int m \<le> rt_retries t \<and> (\<forall>k. n \<le> k \<and> k < m \<longrightarrow> retried (obs k) (obs (Suc k))) \<and> settled t obs m res"
  using assms(2-)
proof (induction "nat (rt_retries t - int n)" arbitrary: n le rule: less_induct)
  case less
  let ?d = "rt_backoff t"
  obtain resp er where r: "a_result (obs n) = (resp, er)" by fastforce
  note loop = rt_loop_attempt[where getBody = getBody and n = n and obs = obs, OF get less.prems r]
  consider (stop) "er = None \<or> (\<exists>e. er = Some e \<and> (a_ctxAfter (obs n) \<or> \<not> isRetryableConnError e))"
    | (over) e where "er = Some e" "\<not> a_ctxAfter (obs n)" "isRetryableConnError e"
        "rt_retries t < int (Suc n) \<or> a_ctxBefore (obs (Suc n))"
    | (again) e where "er = Some e" "\<not> a_ctxAfter (obs n)" "isRetryableConnError e"
        "int (Suc n) \<le> rt_retries t" "\<not> a_ctxBefore (obs (Suc n))"
    by (cases er) force+
  then show ?case
  proof cases
    case stop
    then have "settled t obs n (resp, er)" using r by (auto simp: settled_def)
    moreover have "rt_loop t obs getBody n b le (log_before ?d b n) = ((resp, er), attempts ?d b n)"
      using stop loop by (auto split: option.splits)
    ultimately show ?thesis using less.prems by (intro exI[of _ "(resp, er)"] exI[of _ n]) auto
  next
    case over
    then have "settled t obs n (None, Some e)" using r less.prems by (auto simp: settled_def)
    moreover have "rt_loop t obs getBody n b le (log_before ?d b n) = ((None, Some e), attempts ?d b n)"
      using over loop by (auto simp: rt_loop.simps[of t obs getBody "Suc n"])
    ultimately show ?thesis using less.prems by (intro exI[of _ "(None, Some e)"] exI[of _ n]) auto
  next
    case again
    have step: "retried (obs n) (obs (Suc n))" using again r by (auto simp: retried_def)
    have "nat (rt_retries t - int (Suc n)) < nat (rt_retries t - int n)" using again by simp
    from less.hyps[OF this again(4) again(5)] obtain res m where
      m: "rt_loop t obs getBody (Suc n) b (Some e) (log_before ?d b (Suc n)) = (res, attempts ?d b m)"
      "int m \<le> rt_retries t" "settled t obs m res" and
      rest: "\<forall>k. Suc n \<le> k \<and> k < m \<longrightarrow> retried (obs k) (obs (Suc k))"
      by blast
    have "retried (obs k) (obs (Suc k))" if "n \<le> k" "k < m" for k
      using that step rest by (cases "k = n") auto
    moreover have "rt_loop t obs getBody n b le (log_before ?d b n) = (res, attempts ?d b m)"
      using loop again m(1) by simp
    ultimately show ?thesis using m by blast
  qed
qed

text \<open>
  C34. The retrying transport. A request whose body can be replayed is sent at least once and at most
  \<open>retries + 1\<close> times, every time with the same body, with one backoff between two attempts. A further
  attempt is made only after a connection-level error and only while the request's context is live, so a
  response that arrived is never asked for twice. The caller gets the result of the last attempt; a
  connection-level error is returned only when the retries are used up or the context is done. A body
  that cannot be read is an error and nothing is sent. The broker's own transport makes at most three
  attempts.
\<close>

theorem retry_discipline:
  assumes "0 \<le> rt_retries t"
    and replay: "\<And>i. rq_GetBody req \<Longrightarrow> rq_Body req = Some b \<and> a_getBody (obs i) = Inr b"
  shows "(if \<not> rq_GetBody req \<and> (\<exists>e bytes. rq_Body req = Some (bytes, Some e))
      then (\<exists>e bytes. rq_Body req = Some (bytes, Some e) \<and> RoundTrip t obs req = ((None, Some e), []))
      else (\<exists>m. snd (RoundTrip t obs req) = attempts (rt_backoff t) (rq_Body req) m \<and> int m \<le> rt_retries t \<and>
        (\<forall>k<m. retried (obs k) (obs (Suc k))) \<and> settled t obs m (fst (RoundTrip t obs req))))
    \<and> rt_retries Transport = 2"
proof -
  have loop: "\<exists>m. snd (rt_loop t obs g 0 c None []) = attempts (rt_backoff t) c m \<and> int m \<le> rt_retries t \<and>
        (\<forall>k<m. retried (obs k) (obs (Suc k))) \<and> settled t obs m (fst (rt_loop t obs g 0 c None []))"
    if "\<And>i. attempt_body (g i) i c = Inr c" for g c
  proof -
    have "\<exists>res m. rt_loop t obs g 0 c None (log_before (rt_backoff t) c 0) = (res, attempts (rt_backoff t) c m) \<and>
      int m \<le> rt_retries t \<and> (\<forall>k. 0 \<le> k \<and> k < m \<longrightarrow> retried (obs k) (obs (Suc k))) \<and> settled t obs m res"
      by (rule rt_loop_discipline) (use that assms(1) in auto)
    then show ?thesis by (auto simp: log_before_def)
  qed
  consider (unread) bytes e where "\<not> rq_GetBody req" "rq_Body req = Some (bytes, Some e)"
    | (buffered) bytes where "\<not> rq_GetBody req" "rq_Body req = Some (bytes, None)"
    | (nobody) "\<not> rq_GetBody req" "rq_Body req = None"
    | (given) "rq_GetBody req"
    by (metis not_Some_eq surj_pair)
  then show ?thesis
  proof cases
    case unread
    then show ?thesis by (simp add: RoundTrip_def Transport_def)
  next
    case buffered
    then have "RoundTrip t obs req = rt_loop t obs (\<lambda>_. Some (Inr (bytes, None))) 0 (rq_Body req) None []"
      by (simp add: RoundTrip_def)
    with buffered loop[of "\<lambda>_. Some (Inr (bytes, None))" "rq_Body req"] show ?thesis
      by (simp add: attempt_body_def Transport_def)
  next
    case nobody
    then have "RoundTrip t obs req = rt_loop t obs (\<lambda>_. None) 0 (rq_Body req) None []" by (simp add: RoundTrip_def)
    with nobody loop[of "\<lambda>_. None" "rq_Body req"] show ?thesis by (simp add: attempt_body_def Transport_def)
  next
    case given
    then have "RoundTrip t obs req = rt_loop t obs (\<lambda>i. Some (a_getBody (obs i))) 0 (rq_Body req) None []"
      by (simp add: RoundTrip_def split: option.splits)
    with given replay loop[of "\<lambda>i. Some (a_getBody (obs i))" "rq_Body req"] show ?thesis
      by (simp add: attempt_body_def Transport_def)
  qed
qed

text \<open>An upstream that resets the first connection and answers the second.\<close>

definition reset_once :: "nat \<Rightarrow> nat rt_attempt" where
  "reset_once i = \<lparr>a_ctxBefore = False, a_getBody = Inr (''x'', None),
     a_result = (if i = 0 then (None, Some (new_err ''connection reset'')) else (Some 200, None)), a_ctxAfter = False\<rparr>"

theorem retry_discipline_witness:
  "snd (RoundTrip Transport reset_once \<lparr>rq_Body = Some (''x'', None), rq_GetBody = True\<rparr>)
     = attempts (500 * millisecond) (Some (''x'', None)) 1 \<and>
   fst (RoundTrip Transport reset_once \<lparr>rq_Body = Some (''x'', None), rq_GetBody = True\<rparr>) = (Some 200, None)"
proof -
  let ?req = "\<lparr>rq_Body = Some (''x'', None), rq_GetBody = True\<rparr>"
  have reset: "isRetryableConnError (new_err ''connection reset'')"
    by (simp add: isRetryableConnError_def new_err_def HasPrefix_def)
  have prem: "0 \<le> rt_retries Transport" "rt_backoff Transport = 500 * millisecond"
    "\<And>i. a_getBody (reset_once i) = Inr (''x'', None)"
    by (simp_all add: Transport_def reset_once_def)
  have "\<exists>m. snd (RoundTrip Transport reset_once ?req) = attempts (rt_backoff Transport) (rq_Body ?req) m \<and>
      (\<forall>k<m. retried (reset_once k) (reset_once (Suc k))) \<and>
      settled Transport reset_once m (fst (RoundTrip Transport reset_once ?req))"
    using retry_discipline[of Transport ?req "(''x'', None)" reset_once, OF prem(1)] prem(3) by auto
  then obtain m where
    m: "snd (RoundTrip Transport reset_once ?req) = attempts (500 * millisecond) (Some (''x'', None)) m"
      "\<forall>k<m. retried (reset_once k) (reset_once (Suc k))" "settled Transport reset_once m (fst (RoundTrip Transport reset_once ?req))"
    unfolding prem(2) by (metis rt_request.select_convs(1))
  have "\<not> retried (reset_once 1) (reset_once (Suc 1))" by (simp add: retried_def reset_once_def)
  with m(2) have "m \<le> 1" by (metis not_le)
  moreover have "m \<noteq> 0"
    using m(3) reset by (auto simp: settled_def reset_once_def Transport_def split: if_splits)
  ultimately have "m = 1" by simp
  with m show ?thesis by (simp add: settled_def reset_once_def)
qed

end
