(* ===== verification/OpenAI_Handler.thy ===== *)
theory OpenAI_Handler
  imports OpenAI_Stream Upstream_Proxy "HOL-Library.Multiset"
begin

text \<open>
  \<^verbatim>\<open>internal/openaicompat\<close>: \<^verbatim>\<open>client.go\<close>, \<^verbatim>\<open>embed.go\<close> and \<^verbatim>\<open>handler.go\<close>, which present Ollama's API in front of an
  OpenAI-compatible upstream. JSON values are a datatype; turning them into bytes and back, building an
  HTTP request and sending it are the fields of an environment record, so every behaviour of the codec
  and of the network is some environment. A Go map is an association list, a nil slice the empty list. What a handler wrote is its
  response and the list of values it encoded into the body.
\<close>

section \<open>The outbound request\<close>

datatype json =
    JNull
  | JBool bool
  | JNum string
  | JString string
  | JArray "json list"
  | JObject "(string \<times> json) list"

type_synonym jmap = "(string \<times> json) list"

record Client =
  cl_base :: string
  cl_apiKey :: string

definition client_New :: "string \<Rightarrow> string \<Rightarrow> Client" where
  "client_New u key = \<lparr>cl_base = u, cl_apiKey = key\<rparr>"

record out_request =
  or_path :: "string list"
  or_hdrs :: header
  or_payload :: string

record up_response =
  ur_code :: int
  ur_body :: reader

text \<open>\<^verbatim>\<open>json.Marshal\<close>, \<^verbatim>\<open>http.NewRequestWithContext\<close> on a path below the base URL, and \<^verbatim>\<open>c.http.Do\<close>.\<close>

record upstream_env =
  ue_marshal :: "(string \<rightharpoonup> json) \<Rightarrow> goerr + string"
  ue_newreq :: "string \<Rightarrow> string list \<Rightarrow> goerr option"
  ue_do :: "out_request \<Rightarrow> goerr + up_response"

definition auth_headers :: "Client \<Rightarrow> header" where
  "auth_headers c =
     (let h = Map.empty(''Content-Type'' \<mapsto> ''application/json'')
      in if cl_apiKey c \<noteq> [] then h(''Authorization'' \<mapsto> ''Bearer '' @ cl_apiKey c) else h)"

text \<open>Marshal, build and send: the steps \<^verbatim>\<open>Generate\<close>, \<^verbatim>\<open>openChatStream\<close> and \<^verbatim>\<open>Embed\<close> share.\<close>

definition post_json :: "upstream_env \<Rightarrow> Client \<Rightarrow> string list \<Rightarrow> (string \<rightharpoonup> json) \<Rightarrow> goerr + up_response" where
  "post_json env c path m =
     (case ue_marshal env m of
        Inl e \<Rightarrow> Inl e
      | Inr payload \<Rightarrow>
          (case ue_newreq env (cl_base c) path of
             Some e \<Rightarrow> Inl e
           | None \<Rightarrow>
               (case ue_do env \<lparr>or_path = path, or_hdrs = auth_headers c, or_payload = payload\<rparr> of
                  Inl e \<Rightarrow> Inl e
                | Inr resp \<Rightarrow>
                    (if ur_code resp \<noteq> 200 then Inl (new_err (''openai upstream: status '' @ itoa (ur_code resp)))
                     else Inr resp))))"

definition controlled :: "string list" where
  "controlled = [''model'', ''messages'', ''stream'', ''stream_options'']"

text \<open>One caller option: it is added unless its key is one the client sets itself.\<close>

definition add_option :: "string list \<Rightarrow> string \<times> json \<Rightarrow> (string \<rightharpoonup> json) \<Rightarrow> string \<rightharpoonup> json" where
  "add_option own kv m = (if fst kv \<in> set own then m else m(fst kv \<mapsto> snd kv))"

definition chat_body :: "string \<Rightarrow> jmap list \<Rightarrow> jmap \<Rightarrow> string \<rightharpoonup> json" where
  "chat_body model messages options =
     fold (add_option controlled) options
       [''model'' \<mapsto> JString model, ''messages'' \<mapsto> JArray (map JObject messages), ''stream'' \<mapsto> JBool True,
        ''stream_options'' \<mapsto> JObject [(''include_usage'', JBool True)]]"

definition openChatStream ::
  "upstream_env \<Rightarrow> Client \<Rightarrow> string \<Rightarrow> jmap list \<Rightarrow> jmap \<Rightarrow> goerr + up_response" where
  "openChatStream env c model messages options =
     post_json env c [''v1'', ''chat'', ''completions''] (chat_body model messages options)"

definition chatCompletion ::
  "upstream_env \<Rightarrow> chunk_dec \<Rightarrow> (nat \<Rightarrow> ctx_err option) \<Rightarrow> Client \<Rightarrow> string \<Rightarrow> jmap list \<Rightarrow> jmap \<Rightarrow> bool
     \<Rightarrow> stream_result \<times> int list" where
  "chatCompletion env dec cx c model messages options onTokens =
     (case openChatStream env c model messages options of
        Inl e \<Rightarrow> (([], 0, Some e), [])
      | Inr resp \<Rightarrow> parseSSEStream dec cx (ur_body resp) onTokens)"

record GenerateRequest =
  gr_Model :: string
  gr_Prompt :: string
  gr_Options :: jmap

definition user_message :: "string \<Rightarrow> jmap" where
  "user_message p = [(''role'', JString ''user''), (''content'', JString p)]"

definition system_message :: "string \<Rightarrow> jmap" where
  "system_message p = [(''role'', JString ''system''), (''content'', JString p)]"

text \<open>\<^verbatim>\<open>Client.Generate\<close> of the Job path; it builds its body on its own.\<close>

definition Client_Generate ::
  "upstream_env \<Rightarrow> chunk_dec \<Rightarrow> (nat \<Rightarrow> ctx_err option) \<Rightarrow> Client \<Rightarrow> GenerateRequest \<Rightarrow> bool \<Rightarrow> stream_result \<times> int list" where
  "Client_Generate env dec cx c req onTokens =
     (let base = [''model'' \<mapsto> JString (gr_Model req), ''messages'' \<mapsto> JArray [JObject (user_message (gr_Prompt req))],
                  ''stream'' \<mapsto> JBool True, ''stream_options'' \<mapsto> JObject [(''include_usage'', JBool True)]]
      in case post_json env c [''v1'', ''chat'', ''completions''] (fold (add_option controlled) (gr_Options req) base) of
           Inl e \<Rightarrow> (([], 0, Some e), [])
         | Inr resp \<Rightarrow> parseSSEStream dec cx (ur_body resp) onTokens)"

section \<open>Embeddings\<close>

record EmbedRequest =
  em_Model :: string
  em_Input :: "string list"

type_synonym 'f embedding = "'f list option"  \<comment> \<open>\<^verbatim>\<open>[]float64\<close>, with nil as \<open>None\<close>\<close>

record 'f EmbedResponse =
  ep_Model :: string
  ep_Embeddings :: "'f embedding list"

record 'f openaiEmbedResponse =
  oe_Model :: string
  oe_Data :: "('f embedding \<times> int) list"

text \<open>What \<^verbatim>\<open>encoding/json\<close> makes of the bytes: the request, a string array, a string, and the upstream's answer.\<close>

record 'f embed_codec =
  ec_request :: "string \<Rightarrow> goerr + (string \<times> string)"
  ec_strings :: "string \<Rightarrow> string list option"
  ec_string :: "string \<Rightarrow> string option"
  ec_response :: "reader \<Rightarrow> goerr + 'f openaiEmbedResponse"

definition decodeEmbedInput :: "'f embed_codec \<Rightarrow> string \<Rightarrow> goerr + string list" where
  "decodeEmbedInput ec raw =
     (if raw = [] then Inl (new_err ''embed request: missing required field \"input\"'')
      else case ec_strings ec raw of
        Some multi \<Rightarrow> Inr multi
      | None \<Rightarrow>
          (case ec_string ec raw of
             Some single \<Rightarrow> Inr [single]
           | None \<Rightarrow> Inl (new_err ''embed request: \"input\" must be a string or an array of strings'')))"

definition DecodeEmbedRequest :: "'f embed_codec \<Rightarrow> string \<Rightarrow> goerr + EmbedRequest" where
  "DecodeEmbedRequest ec b =
     (case ec_request ec b of
        Inl e \<Rightarrow> Inl (wrap_err ''decode embed request: '' e)
      | Inr (model, rawInput) \<Rightarrow>
          (case decodeEmbedInput ec rawInput of
             Inl e \<Rightarrow> Inl e
           | Inr input \<Rightarrow> Inr \<lparr>em_Model = model, em_Input = input\<rparr>))"

definition embed_body :: "EmbedRequest \<Rightarrow> string \<rightharpoonup> json" where
  "embed_body req = [''model'' \<mapsto> JString (em_Model req), ''input'' \<mapsto> JArray (map JString (em_Input req))]"

text \<open>Every vector goes to the place its index names; the first index outside the slice is an error.\<close>

fun place :: "('f embedding \<times> int) list \<Rightarrow> 'f embedding list \<Rightarrow> int + 'f embedding list" where
  "place [] es = Inr es"
| "place ((e, i) # ds) es =
     (if i < 0 \<or> int (length es) \<le> i then Inl i else place ds (es[nat i := e]))"

definition Embed ::
  "upstream_env \<Rightarrow> 'f embed_codec \<Rightarrow> Client \<Rightarrow> EmbedRequest \<Rightarrow> goerr + 'f EmbedResponse" where
  "Embed env ec c req =
     (case post_json env c [''v1'', ''embeddings''] (embed_body req) of
        Inl e \<Rightarrow> Inl e
      | Inr resp \<Rightarrow>
          (case ec_response ec (ur_body resp) of
             Inl e \<Rightarrow> Inl (wrap_err ''decode embeddings response: '' e)
           | Inr oai \<Rightarrow>
               (case place (oe_Data oai) (replicate (length (oe_Data oai)) None) of
                  Inl i \<Rightarrow> Inl (new_err (''openai upstream: embedding index '' @ itoa i @ '' out of range for '' @
                             itoa (int (length (oe_Data oai))) @ '' inputs''))
                | Inr es \<Rightarrow> Inr \<lparr>ep_Model = (if oe_Model oai = [] then em_Model req else oe_Model oai), ep_Embeddings = es\<rparr>)))"

section \<open>The handler\<close>

text \<open>The values encoded into a body; \<open>VChunk\<close> has model, response, done and eval count (left out at 0).\<close>

datatype 'f out_val =
    VChunk string string bool int
  | VErrorMsg string
  | VEmbed "'f EmbedResponse"

record 'f hw =
  hw_resp :: response
  hw_vals :: "'f out_val list"

definition hw_init :: "'f hw" where
  "hw_init = \<lparr>hw_resp = empty_response, hw_vals = []\<rparr>"

text \<open>\<^verbatim>\<open>json.NewEncoder(w).Encode(v)\<close>.\<close>

definition encode :: "'f out_val \<Rightarrow> 'f hw \<Rightarrow> 'f hw" where
  "encode v w = w\<lparr>hw_resp := write_status 200 (hw_resp w), hw_vals := hw_vals w @ [v]\<rparr>"

definition set_hdr :: "string \<Rightarrow> string \<Rightarrow> 'f hw \<Rightarrow> 'f hw" where
  "set_hdr k v w = w\<lparr>hw_resp := set_header k v (hw_resp w)\<rparr>"

definition commit :: "int \<Rightarrow> 'f hw \<Rightarrow> 'f hw" where
  "commit code w = w\<lparr>hw_resp := write_status code (hw_resp w)\<rparr>"

definition writeJSONError :: "int \<Rightarrow> string \<Rightarrow> 'f hw \<Rightarrow> 'f hw" where
  "writeJSONError code msg w =
     encode (VErrorMsg msg) (commit code (set_hdr ''Content-Type'' ''application/json'' w))"

definition writeUpstreamErrorOrFallback :: "goerr \<Rightarrow> 'f hw \<Rightarrow> 'f hw" where
  "writeUpstreamErrorOrFallback e w =
     (case WriteUpstreamError e (hw_resp w) of
        (True, r) \<Rightarrow> w\<lparr>hw_resp := r\<rparr>
      | (False, _) \<Rightarrow> writeJSONError 502 (e_text e) w)"

definition isEmptyFieldValue :: "json \<Rightarrow> bool" where
  "isEmptyFieldValue v = (case v of JNull \<Rightarrow> True | JArray xs \<Rightarrow> xs = [] | JString s \<Rightarrow> s = [] | _ \<Rightarrow> False)"

fun unsupportedMessageField :: "jmap list \<Rightarrow> string option" where
  "unsupportedMessageField [] = None"
| "unsupportedMessageField (msg # msgs) =
     (case map_of msg ''images'' of
        Some images \<Rightarrow> (if \<not> isEmptyFieldValue images then Some ''images'' else unsupportedMessageField msgs)
      | None \<Rightarrow> unsupportedMessageField msgs)"

record ollamaChatRequest =
  oq_Model :: string
  oq_Prompt :: string
  oq_Messages :: "jmap list"
  oq_System :: string
  oq_Template :: string
  oq_Context :: string
  oq_Stream :: "bool option"
  oq_Options :: jmap

definition serveChatBuffered ::
  "upstream_env \<Rightarrow> chunk_dec \<Rightarrow> (nat \<Rightarrow> ctx_err option) \<Rightarrow> Client \<Rightarrow> string \<Rightarrow> jmap list \<Rightarrow> jmap \<Rightarrow> 'f hw \<Rightarrow> 'f hw" where
  "serveChatBuffered env dec cx c model messages options w =
     (case fst (chatCompletion env dec cx c model messages options False) of
        (_, _, Some e) \<Rightarrow> writeUpstreamErrorOrFallback e w
      | (txt, n, None) \<Rightarrow>
          encode (VChunk model txt True n) (set_hdr ''Content-Type'' ''application/json'' w))"

text \<open>
  The writes of the streaming handler after the upstream accepted. A writer that panics stops them, and
  the handler's \<^verbatim>\<open>recover\<close> keeps the panic from its caller; \<open>pn\<close> is the write at which that happens.
\<close>

datatype 'f write_op = WCommit | WFlush | WVal "'f out_val"

definition perform :: "'f write_op \<Rightarrow> 'f hw \<Rightarrow> 'f hw" where
  "perform p w =
     (case p of
        WCommit \<Rightarrow> commit 200 w
      | WFlush \<Rightarrow> w
      | WVal v \<Rightarrow> encode v w)"

definition stream_ops :: "string \<Rightarrow> stream_result \<times> (string \<times> int) list \<Rightarrow> 'f write_op list" where
  "stream_ops model parsed =
     (case parsed of
        ((_, n, er), calls) \<Rightarrow>
          [WCommit, WFlush]
          @ concat (map (\<lambda>(d, _). [WVal (VChunk model d False 0), WFlush]) calls)
          @ (case er of
               Some e \<Rightarrow> [WVal (VErrorMsg (''openai: '' @ e_text e)), WFlush]
             | None \<Rightarrow> [WVal (VChunk model [] True n), WFlush]))"

definition serveChatStreaming ::
  "upstream_env \<Rightarrow> chunk_dec \<Rightarrow> (nat \<Rightarrow> ctx_err option) \<Rightarrow> bool \<Rightarrow> nat option \<Rightarrow> Client \<Rightarrow> string \<Rightarrow> jmap list \<Rightarrow> jmap
     \<Rightarrow> 'f hw \<Rightarrow> 'f hw" where
  "serveChatStreaming env dec cx flusher pn c model messages options w =
     (if \<not> flusher then writeJSONError 500 ''streaming unsupported'' w
      else case openChatStream env c model messages options of
        Inl e \<Rightarrow> writeUpstreamErrorOrFallback e w
      | Inr resp \<Rightarrow>
          (let w1 = set_hdr ''Content-Type'' ''application/x-ndjson'' w;
               ops = stream_ops model (parseSSEStreamChunks dec cx (ur_body resp))
           in fold perform (case pn of None \<Rightarrow> ops | Some n \<Rightarrow> take n ops) w1))"

definition chat_messages :: "ollamaChatRequest \<Rightarrow> jmap list" where
  "chat_messages req =
     (if oq_Messages req = [] then
        (let ms = [user_message (oq_Prompt req)]
         in if oq_System req \<noteq> [] then system_message (oq_System req) # ms else ms)
      else oq_Messages req)"

definition serveChat ::
  "upstream_env \<Rightarrow> (string \<Rightarrow> goerr + ollamaChatRequest) \<Rightarrow> chunk_dec \<Rightarrow> (nat \<Rightarrow> ctx_err option) \<Rightarrow> bool \<Rightarrow> nat option
     \<Rightarrow> Client \<Rightarrow> string \<Rightarrow> 'f hw \<Rightarrow> 'f hw" where
  "serveChat env dreq dec cx flusher pn c b w =
     (case dreq b of
        Inl e \<Rightarrow> writeJSONError 400 (''decode request: '' @ e_text e) w
      | Inr req \<Rightarrow>
          (case unsupportedMessageField (oq_Messages req) of
             Some field \<Rightarrow> writeJSONError 400 (''unsupported field: '' @ field) w
           | None \<Rightarrow>
               (let stream = (case oq_Stream req of None \<Rightarrow> True | Some s \<Rightarrow> s)
                in if \<not> stream then serveChatBuffered env dec cx c (oq_Model req) (chat_messages req) (oq_Options req) w
                   else serveChatStreaming env dec cx flusher pn c (oq_Model req) (chat_messages req) (oq_Options req) w)))"

definition serveEmbed :: "upstream_env \<Rightarrow> 'f embed_codec \<Rightarrow> Client \<Rightarrow> string \<Rightarrow> 'f hw \<Rightarrow> 'f hw" where
  "serveEmbed env ec c b w =
     (case DecodeEmbedRequest ec b of
        Inl e \<Rightarrow> writeJSONError 400 (e_text e) w
      | Inr req \<Rightarrow>
          (case Embed env ec c req of
             Inl e \<Rightarrow> writeUpstreamErrorOrFallback e w
           | Inr resp \<Rightarrow>
               encode (VEmbed resp) (set_hdr ''Content-Type'' ''application/json'' w)))"

definition ServeHTTP ::
  "upstream_env \<Rightarrow> (string \<Rightarrow> goerr + ollamaChatRequest) \<Rightarrow> chunk_dec \<Rightarrow> 'f embed_codec \<Rightarrow> (nat \<Rightarrow> ctx_err option) \<Rightarrow> bool
     \<Rightarrow> nat option \<Rightarrow> Client \<Rightarrow> string \<Rightarrow> string \<Rightarrow> 'f hw \<Rightarrow> 'f hw" where
  "ServeHTTP env dreq dec ec cx flusher pn c path b w =
     (if path = ''/api/generate'' \<or> path = ''/api/chat'' then serveChat env dreq dec cx flusher pn c b w
      else if path = ''/api/embed'' then serveEmbed env ec c b w
      else writeJSONError 404 ''not found: openai backend only supports /api/generate, /api/chat, /api/embed'' w)"

section \<open>The translated request\<close>

text \<open>The client's options reach the upstream, but never replace a field the translator sets.\<close>

lemma fold_add_option:
  assumes "distinct (map fst options)"
  shows "fold (add_option own) options m k =
     (if k \<in> set own then m k else case map_of options k of Some v \<Rightarrow> Some v | None \<Rightarrow> m k)"
  using assms
proof (induction options arbitrary: m)
  case (Cons kv options)
  obtain k' v where kv: "kv = (k', v)" by fastforce
  from Cons have "map_of options k' = None" by (simp add: kv map_of_eq_None_iff)
  with Cons.IH[of "add_option own kv m"] Cons.prems show ?case
    by (cases "k = k'") (auto simp: kv add_option_def split: option.splits)
qed simp

lemma chat_body_fields:
  assumes "distinct (map fst options)"
  shows "chat_body model messages options ''model'' = Some (JString model)"
    and "chat_body model messages options ''messages'' = Some (JArray (map JObject messages))"
    and "chat_body model messages options ''stream'' = Some (JBool True)"
    and "k \<notin> set controlled \<Longrightarrow> chat_body model messages options k = map_of options k"
  using assms by (simp_all add: chat_body_def fold_add_option controlled_def split: option.split)

text \<open>\<^verbatim>\<open>Client.Generate\<close> is \<^verbatim>\<open>chatCompletion\<close> of the prompt as a single user message.\<close>

lemma Generate_is_chatCompletion:
  "Client_Generate env dec cx c req onTokens =
     chatCompletion env dec cx c (gr_Model req) [user_message (gr_Prompt req)] (gr_Options req) onTokens"
  by (simp add: Client_Generate_def chatCompletion_def openChatStream_def chat_body_def)

section \<open>Streaming and buffering\<close>

lemma encode_simps [simp]:
  "hw_vals (encode v w) = hw_vals w @ [v]" "hw_resp (encode v w) = write_status 200 (hw_resp w)"
  by (simp_all add: encode_def)

lemmas hw_defs = hw_init_def set_hdr_def commit_def

lemma upstream_error_response:
  "status (hw_resp (writeUpstreamErrorOrFallback e (hw_init :: 'f hw))) \<in> {Some 502, Some 503}"
  "hw_vals (writeUpstreamErrorOrFallback e (hw_init :: 'f hw)) \<in> {[], [VErrorMsg (e_text e)]}"
  by (auto simp: writeUpstreamErrorOrFallback_def WriteUpstreamError_def writeJSONError_def hw_defs response_defs)

text \<open>The values a list of writes encodes.\<close>

definition written :: "'f write_op list \<Rightarrow> 'f out_val list" where
  "written ops = concat (map (\<lambda>p. case p of WVal v \<Rightarrow> [v] | _ \<Rightarrow> []) ops)"

lemma written_simps [simp]:
  "written [] = []" "written (WVal v # ops) = v # written ops" "written (WFlush # ops) = written ops"
  "written (WCommit # ops) = written ops" "written (ops @ ops') = written ops @ written ops'"
  by (simp_all add: written_def)

lemma perform_vals: "hw_vals (fold perform ops w) = hw_vals w @ written ops"
proof (induction ops arbitrary: w)
  case (Cons p ops)
  then show ?case by (cases p) (simp_all add: perform_def commit_def)
qed simp

lemma perform_status: "status (hw_resp w) = Some s \<Longrightarrow> status (hw_resp (fold perform ops w)) = Some s"
proof (induction ops arbitrary: w)
  case (Cons p ops)
  then have "status (hw_resp (perform p w)) = Some s" by (simp add: perform_def commit_def write_status_def split: write_op.split)
  with Cons.IH show ?case by simp
qed simp

lemma written_calls [simp]:
  "written (concat (map (\<lambda>(d, _). [WVal (VChunk model d False 0), WFlush]) calls)) =
     map (\<lambda>d. VChunk model d False 0) (map fst calls)"
  by (induction calls) auto

lemma stream_vals:
  "written (stream_ops model ((t, n, er), calls)) =
     map (\<lambda>d. VChunk model d False 0) (map fst calls)
       @ [case er of Some e \<Rightarrow> VErrorMsg (''openai: '' @ e_text e) | None \<Rightarrow> VChunk model [] True n]"
  by (simp add: stream_ops_def split: option.split)

lemma stream_ops_commit: "stream_ops model r = WCommit # tl (stream_ops model r)"
  by (simp add: stream_ops_def split: prod.split)

lemma stream_response:
  assumes "openChatStream env c model messages options = Inr resp"
    and "parseSSEStreamChunks dec cx (ur_body resp) = ((t, n, er), calls)"
  shows "hw_vals (serveChatStreaming env dec cx True None c model messages options (hw_init :: 'f hw)) =
      map (\<lambda>d. VChunk model d False 0) (map fst calls)
       @ [case er of Some e \<Rightarrow> VErrorMsg (''openai: '' @ e_text e) | None \<Rightarrow> VChunk model [] True n]"
    and "status (hw_resp (serveChatStreaming env dec cx True None c model messages options (hw_init :: 'f hw))) = Some 200"
proof -
  let ?w = "set_hdr ''Content-Type'' ''application/x-ndjson'' (hw_init :: 'f hw)"
  have ser: "serveChatStreaming env dec cx True None c model messages options (hw_init :: 'f hw) =
      fold perform (stream_ops model ((t, n, er), calls)) ?w"
    using assms by (simp add: serveChatStreaming_def)
  show "hw_vals (serveChatStreaming env dec cx True None c model messages options (hw_init :: 'f hw)) =
      map (\<lambda>d. VChunk model d False 0) (map fst calls)
       @ [case er of Some e \<Rightarrow> VErrorMsg (''openai: '' @ e_text e) | None \<Rightarrow> VChunk model [] True n]"
    unfolding ser perform_vals stream_vals by (simp add: hw_defs)
  have "status (hw_resp (perform WCommit ?w)) = Some 200" by (simp add: perform_def hw_defs response_defs)
  then show "status (hw_resp (serveChatStreaming env dec cx True None c model messages options (hw_init :: 'f hw))) = Some 200"
    unfolding ser by (subst stream_ops_commit) (simp add: perform_status)
qed

lemma buffered_response:
  assumes "openChatStream env c model messages options = Inr resp"
    and "parseSSEStreamChunks dec cx (ur_body resp) = ((t, n, er), calls)"
  shows "serveChatBuffered env dec cx c model messages options (hw_init :: 'f hw) =
     (case er of
        Some e \<Rightarrow> writeUpstreamErrorOrFallback e hw_init
      | None \<Rightarrow> encode (VChunk model t True n)
          (set_hdr ''Content-Type'' ''application/json'' hw_init))"
  using assms by (simp add: serveChatBuffered_def chatCompletion_def parseSSEStream_def split: option.split)

text \<open>
  C32. Streaming and buffering deliver the same answer. For every upstream, context and request: when the
  upstream cannot be opened, both handlers write the same single error, 503 or 502, and no text. When it
  can, the streaming handler commits 200 and writes one line per non-empty piece of text followed by
  exactly one last line; the last line says done exactly when the buffered handler answers 200, and then
  the pieces concatenate to the buffered text, the counts agree, and the upstream did send its
  \<^verbatim>\<open>[DONE]\<close>. Otherwise the last line is an error and the buffered handler answers an error without text.
\<close>

theorem streamed_equals_buffered:
  "let S = serveChatStreaming env dec cx True None c model messages options (hw_init :: 'f hw);
       B = serveChatBuffered env dec cx c model messages options (hw_init :: 'f hw)
   in case openChatStream env c model messages options of
        Inl e \<Rightarrow> S = B \<and> status (hw_resp B) \<in> {Some 502, Some 503} \<and> hw_vals B \<in> {[], [VErrorMsg (e_text e)]}
      | Inr resp \<Rightarrow> status (hw_resp S) = Some 200 \<and>
          (\<exists>ds final. hw_vals S = map (\<lambda>d. VChunk model d False 0) ds @ [final] \<and> [] \<notin> set ds \<and>
            ((\<exists>n. final = VChunk model [] True n \<and> status (hw_resp B) = Some 200 \<and>
                hw_vals B = [VChunk model (concat ds) True n] \<and> ''[DONE]'' \<in> payloads (fst (scan_lines maxTokenSize (ur_body resp))))
             \<or> (\<exists>e :: goerr. final = VErrorMsg (''openai: '' @ e_text e) \<and> status (hw_resp B) \<in> {Some 502, Some 503} \<and>
                hw_vals B \<in> {[], [VErrorMsg (e_text e)]})))"
proof (cases "openChatStream env c model messages options")
  case (Inl e)
  then have "serveChatStreaming env dec cx True None c model messages options (hw_init :: 'f hw) = writeUpstreamErrorOrFallback e hw_init"
    "serveChatBuffered env dec cx c model messages options (hw_init :: 'f hw) = writeUpstreamErrorOrFallback e hw_init"
    by (simp_all add: serveChatStreaming_def serveChatBuffered_def chatCompletion_def)
  with Inl upstream_error_response[of e, where 'f = 'f] show ?thesis by (simp only: Let_def sum.case simp_thms)
next
  case (Inr resp)
  obtain t n er calls where p: "parseSSEStreamChunks dec cx (ur_body resp) = ((t, n, er), calls)" by (metis surj_pair)
  note S = stream_response[OF Inr p, where 'f = 'f] and B = buffered_response[OF Inr p, where 'f = 'f]
  have ne: "[] \<notin> set (map fst calls)" using sse_client.nonempty[OF p] by fastforce
  show ?thesis
  proof (cases er)
    case None
    then have t: "t = concat (map fst calls)" "''[DONE]'' \<in> payloads (fst (scan_lines maxTokenSize (ur_body resp)))"
      using sse_client.success p by blast+
    have "status (hw_resp (serveChatBuffered env dec cx c model messages options (hw_init :: 'f hw))) = Some 200"
      "hw_vals (serveChatBuffered env dec cx c model messages options (hw_init :: 'f hw)) = [VChunk model t True n]"
      unfolding B None option.case by (simp_all add: hw_defs response_defs)
    then show ?thesis unfolding Let_def Inr sum.case
      using S ne t None by (intro conjI exI[of _ "map fst calls"] exI[of _ "VChunk model [] True n"]) auto
  next
    case (Some e)
    then show ?thesis unfolding Let_def Inr sum.case
      using S ne B upstream_error_response[of e, where 'f = 'f]
      by (intro conjI exI[of _ "map fst calls"] exI[of _ "VErrorMsg (''openai: '' @ e_text e)"] disjI2 exI[of _ e]) simp_all
  qed
qed

section \<open>The order of embeddings\<close>

lemma place_range:
  "place ds es = Inl i \<Longrightarrow> (i < 0 \<or> int (length es) \<le> i) \<and> i \<in> snd ` set ds"
  by (induction ds es rule: place.induct) (auto split: if_splits)

lemma place_in_range:
  "\<forall>d\<in>set ds. 0 \<le> snd d \<and> snd d < int (length es) \<Longrightarrow> \<exists>es'. place ds es = Inr es' \<and> length es' = length es"
  by (induction ds es rule: place.induct) auto

lemma place_out_of_range:
  "\<exists>d\<in>set ds. snd d < 0 \<or> int (length es) \<le> snd d \<Longrightarrow> \<exists>i. place ds es = Inl i"
  by (induction ds es rule: place.induct) auto

lemma place_nth:
  assumes "place ds es = Inr es'" and "distinct (map snd ds)"
  shows "length es' = length es" and "(e, i) \<in> set ds \<Longrightarrow> es' ! nat i = e"
    and "int k \<notin> snd ` set ds \<Longrightarrow> k < length es \<Longrightarrow> es' ! k = es ! k"
proof -
  have all: "length es' = length es \<and> (\<forall>(e, i)\<in>set ds. es' ! nat i = e) \<and>
     (\<forall>k. int k \<notin> snd ` set ds \<longrightarrow> k < length es \<longrightarrow> es' ! k = es ! k)"
    using assms
  proof (induction ds es rule: place.induct)
    case (2 e i ds es)
    then have i: "0 \<le> i" "i < int (length es)" "place ds (es[nat i := e]) = Inr es'" by (auto split: if_splits)
    with 2 have ih: "length es' = length es" "\<forall>(e, i)\<in>set ds. es' ! nat i = e"
      "\<forall>k. int k \<notin> snd ` set ds \<longrightarrow> k < length es \<longrightarrow> es' ! k = es[nat i := e] ! k"
      by auto
    have "es' ! nat i = e" using ih(3)[rule_format, of "nat i"] i 2(3) by (auto simp: image_iff)
    moreover have "es' ! k = es ! k" if "int k \<notin> snd ` set ((e, i) # ds)" "k < length es" for k
      using ih(3)[rule_format, of k] that i(1) by (auto simp: nth_list_update)
    ultimately show ?case using ih by auto
  qed auto
  show "length es' = length es" and "(e, i) \<in> set ds \<Longrightarrow> es' ! nat i = e"
    and "int k \<notin> snd ` set ds \<Longrightarrow> k < length es \<Longrightarrow> es' ! k = es ! k"
    using all by auto
qed

lemma place_permuted:
  assumes "mset ds = mset (zip vs (map int [0..<length vs]))"
  shows "place ds (replicate (length ds) None) = Inr vs"
proof -
  let ?z = "zip vs (map int [0..<length vs])"
  have len: "length ds = length vs" using arg_cong[OF assms, of size] by simp
  have "map snd ?z = map int [0..<length vs]" by simp
  then have "mset (map snd ds) = mset (map int [0..<length vs])" using assms by (metis mset_map)
  moreover have "distinct (map int [0..<length vs])" by (simp add: distinct_map)
  ultimately have dist: "distinct (map snd ds)" using mset_eq_imp_distinct_iff by blast
  have set: "set ds = set ?z" using assms by (metis set_mset_mset)
  then have "\<forall>d\<in>set ds. 0 \<le> snd d \<and> snd d < int (length (replicate (length ds) None))"
    by (auto simp: len set_zip)
  then obtain es' where es': "place ds (replicate (length ds) None) = Inr es'" "length es' = length vs"
    using place_in_range[of ds "replicate (length ds) None"] len by auto
  have "es' ! k = vs ! k" if "k < length vs" for k
  proof -
    have "(vs ! k, int k) \<in> set ds" using that unfolding set by (force simp: set_zip)
    then show ?thesis using place_nth(2)[OF es'(1) dist] by fastforce
  qed
  then show ?thesis using es' by (simp add: nth_equalityI)
qed

text \<open>
  C33. The order of embeddings. When the upstream answers with one vector per index, in any order at all,
  the client gets the vectors in index order, which is the order of its inputs; an index outside the
  answer is an error and never a wrong vector.
\<close>

theorem embed_in_input_order:
  assumes "post_json env c [''v1'', ''embeddings''] (embed_body req) = Inr resp"
    and "ec_response ec (ur_body resp) = Inr \<lparr>oe_Model = m, oe_Data = ds\<rparr>"
  shows "(mset ds = mset (zip vs (map int [0..<length vs])) \<longrightarrow>
      Embed env ec c req = Inr \<lparr>ep_Model = (if m = [] then em_Model req else m), ep_Embeddings = vs\<rparr>) \<and>
    ((\<exists>d\<in>set ds. snd d < 0 \<or> int (length ds) \<le> snd d) \<longleftrightarrow> (\<exists>e. Embed env ec c req = Inl e))"
proof -
  let ?r = "place ds (replicate (length ds) None)"
  have "(\<exists>e. Embed env ec c req = Inl e) \<longleftrightarrow> (\<exists>i. ?r = Inl i)"
    using assms by (simp add: Embed_def split: sum.split)
  also have "\<dots> \<longleftrightarrow> (\<exists>d\<in>set ds. snd d < 0 \<or> int (length ds) \<le> snd d)"
    using place_range[of ds "replicate (length ds) None"] place_out_of_range[of ds "replicate (length ds) None"] by fastforce
  finally show ?thesis using assms place_permuted[of ds vs] by (auto simp: Embed_def)
qed

definition embed_env :: upstream_env where
  "embed_env = \<lparr>ue_marshal = \<lambda>_. Inr ''{}'', ue_newreq = \<lambda>_ _. None, ue_do = \<lambda>_. Inr \<lparr>ur_code = 200, ur_body = ([], None)\<rparr>\<rparr>"

definition demo_codec :: "nat embed_codec" where
  "demo_codec = \<lparr>ec_request = \<lambda>b. Inr (''m'', b), ec_strings = \<lambda>_. None, ec_string = Some,
     ec_response = \<lambda>_. Inr \<lparr>oe_Model = [], oe_Data = [(Some [4], 1), (Some [3], 0)]\<rparr>\<rparr>"

theorem embed_in_input_order_witness:
  "Embed embed_env demo_codec (client_New ''http://up'' []) \<lparr>em_Model = ''m'', em_Input = [''a'', ''b'']\<rparr>
     = Inr \<lparr>ep_Model = ''m'', ep_Embeddings = [Some [3], Some [4]]\<rparr>"
proof -
  have "post_json embed_env (client_New ''http://up'' []) [''v1'', ''embeddings''] (embed_body \<lparr>em_Model = ''m'', em_Input = [''a'', ''b'']\<rparr>)
      = Inr \<lparr>ur_code = 200, ur_body = ([], None)\<rparr>"
    by (simp add: post_json_def embed_env_def)
  from embed_in_input_order[OF this, of demo_codec "[]" "[(Some [4], 1), (Some [3], 0)]" "[Some [3], Some [4]]"]
  show ?thesis by (simp add: demo_codec_def upt_rec add_mset_commute)
qed

text \<open>Nothing compares the number of vectors with the number of inputs, and a repeated index leaves a gap.\<close>

theorem embed_count_unchecked:
  "\<exists>env ec c req (resp :: nat EmbedResponse). length (em_Input req) = 3 \<and> Embed env ec c req = Inr resp \<and>
     ep_Embeddings resp = [None, Some [5]]"
proof -
  let ?ec = "demo_codec\<lparr>ec_response := \<lambda>_. Inr \<lparr>oe_Model = [], oe_Data = [(Some [4], 1), (Some [5], 1)]\<rparr>\<rparr>"
  let ?req = "\<lparr>em_Model = ''m'', em_Input = [''a'', ''b'', ''c'']\<rparr>"
  have "Embed embed_env ?ec (client_New ''http://up'' []) ?req
      = Inr \<lparr>ep_Model = ''m'', ep_Embeddings = [None, Some [5]]\<rparr>"
    by (simp add: Embed_def post_json_def embed_env_def demo_codec_def)
  then show ?thesis by (intro exI[of _ embed_env] exI[of _ ?ec] exI[of _ "client_New ''http://up'' []"] exI[of _ ?req]) simp
qed

end
