(* ===== verification/Ollama_Client.thy ===== *)
theory Ollama_Client
  imports OpenAI_Handler
begin

text \<open>
  \<^verbatim>\<open>internal/ollama/client.go\<close>: the client of the Ollama backend. The body of \<^verbatim>\<open>Generate\<close> is newline-delimited
  JSON; \<^verbatim>\<open>json.Unmarshal\<close> of a line is the argument \<open>dec\<close>. Building, marshalling and sending a request are
  the fields of the environment of the OpenAI client, with the path as a single segment.
\<close>

section \<open>Generate\<close>

definition ndjsonLimit :: nat where "ndjsonLimit = 1024 * 1024"

record genChunk =
  gc_Response :: string
  gc_Done :: bool
  gc_EvalCount :: int
  gc_Error :: string

record gen_st =
  g_sb :: string
  g_tokens :: int
  g_calls :: "(string \<times> int) list"   \<comment> \<open>the pieces taken, with the count reported for each\<close>

definition gen_init :: gen_st where
  "gen_init = \<lparr>g_sb = [], g_tokens = 0, g_calls = []\<rparr>"

definition take_piece :: "string \<Rightarrow> gen_st \<Rightarrow> gen_st" where
  "take_piece r st =
     (if r = [] then st
      else st\<lparr>g_sb := g_sb st @ r, g_tokens := g_tokens st + 1, g_calls := g_calls st @ [(r, g_tokens st + 1)]\<rparr>)"

type_synonym gen_dec = "string \<Rightarrow> goerr + genChunk"

fun gen_loop :: "gen_dec \<Rightarrow> string list \<Rightarrow> gen_st \<Rightarrow> stream_result option \<times> gen_st" where
  "gen_loop dec [] st = (None, st)"
| "gen_loop dec (l # ls) st =
     (let line = TrimSpace l in
      if line = [] then gen_loop dec ls st
      else case dec line of
        Inl e \<Rightarrow> (Some ([], g_tokens st, Some (wrap_err ''decode stream chunk: '' e)), st)
      | Inr chunk \<Rightarrow>
          (if gc_Error chunk \<noteq> [] then (Some ([], g_tokens st, Some (new_err (''ollama: '' @ gc_Error chunk))), st)
           else let st' = take_piece (gc_Response chunk) st in
             if gc_Done chunk
             then (Some (g_sb st', if 0 < gc_EvalCount chunk then gc_EvalCount chunk else g_tokens st', None), st')
             else gen_loop dec ls st'))"

text \<open>After the loop: \<open>c\<close> is what \<^verbatim>\<open>ctx.Err()\<close> returns there.\<close>

definition gen_tail :: "ctx_err option \<Rightarrow> goerr option \<Rightarrow> gen_st \<Rightarrow> stream_result" where
  "gen_tail c scErr st =
     ([], g_tokens st,
      Some (case c of
              Some x \<Rightarrow> ctx_error x
            | None \<Rightarrow> (case scErr of Some e \<Rightarrow> e | None \<Rightarrow> new_err ''ollama stream ended without done'')))"

definition parse_generate :: "gen_dec \<Rightarrow> ctx_err option \<Rightarrow> reader \<Rightarrow> stream_result \<times> (string \<times> int) list" where
  "parse_generate dec c rd =
     (let (lines, scErr) = scan_lines ndjsonLimit rd; (r, st) = gen_loop dec lines gen_init
      in (case r of Some v \<Rightarrow> v | None \<Rightarrow> gen_tail c scErr st, g_calls st))"

definition generate_body :: "GenerateRequest \<Rightarrow> string \<rightharpoonup> json" where
  "generate_body req =
     fold (add_option [''model'', ''prompt'', ''stream'']) (gr_Options req)
       [''model'' \<mapsto> JString (gr_Model req), ''prompt'' \<mapsto> JString (gr_Prompt req), ''stream'' \<mapsto> JBool True]"

text \<open>Build and send; \<open>what\<close> names the call in the error of a status other than 200.\<close>

definition ollama_send :: "upstream_env \<Rightarrow> string \<Rightarrow> string \<Rightarrow> string \<Rightarrow> header \<Rightarrow> string \<Rightarrow> goerr + reader" where
  "ollama_send env u path what h payload =
     (case ue_newreq env u [path] of
        Some e \<Rightarrow> Inl e
      | None \<Rightarrow>
          (case ue_do env \<lparr>or_path = [path], or_hdrs = h, or_payload = payload\<rparr> of
             Inl e \<Rightarrow> Inl e
           | Inr resp \<Rightarrow>
               (if ur_code resp \<noteq> 200 then Inl (new_err (what @ '': status '' @ itoa (ur_code resp)))
                else Inr (ur_body resp))))"

definition json_header :: header where
  "json_header = Map.empty(''Content-Type'' \<mapsto> ''application/json'')"

definition ollama_Generate ::
  "upstream_env \<Rightarrow> gen_dec \<Rightarrow> ctx_err option \<Rightarrow> string \<Rightarrow> GenerateRequest \<Rightarrow> bool \<Rightarrow> stream_result \<times> int list" where
  "ollama_Generate env dec c u req onTokens =
     (case ue_marshal env (generate_body req) of
        Inl e \<Rightarrow> (([], 0, Some e), [])
      | Inr payload \<Rightarrow>
          (case ollama_send env u ''/api/generate'' ''ollama /api/generate'' json_header payload of
             Inl e \<Rightarrow> (([], 0, Some e), [])
           | Inr rd \<Rightarrow>
               (case parse_generate dec c rd of (r, calls) \<Rightarrow> (r, if onTokens then map snd calls else []))))"

section \<open>Unloading\<close>

definition LoadedModels ::
  "upstream_env \<Rightarrow> (reader \<Rightarrow> goerr + string list) \<Rightarrow> string \<Rightarrow> goerr + string list" where
  "LoadedModels env dps u =
     (case ollama_send env u ''/api/ps'' ''ollama /api/ps'' Map.empty [] of Inl e \<Rightarrow> Inl e | Inr rd \<Rightarrow> dps rd)"

text \<open>\<open>mk\<close> is the payload for a model, which always marshals; the result is the error, if any.\<close>

definition unloadOne :: "upstream_env \<Rightarrow> (string \<Rightarrow> string) \<Rightarrow> string \<Rightarrow> string \<Rightarrow> goerr option" where
  "unloadOne env mk u model =
     (case ollama_send env u ''/api/generate'' (''unload '' @ model) json_header (mk model) of
        Inl e \<Rightarrow> Some e | Inr _ \<Rightarrow> None)"

text \<open>The loop of \<^verbatim>\<open>Unload\<close>, with the models it asked to unload so far.\<close>

fun unload_loop :: "(string \<Rightarrow> goerr option) \<Rightarrow> string list \<Rightarrow> goerr option \<Rightarrow> string list \<Rightarrow> goerr option \<times> string list" where
  "unload_loop one [] firstErr asked = (firstErr, asked)"
| "unload_loop one (name # names) firstErr asked =
     unload_loop one names (case one name of Some e \<Rightarrow> (if firstErr = None then Some e else firstErr) | None \<Rightarrow> firstErr)
       (asked @ [name])"

definition ollama_Unload ::
  "upstream_env \<Rightarrow> (reader \<Rightarrow> goerr + string list) \<Rightarrow> (string \<Rightarrow> string) \<Rightarrow> string \<Rightarrow> goerr option \<times> string list" where
  "ollama_Unload env dps mk u =
     (case LoadedModels env dps u of
        Inl e \<Rightarrow> (Some e, [])
      | Inr names \<Rightarrow> unload_loop (unloadOne env mk u) names None [])"

definition ollama_Reload :: "goerr option" where
  "ollama_Reload = None"

section \<open>The contract of the stream\<close>

definition gen_ok :: "gen_st \<Rightarrow> bool" where
  "gen_ok st \<longleftrightarrow> g_sb st = concat (map fst (g_calls st)) \<and> map snd (g_calls st) = map int [1..<Suc (length (g_calls st))] \<and>
     g_tokens st = int (length (g_calls st)) \<and> (\<forall>c\<in>set (g_calls st). fst c \<noteq> [])"

lemma gen_ok_piece: "gen_ok st \<Longrightarrow> gen_ok (take_piece r st)"
  by (auto simp: gen_ok_def take_piece_def)

text \<open>A line that ends the stream: it decodes to a chunk marked done.\<close>

definition done_line :: "gen_dec \<Rightarrow> string \<Rightarrow> bool" where
  "done_line dec l \<longleftrightarrow> (case dec (TrimSpace l) of Inr ck \<Rightarrow> gc_Done ck \<and> gc_Error ck = [] | Inl _ \<Rightarrow> False)"

lemma gen_loop_ok:
  assumes "gen_loop dec ls st = (r, st')" and "gen_ok st"
  shows "gen_ok st' \<and> (case r of
      None \<Rightarrow> True
    | Some (t, n, None) \<Rightarrow> t = g_sb st' \<and> (\<exists>l\<in>set ls. done_line dec l)
    | Some (t, n, Some e) \<Rightarrow> t = [])"
  using assms
proof (induction dec ls st rule: gen_loop.induct)
  case (2 dec l ls st)
  consider (blank) "TrimSpace l = []"
    | (bad) e where "TrimSpace l \<noteq> []" "dec (TrimSpace l) = Inl e"
    | (err) ck where "TrimSpace l \<noteq> []" "dec (TrimSpace l) = Inr ck" "gc_Error ck \<noteq> []"
    | (last) ck where "TrimSpace l \<noteq> []" "dec (TrimSpace l) = Inr ck" "gc_Error ck = []" "gc_Done ck"
    | (more) ck where "TrimSpace l \<noteq> []" "dec (TrimSpace l) = Inr ck" "gc_Error ck = []" "\<not> gc_Done ck"
    by (cases "dec (TrimSpace l)") auto
  then show ?case
  proof cases
    case blank
    then have "gen_ok st' \<and> (case r of None \<Rightarrow> True
      | Some (t, n, None) \<Rightarrow> t = g_sb st' \<and> (\<exists>l\<in>set ls. done_line dec l) | Some (t, n, Some e) \<Rightarrow> t = [])"
      using 2 by simp
    then show ?thesis by (auto split: option.splits prod.splits)
  next
    case more
    then have "gen_ok st' \<and> (case r of None \<Rightarrow> True
      | Some (t, n, None) \<Rightarrow> t = g_sb st' \<and> (\<exists>l\<in>set ls. done_line dec l) | Some (t, n, Some e) \<Rightarrow> t = [])"
      using 2 gen_ok_piece by (simp add: Let_def)
    then show ?thesis by (auto split: option.splits prod.splits)
  next
    case last
    then have "r = Some (g_sb (take_piece (gc_Response ck) st),
        if 0 < gc_EvalCount ck then gc_EvalCount ck else g_tokens (take_piece (gc_Response ck) st), None)"
      "st' = take_piece (gc_Response ck) st" "done_line dec l"
      using 2 by (auto simp: done_line_def Let_def)
    then show ?thesis using 2 gen_ok_piece by simp
  qed (use 2 in \<open>auto simp: Let_def\<close>)
qed simp

interpretation ollama_client: stream_client "parse_generate dec c" "\<lambda>rd. \<exists>l\<in>set (fst (scan_lines ndjsonLimit rd)). done_line dec l"
proof -
  have all: "map snd calls = map int [1..<Suc (length calls)] \<and> (\<forall>c\<in>set calls. fst c \<noteq> []) \<and>
      (case e of None \<Rightarrow> t = concat (map fst calls) \<and> (\<exists>l\<in>set (fst (scan_lines ndjsonLimit rd)). done_line dec l)
       | Some _ \<Rightarrow> t = [])"
    if p: "parse_generate dec c rd = ((t, n, e), calls)" for rd t n e calls
  proof -
    obtain ls er where sl: "scan_lines ndjsonLimit rd = (ls, er)" by fastforce
    obtain r st where lp: "gen_loop dec ls gen_init = (r, st)" by fastforce
    have "gen_ok gen_init" by (simp add: gen_ok_def gen_init_def)
    note ok = gen_loop_ok[OF lp this]
    have eq: "(t, n, e) = (case r of Some v \<Rightarrow> v | None \<Rightarrow> gen_tail c er st)" "calls = g_calls st"
      using p sl lp by (simp_all add: parse_generate_def)
    then show ?thesis using ok sl by (auto simp: gen_ok_def gen_tail_def split: option.splits)
  qed
  show "stream_client (parse_generate dec c) (\<lambda>rd. \<exists>l\<in>set (fst (scan_lines ndjsonLimit rd)). done_line dec l)"
    by unfold_locales (use all in fastforce)+
qed

text \<open>The broker's own fields of a request cannot be overridden by options.\<close>

lemma generate_body_fields:
  assumes "distinct (map fst (gr_Options req))"
  shows "generate_body req ''model'' = Some (JString (gr_Model req))"
    and "generate_body req ''prompt'' = Some (JString (gr_Prompt req))"
    and "generate_body req ''stream'' = Some (JBool True)"
  using assms by (simp_all add: generate_body_def fold_add_option)

text \<open>Unloading asks for every loaded model, also after a failure, and reports the first failure.\<close>

lemma unload_loop_all:
  "unload_loop one names fe asked =
     (case fe of Some e \<Rightarrow> Some e | None \<Rightarrow> (case filter (\<lambda>n. one n \<noteq> None) names of [] \<Rightarrow> None | n # _ \<Rightarrow> one n), asked @ names)"
  by (induction names arbitrary: fe asked) (auto split: option.splits list.splits)

lemma Unload_all:
  assumes "LoadedModels env dps u = Inr names"
  shows "snd (ollama_Unload env dps mk u) = names"
    and "fst (ollama_Unload env dps mk u) = None \<longleftrightarrow> (\<forall>n\<in>set names. unloadOne env mk u n = None)"
  using assms by (auto simp: ollama_Unload_def unload_loop_all filter_empty_conv split: list.splits dest: filter_eq_ConsD)

end
