(* ===== verification/Backend_Calls.thy ===== *)
theory Backend_Calls
  imports Broker_Wiring Ollama_Client
begin

text \<open>
  The calls of the backends: \<^verbatim>\<open>Generate\<close>, \<^verbatim>\<open>Reachable\<close> and the unloader of \<^verbatim>\<open>internal/backend/ollama_backend.go\<close>
  and \<^verbatim>\<open>openai_backend.go\<close>, with the systemd unit controller. The network, the decoders and \<^verbatim>\<open>systemctl\<close> are the
  fields of an environment. A backend without a URL, which no loaded configuration has, panics: \<open>None\<close>.
\<close>

record backend_env =
  be_up :: upstream_env
  be_sse :: chunk_dec
  be_ndjson :: gen_dec
  be_ps :: "reader \<Rightarrow> goerr + string list"
  be_keepAlive0 :: "string \<Rightarrow> string"
  be_systemctl :: "string \<Rightarrow> string \<Rightarrow> goerr option"

section \<open>Generate\<close>

text \<open>\<open>cx\<close> is what successive looks at the context find; the Ollama client looks once, after the stream.\<close>

definition openai_Generate ::
  "backend_env \<Rightarrow> (nat \<Rightarrow> ctx_err option) \<Rightarrow> string \<Rightarrow> string \<Rightarrow> GenerateRequest \<Rightarrow> (string \<times> goerr option) \<times> int list" where
  "openai_Generate env cx u key req =
     (case Client_Generate (be_up env) (be_sse env) cx (client_New u key) req True of
        ((out, _, er), prog) \<Rightarrow> ((out, er), prog))"

definition ollamaBackend_Generate ::
  "backend_env \<Rightarrow> (nat \<Rightarrow> ctx_err option) \<Rightarrow> string \<Rightarrow> GenerateRequest \<Rightarrow> (string \<times> goerr option) \<times> int list" where
  "ollamaBackend_Generate env cx u req =
     (case ollama_Generate (be_up env) (be_ndjson env) (cx 0) u req True of
        ((out, _, er), prog) \<Rightarrow> ((out, er), prog))"

definition backend_Generate ::
  "backend_env \<Rightarrow> (nat \<Rightarrow> ctx_err option) \<Rightarrow> backend \<Rightarrow> GenerateRequest \<Rightarrow> ((string \<times> goerr option) \<times> int list) option" where
  "backend_Generate env cx b req =
     (case bk_url b of
        None \<Rightarrow> None
      | Some u \<Rightarrow>
          Some (if bk_family b = ''openai'' then openai_Generate env cx (u_String u) (bk_apiKey b) req
                else ollamaBackend_Generate env cx (u_String u) req))"

section \<open>Reachable\<close>

definition openai_Reachable :: "backend_env \<Rightarrow> string \<Rightarrow> string \<Rightarrow> goerr option" where
  "openai_Reachable env u key =
     (case ue_newreq (be_up env) u [''v1'', ''models''] of
        Some e \<Rightarrow> Some e
      | None \<Rightarrow>
          (case ue_do (be_up env) \<lparr>or_path = [''v1'', ''models''],
               or_hdrs = (if key \<noteq> [] then Map.empty(''Authorization'' \<mapsto> ''Bearer '' @ key) else Map.empty),
               or_payload = []\<rparr> of
             Inl e \<Rightarrow> Some e
           | Inr resp \<Rightarrow>
               (if ur_code resp < 200 \<or> 300 \<le> ur_code resp
                then Some (new_err (''openai upstream: status '' @ itoa (ur_code resp))) else None)))"

definition ollama_Reachable :: "backend_env \<Rightarrow> string \<Rightarrow> goerr option" where
  "ollama_Reachable env u = (case LoadedModels (be_up env) (be_ps env) u of Inl e \<Rightarrow> Some e | Inr _ \<Rightarrow> None)"

definition backend_Reachable :: "backend_env \<Rightarrow> backend \<Rightarrow> goerr option option" where
  "backend_Reachable env b =
     (case bk_url b of
        None \<Rightarrow> None
      | Some u \<Rightarrow> Some (if bk_family b = ''openai'' then openai_Reachable env (u_String u) (bk_apiKey b)
                        else ollama_Reachable env (u_String u)))"

section \<open>Unloading\<close>

definition systemd_Unload :: "(string \<Rightarrow> string \<Rightarrow> goerr option) \<Rightarrow> string \<Rightarrow> goerr option" where
  "systemd_Unload run unit =
     (case run ''stop'' unit of Some e \<Rightarrow> Some (wrap_err (''systemctl stop '' @ unit @ '': '') e) | None \<Rightarrow> None)"

definition systemd_Reload :: "(string \<Rightarrow> string \<Rightarrow> goerr option) \<Rightarrow> string \<Rightarrow> goerr option" where
  "systemd_Reload run unit =
     (case run ''start'' unit of Some e \<Rightarrow> Some (wrap_err (''systemctl start '' @ unit @ '': '') e) | None \<Rightarrow> None)"

text \<open>What the unloader of a backend does for an action of the yield controller; \<open>None\<close> where there is no unloader.\<close>

definition backend_action :: "backend_env \<Rightarrow> backend \<Rightarrow> kind \<Rightarrow> goerr option option" where
  "backend_action env b k =
     (case (bk_unloader b, bk_url b) of
        (Some _, Some u) \<Rightarrow>
          Some (if bk_family b = ''openai''
                then (case k of Unload \<Rightarrow> systemd_Unload (be_systemctl env) (bk_unit b)
                      | Reload \<Rightarrow> systemd_Reload (be_systemctl env) (bk_unit b))
                else (case k of Unload \<Rightarrow> fst (ollama_Unload (be_up env) (be_ps env) (be_keepAlive0 env) (u_String u))
                      | Reload \<Rightarrow> ollama_Reload))
      | _ \<Rightarrow> None)"

section \<open>What a Job may store\<close>

text \<open>The upstream's answer to a generation carries its end marker.\<close>

definition stream_ended :: "backend_env \<Rightarrow> string \<Rightarrow> reader \<Rightarrow> bool" where
  "stream_ended env family rd \<longleftrightarrow>
     (if family = ''openai'' then ''[DONE]'' \<in> payloads (fst (scan_lines maxTokenSize rd))
      else \<exists>l\<in>set (fst (scan_lines ndjsonLimit rd)). done_line (be_ndjson env) l)"

text \<open>The pieces of text an answer delivers, with the running count.\<close>

definition pieces :: "backend_env \<Rightarrow> (nat \<Rightarrow> ctx_err option) \<Rightarrow> string \<Rightarrow> reader \<Rightarrow> (string \<times> int) list" where
  "pieces env cx family rd =
     (if family = ''openai'' then snd (parseSSEStreamChunks (be_sse env) cx rd)
      else snd (parse_generate (be_ndjson env) (cx 0) rd))"

text \<open>The upstream accepted some request with 200 and answered \<open>rd\<close>.\<close>

definition answered :: "upstream_env \<Rightarrow> reader \<Rightarrow> bool" where
  "answered up rd \<longleftrightarrow> (\<exists>rq resp. ue_do up rq = Inr resp \<and> ur_code resp = 200 \<and> ur_body resp = rd)"

lemma post_json_answered: "post_json up c path m = Inr resp \<Longrightarrow> answered up (ur_body resp)"
  by (auto simp: post_json_def answered_def split: sum.splits option.splits if_splits)

lemma ollama_send_answered: "ollama_send up u path what h payload = Inr rd \<Longrightarrow> answered up rd"
  by (auto simp: ollama_send_def answered_def split: sum.splits option.splits if_splits)

lemma openai_Generate_cases:
  obtains (refused) e where "openai_Generate env cx u key req = (([], Some e), [])"
    | (streamed) rd t n er calls where "answered (be_up env) rd"
        "parseSSEStreamChunks (be_sse env) cx rd = ((t, n, er), calls)"
        "openai_Generate env cx u key req = ((t, er), map snd calls)"
proof (cases "openChatStream (be_up env) (client_New u key) (gr_Model req) [user_message (gr_Prompt req)] (gr_Options req)")
  case (Inl e)
  show thesis by (rule refused[of e])
    (simp add: openai_Generate_def Generate_is_chatCompletion chatCompletion_def Inl)
next
  case (Inr resp)
  obtain t n er calls where p: "parseSSEStreamChunks (be_sse env) cx (ur_body resp) = ((t, n, er), calls)"
    by (metis surj_pair)
  show thesis by (rule streamed[OF post_json_answered p])
    (use Inr in \<open>simp_all add: openChatStream_def openai_Generate_def Generate_is_chatCompletion chatCompletion_def parseSSEStream_def p\<close>)
qed

lemma ollama_Generate_cases:
  obtains (refused) e where "ollamaBackend_Generate env cx u req = (([], Some e), [])"
    | (streamed) rd t n er calls where "answered (be_up env) rd"
        "parse_generate (be_ndjson env) (cx 0) rd = ((t, n, er), calls)"
        "ollamaBackend_Generate env cx u req = ((t, er), map snd calls)"
proof (cases "ue_marshal (be_up env) (generate_body req)")
  case (Inl e)
  show thesis by (rule refused[of e]) (simp add: ollamaBackend_Generate_def ollama_Generate_def Inl)
next
  case (Inr payload)
  show thesis
  proof (cases "ollama_send (be_up env) u ''/api/generate'' ''ollama /api/generate'' json_header payload")
    case (Inl e)
    show thesis by (rule refused[of e]) (simp add: ollamaBackend_Generate_def ollama_Generate_def Inr Inl)
  next
    case rd: (Inr rd)
    obtain t n er calls where p: "parse_generate (be_ndjson env) (cx 0) rd = ((t, n, er), calls)"
      by (metis surj_pair)
    show thesis by (rule streamed[OF ollama_send_answered[OF rd] p])
      (simp add: ollamaBackend_Generate_def ollama_Generate_def Inr rd p)
  qed
qed

text \<open>Every generation is refused with an error, or is the parse of an answer, under the contract of its parser.\<close>

lemma backend_Generate_cases:
  assumes "backend_Generate env cx b req = Some ((t, er), progress)"
  obtains (refused) e where "t = []" "er = Some e" "progress = []"
    | (streamed) rd where "answered (be_up env) rd" "progress = map snd (pieces env cx (bk_family b) rd)"
        "case er of Some _ \<Rightarrow> t = []
           | None \<Rightarrow> stream_ended env (bk_family b) rd \<and> t = concat (map fst (pieces env cx (bk_family b) rd))"
        "sorted progress" "distinct progress"
proof -
  obtain u where u: "bk_url b = Some u" using assms by (auto simp: backend_Generate_def split: option.splits)
  show thesis
  proof (cases "bk_family b = ''openai''")
    case True
    then have g: "openai_Generate env cx (u_String u) (bk_apiKey b) req = ((t, er), progress)"
      using assms u by (simp add: backend_Generate_def)
    show thesis
    proof (cases rule: openai_Generate_cases[of env cx "u_String u" "bk_apiKey b" req])
      case (streamed rd t' n er' calls)
      with g True sse_client.complete_or_error[OF streamed(2)] that(2)[of rd] show thesis
        by (simp add: pieces_def stream_ended_def split: option.splits)
    qed (use g that(1) in auto)
  next
    case False
    then have g: "ollamaBackend_Generate env cx (u_String u) req = ((t, er), progress)"
      using assms u by (simp add: backend_Generate_def)
    show thesis
    proof (cases rule: ollama_Generate_cases[of env cx "u_String u" req])
      case (streamed rd t' n er' calls)
      with g False ollama_client.complete_or_error[OF streamed(2)] that(2)[of rd] show thesis
        by (simp add: pieces_def stream_ended_def split: option.splits)
    qed (use g that(1) in auto)
  qed
qed


text \<open>An Ollama server that answers one line.\<close>

definition one_line_env :: backend_env where
  "one_line_env = \<lparr>be_up = \<lparr>ue_marshal = \<lambda>_. Inr ''q'', ue_newreq = \<lambda>_ _. None,
       ue_do = \<lambda>_. Inr \<lparr>ur_code = 200, ur_body = (''d'', None)\<rparr>\<rparr>,
     be_sse = \<lambda>_. Inl (new_err []),
     be_ndjson = \<lambda>l. if l = ''d'' then Inr \<lparr>gc_Response = ''hi'', gc_Done = True, gc_EvalCount = 3, gc_Error = []\<rparr>
       else Inl (new_err ''bad''),
     be_ps = \<lambda>_. Inr [], be_keepAlive0 = id, be_systemctl = \<lambda>_ _. None\<rparr>"

definition one_line_backend :: backend where
  "one_line_backend = newOllamaBackend 0 (Some \<lparr>u_Scheme = ''http'', u_Host = ''h'', u_String = ''http://h''\<rparr>)"


end
