(* ===== verification/Queue_Park.thy ===== *)
theory Queue_Park
  imports Queue_Scheduler
begin

text \<open>
  \<^verbatim>\<open>internal/queue/park.go\<close>: the bounded FIFO in which batch requests sit out a GPU yield. The
  functions follow the code's critical sections: \<^verbatim>\<open>parkFor\<close> enqueues under the mutex, waits in a
  select, and on every branch but a release removes itself under the mutex; the drain loop splices
  a burst out under the mutex and closes the release channels after unlocking. The step relation
  \<open>park_step\<close> interleaves them freely.
\<close>

section \<open>Operations\<close>

definition parkDrainInterval :: duration where "parkDrainInterval = second"

datatype parkResult = parkReleased | parkExpired | parkRejected | parkCanceled | parkShutdown

text \<open>
  The first critical section of \<^verbatim>\<open>parkFor\<close>: the ceiling check and the append are atomic. \<open>None\<close> is
  the rejection.
\<close>

definition parkFor_enter :: "instant \<Rightarrow> parker \<Rightarrow> heap \<Rightarrow> parkedReq option \<times> parker \<times> heap" where
  "parkFor_enter now p h =
     (if maxQueue p = 0 \<or> int (length (pq p)) \<ge> maxQueue p then (None, p, h)
      else (case make_chan h of (c, h') \<Rightarrow>
        let pr = \<lparr>enqueuedAt = now, pr_release = c\<rparr> in (Some pr, p\<lparr>pq := pq p @ [pr]\<rparr>, h')))"

definition parker_remove :: "parkedReq \<Rightarrow> parker \<Rightarrow> bool \<times> parker" where
  "parker_remove pr p = (case scan_remove pr (pq p) of (found, q) \<Rightarrow> (found, p\<lparr>pq := q\<rparr>))"

text \<open>
  The branch of \<^verbatim>\<open>hctx.Done()\<close> after its non-blocking look at the release channel: a failed removal
  means the drain loop already took the request. \<open>ctxErr\<close> says whether the caller's own context is
  done.
\<close>

definition parkFor_done :: "parkedReq \<Rightarrow> bool \<Rightarrow> parker \<Rightarrow> parkResult \<times> parker" where
  "parkFor_done pr ctxErr p =
     (case parker_remove pr p of (found, p') \<Rightarrow>
        (if \<not> found then parkReleased else if ctxErr then parkCanceled else parkExpired, p'))"

definition parkFor_shutdown :: "parkedReq \<Rightarrow> parker \<Rightarrow> parkResult \<times> parker" where
  "parkFor_shutdown pr p =
     (case parker_remove pr p of (found, p') \<Rightarrow>
        (if \<not> found then parkReleased else parkShutdown, p'))"

definition shutdownDone :: "Scheduler \<Rightarrow> chan option" where
  "shutdownDone s = shutdownCtx s"

text \<open>
  One tick of \<^verbatim>\<open>RunParkDrain\<close>: nothing while yielding or on an empty queue, otherwise the burst
  size read under the mutex.
\<close>

definition RunParkDrain_tick :: "bool \<Rightarrow> parker \<Rightarrow> int option" where
  "RunParkDrain_tick yielding p =
     (if yielding then None else if length (pq p) = 0 then None else Some (drainBurst p))"

text \<open>
  The critical section of \<^verbatim>\<open>drainOneBurst\<close>: the head of the queue is copied out and the queue
  resliced. \<open>None\<close> is the panic of \<^verbatim>\<open>make\<close> on a negative length.
\<close>

definition drainOneBurst :: "int \<Rightarrow> parker \<Rightarrow> (parkedReq list \<times> parker) option" where
  "drainOneBurst burst p =
     (if length (pq p) = 0 then Some ([], p)
      else let n = (if burst > int (length (pq p)) then int (length (pq p)) else burst) in
        if n < 0 then None
        else Some (take (nat n) (pq p), p\<lparr>pq := drop (nat n) (pq p)\<rparr>))"

definition SetParkConfig :: "duration \<Rightarrow> int \<Rightarrow> int \<Rightarrow> Scheduler \<Rightarrow> Scheduler" where
  "SetParkConfig hld mq burst s =
     (let p = park s;
          p1 = (if mq = 0 then p\<lparr>maxQueue := 0\<rparr> else if mq < 0 then p else p\<lparr>maxQueue := mq\<rparr>);
          p2 = (if burst \<ge> 1 then p1\<lparr>drainBurst := burst\<rparr> else p1);
          p3 = (if hld > 0 then p2\<lparr>hold := hld\<rparr> else p2)
      in s\<lparr>park := p3\<rparr>)"

definition SetShutdownContext :: "chan option \<Rightarrow> Scheduler \<Rightarrow> Scheduler" where
  "SetShutdownContext c s = s\<lparr>shutdownCtx := c\<rparr>"

definition parkEnabled :: "Scheduler \<Rightarrow> bool" where
  "parkEnabled s = (maxQueue (park s) \<noteq> 0)"

lemma parker_remove_eq: "parker_remove pr p = (pr \<in> set (pq p), p\<lparr>pq := remove1 pr (pq p)\<rparr>)"
  by (simp add: parker_remove_def scan_remove_eq)

text \<open>A burst takes the oldest requests, all of them when there are fewer than the burst.\<close>

lemma drainOneBurst_eq:
  "0 \<le> b \<Longrightarrow> drainOneBurst b p = Some (take (nat b) (pq p), p\<lparr>pq := drop (nat b) (pq p)\<rparr>)"
  by (auto simp: drainOneBurst_def Let_def nat_le_iff zle_int)

section \<open>Requests, drain loop, steps\<close>

text \<open>
  A request is outside, parked in the select, past the non-blocking check and about to remove
  itself, refused, or back with a result.
\<close>

datatype ppc = POut | PWait parkedReq | PRemove parkedReq | PRejected | PDone parkedReq parkResult

datatype drain_pc = DIdle | DBurst int | DClosing "parkedReq list"

record park_sys =
  psch :: Scheduler
  php :: heap
  ppcs :: "tid \<Rightarrow> ppc"
  drain :: drain_pc
  ppanic :: bool

abbreviation pk :: "park_sys \<Rightarrow> parker" where "pk S \<equiv> park (psch S)"

abbreviation set_pk :: "park_sys \<Rightarrow> parker \<Rightarrow> park_sys" where
  "set_pk S p \<equiv> S\<lparr>psch := (psch S)\<lparr>park := p\<rparr>\<rparr>"

inductive park_step :: "park_sys \<Rightarrow> park_sys \<Rightarrow> bool" where
  enter: "ppcs S t = POut \<Longrightarrow> parkFor_enter now (pk S) (php S) = (Some pr, p, h) \<Longrightarrow>
    park_step S ((set_pk S p)\<lparr>php := h, ppcs := (ppcs S)(t := PWait pr)\<rparr>)"
| reject: "ppcs S t = POut \<Longrightarrow> parkFor_enter now (pk S) (php S) = (None, p, h) \<Longrightarrow>
    park_step S ((set_pk S p)\<lparr>php := h, ppcs := (ppcs S)(t := PRejected)\<rparr>)"
| released: "ppcs S t = PWait pr \<Longrightarrow> pr_release pr \<in> closedc (php S) \<Longrightarrow>
    park_step S (S\<lparr>ppcs := (ppcs S)(t := PDone pr parkReleased)\<rparr>)"
| done_check: "ppcs S t = PWait pr \<Longrightarrow> pr_release pr \<notin> closedc (php S) \<Longrightarrow>
    park_step S (S\<lparr>ppcs := (ppcs S)(t := PRemove pr)\<rparr>)"
| done_remove: "ppcs S t = PRemove pr \<Longrightarrow> parkFor_done pr ctxErr (pk S) = (res, p) \<Longrightarrow>
    park_step S ((set_pk S p)\<lparr>ppcs := (ppcs S)(t := PDone pr res)\<rparr>)"
| shutdown: "ppcs S t = PWait pr \<Longrightarrow> shutdownDone (psch S) \<noteq> None \<Longrightarrow>
    parkFor_shutdown pr (pk S) = (res, p) \<Longrightarrow>
    park_step S ((set_pk S p)\<lparr>ppcs := (ppcs S)(t := PDone pr res)\<rparr>)"
| tick: "drain S = DIdle \<Longrightarrow> RunParkDrain_tick yielding (pk S) = Some b \<Longrightarrow>
    park_step S (S\<lparr>drain := DBurst b\<rparr>)"
| burst: "drain S = DBurst b \<Longrightarrow> drainOneBurst b (pk S) = Some (batch, p) \<Longrightarrow>
    park_step S ((set_pk S p)\<lparr>drain := DClosing batch\<rparr>)"
| burst_panic: "drain S = DBurst b \<Longrightarrow> drainOneBurst b (pk S) = None \<Longrightarrow>
    park_step S (S\<lparr>ppanic := True\<rparr>)"
| close: "drain S = DClosing (pr # prs) \<Longrightarrow> close_chan (pr_release pr) (php S) = Some h \<Longrightarrow>
    park_step S (S\<lparr>php := h, drain := DClosing prs\<rparr>)"
| close_panic: "drain S = DClosing (pr # prs) \<Longrightarrow> close_chan (pr_release pr) (php S) = None \<Longrightarrow>
    park_step S (S\<lparr>ppanic := True\<rparr>)"
| drained: "drain S = DClosing [] \<Longrightarrow> park_step S (S\<lparr>drain := DIdle\<rparr>)"

text \<open>A scheduler as \<^verbatim>\<open>main\<close> configures it before serving: any arguments, a fresh heap.\<close>

definition park_start :: "park_sys \<Rightarrow> bool" where
  "park_start S \<longleftrightarrow> (\<exists>hld mq burst sd.
     S = \<lparr>psch = SetShutdownContext sd (SetParkConfig hld mq burst New), php = empty_heap,
          ppcs = (\<lambda>_. POut), drain = DIdle, ppanic = False\<rparr>)"

section \<open>The invariant\<close>

text \<open>The requests the drain loop has taken out of the queue and not yet signalled.\<close>

fun closing :: "drain_pc \<Rightarrow> parkedReq list" where
  "closing (DClosing prs) = prs"
| "closing _ = []"

fun waits_on :: "ppc \<Rightarrow> parkedReq \<Rightarrow> bool" where
  "waits_on (PWait pr) x = (pr = x)"
| "waits_on (PRemove pr) x = (pr = x)"
| "waits_on _ x = False"

definition taken :: "park_sys \<Rightarrow> parkedReq \<Rightarrow> bool" where
  "taken S pr \<longleftrightarrow> pr \<in> set (closing (drain S)) \<or> pr_release pr \<in> closedc (php S)"

fun owns :: "ppc \<Rightarrow> parkedReq \<Rightarrow> bool" where
  "owns (PWait pr) x = (pr = x)"
| "owns (PRemove pr) x = (pr = x)"
| "owns (PDone pr r) x = (pr = x)"
| "owns _ x = False"

definition park_config_ok :: "parker \<Rightarrow> bool" where
  "park_config_ok p \<longleftrightarrow> maxQueue p \<ge> 0 \<and> drainBurst p \<ge> 0 \<and> hold p \<ge> 0"

definition park_queue_ok :: "park_sys \<Rightarrow> bool" where
  "park_queue_ok S \<longleftrightarrow> heap_ok (php S)
     \<and> distinct (map pr_release (pq (pk S) @ closing (drain S)))
     \<and> (\<forall>pr \<in> set (pq (pk S) @ closing (drain S)).
          pr_release pr \<notin> closedc (php S) \<and> pr_release pr < nextc (php S))
     \<and> int (length (pq (pk S))) \<le> maxQueue (pk S)
     \<and> (\<forall>b. drain S = DBurst b \<longrightarrow> b \<ge> 0)"

definition park_threads_ok :: "park_sys \<Rightarrow> bool" where
  "park_threads_ok S \<longleftrightarrow>
     (\<forall>t pr. owns (ppcs S t) pr \<longrightarrow> pr_release pr < nextc (php S))
   \<and> (\<forall>t t' pr pr'. owns (ppcs S t) pr \<longrightarrow> owns (ppcs S t') pr' \<longrightarrow>
        pr_release pr = pr_release pr' \<longrightarrow> t = t' \<and> pr = pr')
   \<and> (\<forall>pr \<in> set (pq (pk S)). \<exists>t. waits_on (ppcs S t) pr)
   \<and> (\<forall>pr \<in> set (closing (drain S)). \<exists>t. owns (ppcs S t) pr)
   \<and> (\<forall>t pr. waits_on (ppcs S t) pr \<longrightarrow> pr \<in> set (pq (pk S)) \<or> taken S pr)
   \<and> (\<forall>t pr r. ppcs S t = PDone pr r \<longrightarrow>
        pr \<notin> set (pq (pk S)) \<and> r \<noteq> parkRejected \<and> (r = parkReleased \<longleftrightarrow> taken S pr))"

definition park_inv :: "park_sys \<Rightarrow> bool" where
  "park_inv S \<longleftrightarrow> park_config_ok (pk S) \<and> park_queue_ok S \<and> park_threads_ok S \<and> \<not> ppanic S"


lemma park_invI:
  assumes "park_config_ok (pk S)" and "\<not> ppanic S"
    and "\<And>c. c \<in> closedc (php S) \<Longrightarrow> c < nextc (php S)"
    and "distinct (map pr_release (pq (pk S) @ closing (drain S)))"
    and "\<And>pr. pr \<in> set (pq (pk S)) \<union> set (closing (drain S)) \<Longrightarrow>
           pr_release pr \<notin> closedc (php S) \<and> pr_release pr < nextc (php S)"
    and "int (length (pq (pk S))) \<le> maxQueue (pk S)"
    and "\<And>b. drain S = DBurst b \<Longrightarrow> b \<ge> 0"
    and "\<And>t pr. owns (ppcs S t) pr \<Longrightarrow> pr_release pr < nextc (php S)"
    and "\<And>t t' pr pr'. owns (ppcs S t) pr \<Longrightarrow> owns (ppcs S t') pr' \<Longrightarrow>
           pr_release pr = pr_release pr' \<Longrightarrow> t = t' \<and> pr = pr'"
    and "\<And>pr. pr \<in> set (pq (pk S)) \<Longrightarrow> \<exists>t. waits_on (ppcs S t) pr"
    and "\<And>pr. pr \<in> set (closing (drain S)) \<Longrightarrow> \<exists>t. owns (ppcs S t) pr"
    and "\<And>t pr. waits_on (ppcs S t) pr \<Longrightarrow> pr \<in> set (pq (pk S)) \<or> taken S pr"
    and "\<And>t pr r. ppcs S t = PDone pr r \<Longrightarrow>
           pr \<notin> set (pq (pk S)) \<and> r \<noteq> parkRejected \<and> (r = parkReleased \<longleftrightarrow> taken S pr)"
  shows "park_inv S"
proof -
  have "park_queue_ok S" using assms(3-7) by (auto simp: park_queue_ok_def heap_ok_def)
  moreover have "park_threads_ok S" unfolding park_threads_ok_def
    by (intro conjI allI ballI impI) (use assms(8-13) in blast)+
  ultimately show ?thesis using assms(1,2) by (simp add: park_inv_def)
qed

lemma park_invD:
  assumes "park_inv S"
  shows "park_config_ok (pk S)" and "\<not> ppanic S"
    and "\<And>c. c \<in> closedc (php S) \<Longrightarrow> c < nextc (php S)"
    and "distinct (map pr_release (pq (pk S) @ closing (drain S)))"
    and "\<And>pr. pr \<in> set (pq (pk S)) \<union> set (closing (drain S)) \<Longrightarrow>
           pr_release pr \<notin> closedc (php S) \<and> pr_release pr < nextc (php S)"
    and "int (length (pq (pk S))) \<le> maxQueue (pk S)"
    and "\<And>b. drain S = DBurst b \<Longrightarrow> b \<ge> 0"
    and "\<And>t pr. owns (ppcs S t) pr \<Longrightarrow> pr_release pr < nextc (php S)"
    and "\<And>t t' pr pr'. owns (ppcs S t) pr \<Longrightarrow> owns (ppcs S t') pr' \<Longrightarrow>
           pr_release pr = pr_release pr' \<Longrightarrow> t = t' \<and> pr = pr'"
    and "\<And>pr. pr \<in> set (pq (pk S)) \<Longrightarrow> \<exists>t. waits_on (ppcs S t) pr"
    and "\<And>pr. pr \<in> set (closing (drain S)) \<Longrightarrow> \<exists>t. owns (ppcs S t) pr"
    and "\<And>t pr. waits_on (ppcs S t) pr \<Longrightarrow> pr \<in> set (pq (pk S)) \<or> taken S pr"
    and "\<And>t pr r. ppcs S t = PDone pr r \<Longrightarrow>
           pr \<notin> set (pq (pk S)) \<and> r \<noteq> parkRejected \<and> (r = parkReleased \<longleftrightarrow> taken S pr)"
  using assms unfolding park_inv_def park_queue_ok_def park_threads_ok_def heap_ok_def set_append
  by ((elim conjE, assumption) | blast)+

lemma waits_on_owns: "waits_on q pr \<Longrightarrow> owns q pr"
  by (cases q) auto

lemma queued_not_taken: "park_inv S \<Longrightarrow> pr \<in> set (pq (pk S)) \<Longrightarrow> \<not> taken S pr"
  using park_invD(4,5) [of S] by (auto simp: taken_def)

lemma SetParkConfig_ok: "park_config_ok (park s) \<Longrightarrow> park_config_ok (park (SetParkConfig hld mq burst s))"
  by (auto simp: park_config_ok_def SetParkConfig_def Let_def)

lemma park_start_inv: "park_start S \<Longrightarrow> park_inv S"
proof -
  assume "park_start S"
  then obtain hld mq burst sd where
    S: "S = \<lparr>psch = SetShutdownContext sd (SetParkConfig hld mq burst New), php = empty_heap,
          ppcs = (\<lambda>_. POut), drain = DIdle, ppanic = False\<rparr>"
    by (auto simp: park_start_def)
  have c: "park_config_ok (pk S)"
    using SetParkConfig_ok [of New] by (simp add: S SetShutdownContext_def park_config_ok_def New_def)
  have q: "pq (pk S) = []" by (simp add: S SetShutdownContext_def SetParkConfig_def Let_def New_def)
  show ?thesis
    by (rule park_invI) (use c q in \<open>auto simp: S empty_heap_def park_config_ok_def\<close>)
qed

subsection \<open>One lemma per step\<close>

lemma park_enter_inv:
  assumes inv: "park_inv S" and out: "ppcs S t = POut"
    and ent: "parkFor_enter now (pk S) (php S) = (Some pr, p, h)"
  shows "park_inv ((set_pk S p)\<lparr>php := h, ppcs := (ppcs S)(t := PWait pr)\<rparr>)" (is "park_inv ?S")
proof -
  note I = park_invD [OF inv]
  have e: "maxQueue (pk S) \<noteq> 0" "int (length (pq (pk S))) < maxQueue (pk S)"
    "pr = \<lparr>enqueuedAt = now, pr_release = nextc (php S)\<rparr>" "p = (pk S)\<lparr>pq := pq (pk S) @ [pr]\<rparr>"
    "h = (php S)\<lparr>nextc := Suc (nextc (php S))\<rparr>"
    using ent by (auto simp: parkFor_enter_def make_chan_def Let_def split: if_splits)
  have fresh: "\<And>u x. owns (ppcs S u) x \<Longrightarrow> pr_release x \<noteq> pr_release pr"
    "\<And>x. x \<in> set (pq (pk S)) \<union> set (closing (drain S)) \<Longrightarrow> pr_release x \<noteq> pr_release pr"
    "pr_release pr \<notin> closedc (php S)"
    using I(3,5,8) e(3) by fastforce+
  have tk: "taken ?S = taken S" by (simp add: fun_eq_iff taken_def e(5))
  have ow: "\<And>u x. owns (ppcs ?S u) x \<longleftrightarrow> (if u = t then x = pr else owns (ppcs S u) x)"
    and wt: "\<And>u x. waits_on (ppcs ?S u) x \<longleftrightarrow> (if u = t then x = pr else waits_on (ppcs S u) x)"
    by auto
  show ?thesis
  proof (rule park_invI, goal_cases)
    case 1 then show ?case using I(1) by (simp add: e park_config_ok_def)
  next
    case (3 c) then show ?case using I(3) [of c] by (simp add: e)
  next
    case 4
    have "pr_release pr \<notin> pr_release ` (set (pq (pk S)) \<union> set (closing (drain S)))"
      using fresh(2) by fastforce
    then show ?case using I(4) by (auto simp: e(4) image_Un)
  next
    case (5 x) then show ?case using I(5) [of x] fresh(3) e by auto
  next
    case (8 u x) then show ?case using I(8) [of u x] e unfolding ow by (auto split: if_splits)
  next
    case (9 u u' x x') then show ?case using I(9) [of u x u' x'] fresh(1) [of u x] fresh(1) [of u' x']
      unfolding ow by (auto split: if_splits)
  next
    case (10 x)
    then consider "x = pr" | "x \<in> set (pq (pk S))" by (auto simp: e(4))
    then show ?case
    proof cases
      case 1 then show ?thesis by (intro exI [of _ t]) simp
    next
      case 2
      then obtain u where u: "waits_on (ppcs S u) x" using I(10) by blast
      with out have "u \<noteq> t" by auto
      with u show ?thesis by (intro exI [of _ u]) simp
    qed
  next
    case (11 x)
    then obtain u where u: "owns (ppcs S u) x" using I(11) by auto
    with out have "u \<noteq> t" by auto
    with u show ?case by (intro exI [of _ u]) simp
  next
    case (12 u x) then show ?case using I(12) [of u x] unfolding wt tk by (auto simp: e(4) split: if_splits)
  next
    case (13 u x r)
    then have u: "ppcs S u = PDone x r" by (auto split: if_splits)
    then have "x \<noteq> pr" using fresh(1) [of u x] by auto
    then show ?case using I(13) [OF u] unfolding tk by (simp add: e(4))
  qed (use I(2,6,7) e in auto)
qed


lemma park_thread_same_inv:
  assumes inv: "park_inv S"
    and same: "owns q = owns (ppcs S t)" "waits_on q = waits_on (ppcs S t)" "\<And>pr r. q \<noteq> PDone pr r"
  shows "park_inv (S\<lparr>ppcs := (ppcs S)(t := q)\<rparr>)" (is "park_inv ?S")
proof -
  note I = park_invD [OF inv]
  have ow: "\<And>u. owns (ppcs ?S u) = owns (ppcs S u)" and wt: "\<And>u. waits_on (ppcs ?S u) = waits_on (ppcs S u)"
    using same by auto
  have tk: "taken ?S = taken S" by (simp add: fun_eq_iff taken_def)
  show ?thesis
  proof (rule park_invI, goal_cases)
    case (9 u u' x x') then show ?case using I(9) unfolding ow by blast
  next
    case (13 u x r) then show ?case using I(13) [of u x r] same(3) unfolding tk by (auto split: if_splits)
  next
    case (8 u x) then show ?case using I(8) unfolding ow by simp
  next
    case (10 x) then show ?case using I(10) unfolding wt by simp
  next
    case (11 x) then show ?case using I(11) unfolding ow by simp
  next
    case (12 u x) then show ?case using I(12) unfolding wt tk by simp
  qed (use I in simp_all)
qed

text \<open>A parked request takes itself off the queue, or finds itself already gone.\<close>

lemma park_leave_inv:
  assumes inv: "park_inv S" and w: "waits_on (ppcs S t) pr"
    and r: "r0 \<noteq> parkReleased" "r0 \<noteq> parkRejected"
  shows "park_inv ((set_pk S ((pk S)\<lparr>pq := remove1 pr (pq (pk S))\<rparr>))
    \<lparr>ppcs := (ppcs S)(t := PDone pr (if pr \<in> set (pq (pk S)) then r0 else parkReleased))\<rparr>)"
    (is "park_inv ?S")
proof -
  note I = park_invD [OF inv]
  have own: "owns (ppcs S t) pr" using w by (rule waits_on_owns)
  have ow: "\<And>u x. owns (ppcs ?S u) x \<longleftrightarrow> owns (ppcs S u) x"
    using w by (cases "ppcs S t") auto
  have wt: "\<And>u x. waits_on (ppcs ?S u) x \<longleftrightarrow> u \<noteq> t \<and> waits_on (ppcs S u) x" by auto
  have other: "x \<noteq> pr" if "waits_on (ppcs S u) x" "u \<noteq> t" for u x
    using that I(9) [OF waits_on_owns [OF that(1)] own] by auto
  have tk: "taken ?S = taken S" by (simp add: fun_eq_iff taken_def)
  have dis: "distinct (pq (pk S))" using I(4) by (simp add: distinct_map)
  show ?thesis
  proof (rule park_invI, goal_cases)
    case 1 then show ?case using I(1) by (simp add: park_config_ok_def)
  next
    case 4
    have "distinct (map pr_release (remove1 pr (pq (pk S)) @ closing (drain S)))"
      using I(4) by (auto simp: distinct_map intro: inj_on_subset dest: notin_set_remove1)
    then show ?case by simp
  next
    case (5 x) then show ?case using I(5) [of x] set_remove1_subset [of pr "pq (pk S)"] by auto
  next
    case 6 then show ?case using I(6) by (auto simp: length_remove1)
  next
    case (9 u u' x x') then show ?case using I(9) unfolding ow by blast
  next
    case (10 x)
    then have x: "x \<in> set (pq (pk S))" "x \<noteq> pr" using dis by (simp_all add: set_remove1_eq)
    then obtain u where u: "waits_on (ppcs S u) x" using I(10) by blast
    with x(2) w have "u \<noteq> t" by (cases "ppcs S t") auto
    with u show ?case unfolding wt by blast
  next
    case (12 u x)
    then show ?case using I(12) [of u x] other [of u x] unfolding wt tk by auto
  next
    case (13 u x r)
    show ?case
    proof (cases "u = t")
      case True
      then have "x = pr" "r = (if pr \<in> set (pq (pk S)) then r0 else parkReleased)" using 13 by auto
      moreover have "pr \<in> set (pq (pk S)) \<Longrightarrow> \<not> taken S pr" using queued_not_taken [OF inv] .
      moreover have "pr \<notin> set (pq (pk S)) \<Longrightarrow> taken S pr" using I(12) [OF w] by blast
      ultimately show ?thesis unfolding tk using r dis by (auto simp: set_remove1_eq)
    next
      case False
      then have u: "ppcs S u = PDone x r" using 13 by simp
      then show ?thesis using I(13) [OF u] unfolding tk by (auto dest: notin_set_remove1)
    qed
  qed (use I(2,3,7,8,11) ow in \<open>simp_all\<close>)
qed


lemma park_tick_inv:
  assumes inv: "park_inv S" and "drain S = DIdle" and "RunParkDrain_tick y (pk S) = Some b"
  shows "park_inv (S\<lparr>drain := DBurst b\<rparr>)"
proof -
  note I = park_invD [OF inv]
  have "b \<ge> 0" using I(1) assms(3) by (auto simp: RunParkDrain_tick_def park_config_ok_def split: if_splits)
  moreover have "taken (S\<lparr>drain := DBurst b\<rparr>) = taken S" using assms(2) by (auto simp: fun_eq_iff taken_def)
  ultimately show ?thesis using inv assms(2)
    by (simp add: park_inv_def park_queue_ok_def park_threads_ok_def)
qed

lemma park_burst_inv:
  assumes inv: "park_inv S" and d: "drain S = DBurst b" and dr: "drainOneBurst b (pk S) = Some (batch, p)"
  shows "park_inv ((set_pk S p)\<lparr>drain := DClosing batch\<rparr>)" (is "park_inv ?S")
proof -
  note I = park_invD [OF inv]
  define n where "n = nat b"
  have "b \<ge> 0" using I(7) d by blast
  then have n: "batch = take n (pq (pk S))" "p = (pk S)\<lparr>pq := drop n (pq (pk S))\<rparr>"
    using dr by (simp_all add: drainOneBurst_eq n_def)
  have split: "set (pq (pk S)) = set batch \<union> set (drop n (pq (pk S)))"
    by (simp add: n set_append [symmetric] del: set_append)
  have cl: "closing (drain S) = []" "closing (drain ?S) = batch" using d by simp_all
  have dis: "distinct (map pr_release (pq (pk ?S) @ closing (drain ?S)))"
  proof -
    have "distinct (map pr_release (take n (pq (pk S)) @ drop n (pq (pk S))))" using I(4) cl by simp
    then show ?thesis unfolding map_append distinct_append by (auto simp: n cl)
  qed
  have tk: "taken ?S x \<longleftrightarrow> x \<in> set batch \<or> taken S x" for x using cl by (auto simp: taken_def)
  show ?thesis
  proof (rule park_invI, goal_cases)
    case 1 then show ?case using I(1) by (simp add: n park_config_ok_def)
  next
    case 4 show ?case by (rule dis)
  next
    case (5 x) then show ?case using I(5) [of x] split by (auto simp: n)
  next
    case 6 then show ?case using I(6) by (simp add: n)
  next
    case (9 u u' x x') then show ?case using I(9) [of u x u' x'] by simp
  next
    case (10 x) then show ?case using I(10) [of x] split by (auto simp: n)
  next
    case (11 x) then show ?case using I(10) [of x] split by (auto dest: waits_on_owns)
  next
    case (12 u x) then show ?case using I(12) [of u x] split unfolding tk by (auto simp: n)
  next
    case (13 u x r)
    then have "ppcs S u = PDone x r" by simp
    then show ?case using I(13) [of u x r] split unfolding tk by (auto simp: n)
  qed (use I(2,3,7,8) in \<open>simp_all\<close>)
qed

lemma park_close_inv:
  assumes inv: "park_inv S" and d: "drain S = DClosing (pr # prs)"
    and c: "close_chan (pr_release pr) (php S) = Some h"
  shows "park_inv (S\<lparr>php := h, drain := DClosing prs\<rparr>)" (is "park_inv ?S")
proof -
  note I = park_invD [OF inv]
  have h: "pr_release pr \<notin> closedc (php S)" "h = (php S)\<lparr>closedc := insert (pr_release pr) (closedc (php S))\<rparr>"
    using c by (auto simp: close_chan_Some_iff)
  obtain t0 where t0: "owns (ppcs S t0) pr" using I(11) [of pr] d by auto
  have tk: "taken ?S x = taken S x" if "owns (ppcs S u) x" for u x
    using that t0 I(9) [of u x t0 pr] d by (auto simp: taken_def h)
  have notpr: "pr_release x \<noteq> pr_release pr" if "x \<in> set (pq (pk S)) \<union> set prs" for x
    using that I(4) d by (auto simp: image_iff)
  show ?thesis
  proof (rule park_invI, goal_cases)
    case (3 x) then show ?case using I(3) [of x] I(5) [of pr] d by (auto simp: h)
  next
    case 4 then show ?case using I(4) d by auto
  next
    case (5 x) then show ?case using I(5) [of x] notpr [of x] d by (auto simp: h)
  next
    case (9 u u' x x') then show ?case using I(9) [of u x u' x'] by simp
  next
    case (11 x) then show ?case using I(11) [of x] d by simp
  next
    case (12 u x) then show ?case using I(12) [of u x] tk [OF waits_on_owns, of u x] by simp
  next
    case (13 u x r)
    then have u: "ppcs S u = PDone x r" by simp
    then show ?case using I(13) [OF u] tk [of u x] by simp
  qed (use I(1,2,6,7,8,10) in \<open>simp_all add: h\<close>)
qed

lemma park_drained_inv: "park_inv S \<Longrightarrow> drain S = DClosing [] \<Longrightarrow> park_inv (S\<lparr>drain := DIdle\<rparr>)"
proof -
  assume a: "park_inv S" "drain S = DClosing []"
  then have "taken (S\<lparr>drain := DIdle\<rparr>) = taken S" by (auto simp: fun_eq_iff taken_def)
  with a show ?thesis by (simp add: park_inv_def park_queue_ok_def park_threads_ok_def)
qed

lemma park_step_inv: "park_step S T \<Longrightarrow> park_inv S \<Longrightarrow> park_inv T"
proof (induction rule: park_step.induct)
  case (enter S t now pr p h)
  then show ?case using park_enter_inv by blast
next
  case (reject S t now p h)
  then have "p = pk S" "h = php S"
    by (auto simp: parkFor_enter_def make_chan_def Let_def split: if_splits)
  then show ?case using park_thread_same_inv [OF reject.prems, of PRejected t] reject by (simp add: fun_eq_iff)
next
  case (released S t pr)
  then have "pr \<notin> set (pq (pk S))" using park_invD(5) [of S pr] by blast
  then show ?case using park_leave_inv [OF released.prems, of t pr parkExpired] released
    by (simp add: remove1_idem)
next
  case (done_check S t pr)
  then show ?case using park_thread_same_inv [of S "PRemove pr" t] by (simp add: fun_eq_iff)
next
  case (done_remove S t pr ctxErr res p)
  then show ?case
    using park_leave_inv [OF done_remove.prems, of t pr "if ctxErr then parkCanceled else parkExpired"]
    by (auto simp: parkFor_done_def parker_remove_eq split: if_splits)
next
  case (shutdown S t pr res p)
  then show ?case using park_leave_inv [OF shutdown.prems, of t pr parkShutdown]
    by (auto simp: parkFor_shutdown_def parker_remove_eq split: if_splits)
next
  case (tick S y b)
  then show ?case using park_tick_inv by blast
next
  case (burst S b batch p)
  then show ?case using park_burst_inv by blast
next
  case (burst_panic S b)
  then have "b \<ge> 0" using park_invD(7) by blast
  with burst_panic show ?case by (auto simp: drainOneBurst_def Let_def split: if_splits)
next
  case (close S pr prs h)
  then show ?case using park_close_inv by blast
next
  case (close_panic S pr prs)
  then show ?case using park_invD(5) [of S pr] by (auto simp: close_chan_def split: if_splits)
next
  case (drained S)
  then show ?case using park_drained_inv by blast
qed

interpretation parking: step_system park_start park_step park_inv
  by unfold_locales (auto intro: park_start_inv park_step_inv)


section \<open>Draining\<close>

text \<open>
  Successive ticks of the drain loop while the broker is not yielding and nobody else touches the
  queue: what they release, in order, and what stays.
\<close>

fun drain_ticks :: "nat \<Rightarrow> parker \<Rightarrow> (parkedReq list \<times> parker) option" where
  "drain_ticks 0 p = Some ([], p)"
| "drain_ticks (Suc k) p =
     (case RunParkDrain_tick False p of
        None \<Rightarrow> drain_ticks k p
      | Some b \<Rightarrow> (case drainOneBurst b p of
          None \<Rightarrow> None
        | Some (batch, p') \<Rightarrow> map_option (\<lambda>(rest, p''). (batch @ rest, p'')) (drain_ticks k p')))"

lemma drain_ticks_eq:
  assumes "0 \<le> drainBurst p"
  shows "drain_ticks k p = Some (take (k * nat (drainBurst p)) (pq p),
    p\<lparr>pq := drop (k * nat (drainBurst p)) (pq p)\<rparr>)"
  using assms
proof (induction k arbitrary: p)
  case (Suc k)
  let ?b = "nat (drainBurst p)"
  show ?case
  proof (cases "pq p = []")
    case True
    then show ?thesis using Suc by (simp add: RunParkDrain_tick_def)
  next
    case False
    let ?p = "p\<lparr>pq := drop ?b (pq p)\<rparr>"
    have "drain_ticks k ?p = Some (take (k * ?b) (drop ?b (pq p)), ?p\<lparr>pq := drop (k * ?b) (drop ?b (pq p))\<rparr>)"
      using Suc.IH [of ?p] Suc.prems by simp
    with False Suc.prems show ?thesis
      by (simp add: RunParkDrain_tick_def drainOneBurst_eq take_add add.commute)
  qed
qed simp

section \<open>Properties\<close>

text \<open>
  C6. No ghost entries and no lost requests in the park queue. In every interleaving of arrivals,
  hold timeouts, client cancellations, shutdown and drain bursts: the queue never exceeds its
  ceiling; each entry belongs to exactly one goroutine still waiting on it; a goroutine still waiting
  is either queued or has been taken by the drain loop; a returned goroutine is off the queue, and
  it returned \<^verbatim>\<open>parkReleased\<close> exactly when the drain loop took it, so a release that raced a timeout
  is never reported as an expiry; and no channel is closed twice.
\<close>

theorem park_no_ghost_no_loss:
  assumes "reach park_start park_step S"
  shows "int (length (pq (pk S))) \<le> maxQueue (pk S)
     \<and> (\<forall>pr \<in> set (pq (pk S)). \<exists>!t. waits_on (ppcs S t) pr)
     \<and> (\<forall>t pr. waits_on (ppcs S t) pr \<longrightarrow> (pr \<in> set (pq (pk S))) \<noteq> taken S pr)
     \<and> (\<forall>t pr r. ppcs S t = PDone pr r \<longrightarrow> pr \<notin> set (pq (pk S)) \<and> (r = parkReleased \<longleftrightarrow> taken S pr))
     \<and> \<not> ppanic S"
proof -
  have inv: "park_inv S" using assms by (rule parking.reach_inv)
  note I = park_invD [OF inv]
  have "\<exists>!t. waits_on (ppcs S t) pr" if "pr \<in> set (pq (pk S))" for pr
    using I(10) [OF that] I(9) waits_on_owns by blast
  moreover have "(pr \<in> set (pq (pk S))) \<noteq> taken S pr" if "waits_on (ppcs S t) pr" for t pr
    using I(12) [OF that] queued_not_taken [OF inv] by blast
  ultimately show ?thesis using I(2,6,13) by blast
qed

definition park_demo :: park_sys where
  "park_demo = \<lparr>psch = SetShutdownContext None (SetParkConfig 600000000000 32 8 New), php = empty_heap,
     ppcs = (\<lambda>_. POut), drain = DIdle, ppanic = False\<rparr>"

theorem park_no_ghost_no_loss_witness:
  "\<exists>S. reach park_start park_step S \<and> pq (pk S) \<noteq> [] \<and> int (length (pq (pk S))) \<le> 32
     \<and> (\<forall>pr \<in> set (pq (pk S)). \<exists>!t. waits_on (ppcs S t) pr)"
proof -
  let ?pr = "\<lparr>enqueuedAt = 5, pr_release = 0\<rparr>"
  let ?S = "(set_pk park_demo ((pk park_demo)\<lparr>pq := [?pr]\<rparr>))
    \<lparr>php := \<lparr>nextc = 1, closedc = {}\<rparr>, ppcs := (ppcs park_demo)(0 := PWait ?pr)\<rparr>"
  have start: "park_start park_demo" unfolding park_start_def park_demo_def by blast
  have entered: "parkFor_enter 5 (pk park_demo) (php park_demo)
      = (Some ?pr, (pk park_demo)\<lparr>pq := [?pr]\<rparr>, \<lparr>nextc = 1, closedc = {}\<rparr>)"
    by (simp add: park_demo_def SetShutdownContext_def SetParkConfig_def New_def parkFor_enter_def
        make_chan_def empty_heap_def Let_def)
  have "ppcs park_demo 0 = POut" by (simp add: park_demo_def)
  from park_step.enter [OF this entered] have r: "reach park_start park_step ?S"
    by (intro reach_step [OF reach_start [of park_start, OF start]])
  from park_no_ghost_no_loss [OF r] show ?thesis
    using r by (intro exI [of _ ?S]) (simp add: park_demo_def SetShutdownContext_def SetParkConfig_def New_def)
qed

text \<open>
  Draining is first in, first out and complete. With burst size \<open>b \<ge> 1\<close>, \<open>k\<close> drain ticks outside
  a yield release exactly the first \<open>k * b\<close> parked requests in arrival order, so a queue of \<open>n\<close>
  requests is empty after any \<open>k\<close> ticks with \<open>n \<le> k * b\<close>; one tick never releases more than \<open>b\<close>.
\<close>

theorem drain_fifo_complete:
  assumes "1 \<le> drainBurst p"
  shows "\<exists>p'. drain_ticks k p = Some (take (k * nat (drainBurst p)) (pq p), p')
     \<and> pq p' = drop (k * nat (drainBurst p)) (pq p)
     \<and> (length (pq p) \<le> k * nat (drainBurst p) \<longrightarrow> pq p' = [])"
  using drain_ticks_eq [of p k] assms by simp

theorem drain_fifo_complete_witness:
  "\<exists>p'. drain_ticks 2 \<lparr>pq = map (\<lambda>i. \<lparr>enqueuedAt = int i, pr_release = i\<rparr>) [0..<9], maxQueue = 32,
       hold = 600, drainBurst = 8\<rparr>
     = Some (map (\<lambda>i. \<lparr>enqueuedAt = int i, pr_release = i\<rparr>) [0..<9], p') \<and> pq p' = []"
proof -
  let ?p = "\<lparr>pq = map (\<lambda>i. \<lparr>enqueuedAt = int i, pr_release = i\<rparr>) [0..<9], maxQueue = 32,
       hold = 600, drainBurst = 8\<rparr> :: parker"
  have "1 \<le> drainBurst ?p" by simp
  from drain_fifo_complete [OF this, of 2] show ?thesis by auto
qed

end
