(* ===== verification/Queue_Gate.thy ===== *)
theory Queue_Gate
  imports Queue_Park
begin

text \<open>
  \<^verbatim>\<open>internal/queue/gate.go\<close>: the HTTP wrapper that admits one request at a time through the
  scheduler. The handler is translated as a whole; what it asks of its surroundings on each trip
  round the admission loop (is the broker yielding, what did \<^verbatim>\<open>parkFor\<close> return, did \<^verbatim>\<open>Acquire\<close>
  succeed, what time is it) is a record of observations, one per trip, so that every behaviour of
  the yield controller, the scheduler, the clock and the upstream is some list of observations.
\<close>

section \<open>Request ids\<close>

text \<open>\<^verbatim>\<open>hex.EncodeToString\<close>, lower case, two digits per byte.\<close>

definition hex_digit :: "nat \<Rightarrow> char" where
  "hex_digit d = (if d < 10 then char_of (48 + d) else char_of (87 + d))"

fun hex_EncodeToString :: "nat list \<Rightarrow> string" where
  "hex_EncodeToString [] = []"
| "hex_EncodeToString (b # bs) = hex_digit (b div 16) # hex_digit (b mod 16) # hex_EncodeToString bs"

text \<open>The argument is what \<^verbatim>\<open>rand.Read\<close> delivered, \<open>None\<close> on its error.\<close>

definition newRequestID :: "nat list option \<Rightarrow> string" where
  "newRequestID rnd = (case rnd of None \<Rightarrow> ''00000000'' | Some b \<Rightarrow> hex_EncodeToString b)"

section \<open>The handler\<close>

record gate_cfg =
  g_class :: Class
  g_wait :: duration
  g_upstreamTimeout :: duration
  g_rec :: bool                \<comment> \<open>a Recorder is attached\<close>

text \<open>What one trip round the admission loop observes.\<close>

record gate_obs =
  o_yield1 :: "string option"  \<comment> \<open>\<^verbatim>\<open>adm.Yielding()\<close> at the top, with its reason\<close>
  o_parkEnabled :: bool        \<comment> \<open>\<^verbatim>\<open>s.parkEnabled()\<close>\<close>
  o_park :: parkResult         \<comment> \<open>what \<^verbatim>\<open>s.parkFor\<close> returned, when it is called\<close>
  o_parkFor :: duration        \<comment> \<open>\<^verbatim>\<open>time.Since(t0)\<close> after it\<close>
  o_since :: duration          \<comment> \<open>\<^verbatim>\<open>time.Since(start)\<close> where the trip reads the clock\<close>
  o_acquire :: bool            \<comment> \<open>\<^verbatim>\<open>s.Acquire\<close> returned nil\<close>
  o_yield2 :: bool             \<comment> \<open>\<^verbatim>\<open>adm.Yielding()\<close> after acquiring\<close>

text \<open>
  What ended the upstream call's context, if anything did; the first cause sticks. The context is
  derived from the client's, with a timer when \<^verbatim>\<open>upstreamTimeout\<close> is positive, and a goroutine
  cancels it when the serve context is done.
\<close>

datatype ctx_end = Live | ClientEnded ctx_err | TimerFired | ServeEnded

text \<open>What the handler observes of the upstream call and after it.\<close>

record serve_obs =
  v_response :: "response \<Rightarrow> response"  \<comment> \<open>what \<^verbatim>\<open>next.ServeHTTP\<close> wrote\<close>
  v_panic :: bool                       \<comment> \<open>\<^verbatim>\<open>next.ServeHTTP\<close> panicked (an aborted copy does)\<close>
  v_serveDone :: bool                   \<comment> \<open>the serve context is done afterwards\<close>
  v_ctx :: ctx_end                      \<comment> \<open>what ended the call's context\<close>

text \<open>The calls the handler makes, in order.\<close>

datatype gate_ev =
    GPark parkResult
  | GAcquire bool
  | GRelease
  | GServe
  | GRecord string string duration
  | GRecordPark duration

record gate_st =
  w_resp :: response
  g_trace :: "gate_ev list"
  parkWait :: duration
  waited :: duration
  wasParked :: bool

definition emit :: "gate_ev \<Rightarrow> gate_st \<Rightarrow> gate_st" where
  "emit e st = st\<lparr>g_trace := g_trace st @ [e]\<rparr>"

definition record_outcome :: "gate_cfg \<Rightarrow> string \<Rightarrow> duration \<Rightarrow> gate_st \<Rightarrow> gate_st" where
  "record_outcome cfg outcome d st =
     (if g_rec cfg then emit (GRecord (Class_String (g_class cfg)) outcome d) st else st)"

definition recordPark :: "gate_cfg \<Rightarrow> duration \<Rightarrow> gate_st \<Rightarrow> gate_st" where
  "recordPark cfg d st = (if g_rec cfg then emit (GRecordPark d) st else st)"

text \<open>The seconds of the Retry-After header.\<close>

definition retry_secs :: "duration \<Rightarrow> int" where
  "retry_secs d = (let secs = go_div (go_round d second) second in if secs < 1 then 1 else secs)"

definition deferRequest ::
    "gate_cfg \<Rightarrow> string \<Rightarrow> string \<Rightarrow> string \<Rightarrow> duration \<Rightarrow> duration \<Rightarrow> gate_st \<Rightarrow> gate_st" where
  "deferRequest cfg stat outcome reason retryAfter d st =
     (let w1 = set_header ''Retry-After'' (itoa (retry_secs retryAfter)) (w_resp st);
          w2 = set_header ''X-Broker-Status'' stat w1;
          w3 = http_Error w2 (''broker: '' @ reason) 503
      in record_outcome cfg outcome d (st\<lparr>w_resp := w3\<rparr>))"

text \<open>One trip round the loop: the request is answered, loops again, or is admitted with a slot.\<close>

datatype trip = Answered gate_st | Again gate_st | Admitted gate_st

definition gate_trip :: "gate_cfg \<Rightarrow> gate_obs \<Rightarrow> gate_st \<Rightarrow> trip" where
  "gate_trip cfg ob st =
     (case o_yield1 ob of
        Some reason \<Rightarrow>
          (if g_class cfg \<noteq> Batch \<or> \<not> o_parkEnabled ob
           then Answered (deferRequest cfg ''deferred'' ''deferred'' (''yielding GPU: '' @ reason)
                  (g_wait cfg) (o_since ob) st)
           else let st' = emit (GPark (o_park ob)) st in
             (case o_park ob of
                parkReleased \<Rightarrow> Again (st'\<lparr>wasParked := True, parkWait := parkWait st' + o_parkFor ob\<rparr>)
              | parkExpired \<Rightarrow> Answered (deferRequest cfg ''deferred'' ''expired'' ''park hold exceeded''
                  (g_wait cfg) (o_since ob) st')
              | parkRejected \<Rightarrow> Answered (deferRequest cfg ''deferred'' ''park_rejected'' ''park queue full''
                  (g_wait cfg) 0 st')
              | parkCanceled \<Rightarrow> Answered (record_outcome cfg ''canceled'' (o_since ob) st')
              | parkShutdown \<Rightarrow> Answered (deferRequest cfg ''crash_failed'' ''crash_failed''
                  ''broker shutting down'' (g_wait cfg) (o_since ob) st')))
      | None \<Rightarrow>
          (let st1 = (emit (GAcquire (o_acquire ob)) st)\<lparr>waited := o_since ob\<rparr> in
           if \<not> o_acquire ob
           then Answered (deferRequest cfg ''deferred'' ''deferred'' ''GPU busy: wait budget exceeded''
                  (g_wait cfg) (waited st1) st1)
           else if o_yield2 ob
           then (let st2 = emit GRelease st1 in
                 if g_class cfg \<noteq> Batch \<or> \<not> o_parkEnabled ob
                 then Answered (deferRequest cfg ''deferred'' ''deferred'' ''yielding GPU''
                        (g_wait cfg) (waited st2) st2)
                 else Again st2)
           else Admitted st1))"

text \<open>
  The admitted part: the optimistic headers, the upstream call, the final outcome read from the
  serve state, the records, and the deferred \<^verbatim>\<open>Release\<close>, which also runs when the upstream handler
  panics.
\<close>

definition ctx_Err :: "gate_cfg \<Rightarrow> serve_obs \<Rightarrow> ctx_err option" where
  "ctx_Err cfg v =
     (case v_ctx v of
        Live \<Rightarrow> None
      | ClientEnded e \<Rightarrow> Some e
      | TimerFired \<Rightarrow> (if g_upstreamTimeout cfg > 0 then Some DeadlineExceeded else None)
      | ServeEnded \<Rightarrow> Some Canceled)"

definition final_outcome :: "gate_cfg \<Rightarrow> serve_obs \<Rightarrow> string" where
  "final_outcome cfg v =
     (if v_serveDone v then ''preempted''
      else if ctx_Err cfg v = Some DeadlineExceeded then ''upstream_timeout'' else ''served'')"

definition gate_serve :: "gate_cfg \<Rightarrow> serve_obs \<Rightarrow> gate_st \<Rightarrow> gate_st" where
  "gate_serve cfg v st =
     (let w1 = set_header ''X-Broker-Status'' ''served'' (w_resp st);
          w2 = set_header ''X-Broker-Wait-Ms'' (itoa (milliseconds (waited st))) w1;
          w3 = set_header ''Trailer:X-Broker-Status'' ''served'' w2;
          st1 = emit GServe (st\<lparr>w_resp := v_response v w3\<rparr>)
      in if v_panic v then emit GRelease st1
         else let outcome = final_outcome cfg v;
                  st2 = st1\<lparr>w_resp := set_header ''Trailer:X-Broker-Status'' outcome (w_resp st1)\<rparr>;
                  st3 = (if wasParked st2 \<and> outcome = ''served'' then recordPark cfg (parkWait st2) st2 else st2);
                  st4 = record_outcome cfg outcome (waited st3) st3
              in emit GRelease st4)"

fun gate_loop :: "gate_cfg \<Rightarrow> serve_obs \<Rightarrow> gate_obs list \<Rightarrow> gate_st \<Rightarrow> gate_st option" where
  "gate_loop cfg v [] st = None"
| "gate_loop cfg v (ob # obs) st =
     (case gate_trip cfg ob st of
        Answered st' \<Rightarrow> Some st'
      | Again st' \<Rightarrow> gate_loop cfg v obs st'
      | Admitted st' \<Rightarrow> Some (gate_serve cfg v st'))"

definition gate_init :: "string \<Rightarrow> gate_st" where
  "gate_init reqID =
     \<lparr>w_resp = set_header ''X-Broker-Request-Id'' reqID empty_response, g_trace = [],
      parkWait = 0, waited = 0, wasParked = False\<rparr>"

text \<open>The handler returned by \<^verbatim>\<open>Gate\<close>; \<open>None\<close> while the observations leave it still looping.\<close>

definition Gate :: "gate_cfg \<Rightarrow> nat list option \<Rightarrow> gate_obs list \<Rightarrow> serve_obs \<Rightarrow> gate_st option" where
  "Gate cfg rnd obs v = gate_loop cfg v obs (gate_init (newRequestID rnd))"

section \<open>What a run of the handler looks like\<close>

text \<open>The slot discipline as a monitor over the calls: held or not, and which calls are legal.\<close>

fun slot_run :: "bool \<Rightarrow> gate_ev list \<Rightarrow> bool option" where
  "slot_run held [] = Some held"
| "slot_run held (GAcquire ok # es) = (if held then None else slot_run ok es)"
| "slot_run held (GRelease # es) = (if held then slot_run False es else None)"
| "slot_run held (GServe # es) = (if held then slot_run True es else None)"
| "slot_run held (GPark r # es) = (if held then None else slot_run False es)"
| "slot_run held (e # es) = slot_run held es"

lemma slot_run_append:
  "slot_run b (es @ fs) = (case slot_run b es of None \<Rightarrow> None | Some b' \<Rightarrow> slot_run b' fs)"
  by (induction b es rule: slot_run.induct) auto

definition is_record :: "gate_ev \<Rightarrow> bool" where
  "is_record e = (case e of GRecord _ _ _ \<Rightarrow> True | _ \<Rightarrow> False)"

text \<open>The (class, outcome) pairs tallied, in order.\<close>

definition outcomes :: "gate_st \<Rightarrow> string list" where
  "outcomes st = map (\<lambda>e. case e of GRecord _ out _ \<Rightarrow> out | _ \<Rightarrow> []) (filter is_record (g_trace st))"

text \<open>An observation that ends the loop, one way or another.\<close>

definition decided :: "gate_cfg \<Rightarrow> gate_obs \<Rightarrow> bool" where
  "decided cfg ob =
     (g_class cfg \<noteq> Batch \<or> \<not> o_parkEnabled ob
      \<or> (if o_yield1 ob \<noteq> None then o_park ob \<noteq> parkReleased else \<not> (o_acquire ob \<and> o_yield2 ob)))"

lemmas gate_defs = gate_trip_def deferRequest_def record_outcome_def recordPark_def emit_def Let_def

lemma gate_trip_Again_iff:
  "(\<exists>st'. gate_trip cfg ob st = Again st') \<longleftrightarrow> \<not> decided cfg ob"
  by (auto simp: gate_defs decided_def split: option.splits parkResult.splits)

lemma gate_loop_returns_iff: "gate_loop cfg v obs st \<noteq> None \<longleftrightarrow> (\<exists>ob\<in>set obs. decided cfg ob)"
proof (induction obs arbitrary: st)
  case Nil
  then show ?case by simp
next
  case (Cons ob obs)
  then show ?case
    using gate_trip_Again_iff [of cfg ob st] by (cases "gate_trip cfg ob st") auto
qed

text \<open>The rule every fact about the handler is proved by: an invariant of the loop and its exits.\<close>

lemma gate_loop_rule:
  assumes "gate_loop cfg v obs st = Some st'" and "I st"
    and "\<And>ob st st1. I st \<Longrightarrow> gate_trip cfg ob st = Again st1 \<Longrightarrow> I st1"
    and "\<And>ob st st1. I st \<Longrightarrow> gate_trip cfg ob st = Answered st1 \<Longrightarrow> Q st1"
    and "\<And>ob st st1. I st \<Longrightarrow> gate_trip cfg ob st = Admitted st1 \<Longrightarrow> Q (gate_serve cfg v st1)"
  shows "Q st'"
  using assms(1,2)
proof (induction obs arbitrary: st)
  case Nil
  then show ?case by simp
next
  case (Cons ob obs)
  then show ?case using assms(3-5) by (cases "gate_trip cfg ob st") auto
qed

text \<open>While the loop runs nothing is written or tallied and no slot is held.\<close>

definition looping :: "string \<Rightarrow> gate_st \<Rightarrow> bool" where
  "looping reqID st \<longleftrightarrow>
     slot_run False (g_trace st) = Some False \<and> filter is_record (g_trace st) = []
     \<and> GServe \<notin> set (g_trace st) \<and> (\<forall>d. GRecordPark d \<notin> set (g_trace st))
     \<and> wasParked st = (GPark parkReleased \<in> set (g_trace st))
     \<and> w_resp st = w_resp (gate_init reqID)"

lemma looping_init: "looping reqID (gate_init reqID)"
  by (simp add: looping_def gate_init_def)

lemma looping_Again: "looping i st \<Longrightarrow> gate_trip cfg ob st = Again st1 \<Longrightarrow> looping i st1"
  by (auto simp: looping_def gate_defs slot_run_append is_record_def
      split: option.splits parkResult.splits if_splits)

text \<open>The three ways out of the loop, with what each has done.\<close>

lemma looping_Answered:
  assumes "looping i st" and "gate_trip cfg ob st = Answered st1"
  shows "slot_run False (g_trace st1) = Some False" and "GServe \<notin> set (g_trace st1)"
    and "\<forall>d. GRecordPark d \<notin> set (g_trace st1)"
  using assms by (auto simp: looping_def gate_defs slot_run_append
      split: option.splits parkResult.splits if_splits)

lemma looping_Admitted:
  assumes "looping i st" and "gate_trip cfg ob st = Admitted st1"
  shows "slot_run False (g_trace st1) = Some True" and "filter is_record (g_trace st1) = []"
    and "\<forall>d. GRecordPark d \<notin> set (g_trace st1)" and "o_yield2 ob = False"
    and "wasParked st1 = (GPark parkReleased \<in> set (g_trace st1))"
  using assms by (auto simp: looping_def gate_defs slot_run_append is_record_def
      split: option.splits parkResult.splits if_splits)

lemma gate_serve_trace:
  "\<exists>rest. g_trace (gate_serve cfg v st) = g_trace st @ GServe # rest @ [GRelease]
     \<and> (\<forall>e\<in>set rest. is_record e \<or> (\<exists>d. e = GRecordPark d))
     \<and> map (\<lambda>e. case e of GRecord _ out _ \<Rightarrow> out | _ \<Rightarrow> []) (filter is_record rest)
         = (if g_rec cfg \<and> \<not> v_panic v then [final_outcome cfg v] else [])
     \<and> ((\<exists>d. GRecordPark d \<in> set rest) \<longleftrightarrow>
          g_rec cfg \<and> \<not> v_panic v \<and> wasParked st \<and> final_outcome cfg v = ''served'')"
  by (auto simp: gate_serve_def gate_defs is_record_def)

lemma slot_run_records:
  "\<forall>e\<in>set es. is_record e \<or> (\<exists>d. e = GRecordPark d) \<Longrightarrow> slot_run b es = Some b"
proof (induction es)
  case Nil
  then show ?case by simp
next
  case (Cons e es)
  then show ?case by (cases e) (auto simp: is_record_def)
qed

lemma gate_serve_slot:
  assumes "slot_run False (g_trace st) = Some True"
  shows "slot_run False (g_trace (gate_serve cfg v st)) = Some False"
proof -
  obtain rest where "g_trace (gate_serve cfg v st) = g_trace st @ GServe # rest @ [GRelease]"
    and "\<forall>e\<in>set rest. is_record e \<or> (\<exists>d. e = GRecordPark d)"
    using gate_serve_trace [of cfg v st] by auto
  then show ?thesis using assms by (simp add: slot_run_append slot_run_records)
qed

text \<open>A refusal is the client's silence or one of the five calls of \<^verbatim>\<open>deferRequest\<close>.\<close>

definition refusal_pairs :: "(string \<times> string) set" where
  "refusal_pairs = {(''deferred'', ''deferred''), (''expired'', ''deferred''),
     (''park_rejected'', ''deferred''), (''crash_failed'', ''crash_failed'')}"

lemma looping_refusal:
  assumes "looping i st" and "gate_trip cfg ob st = Answered st1"
  obtains (gone) st0 d where "st1 = record_outcome cfg ''canceled'' d st0"
      "w_resp st0 = w_resp (gate_init i)" "filter is_record (g_trace st0) = []"
  | (refused) st0 out stat reason d where "st1 = deferRequest cfg stat out reason (g_wait cfg) d st0"
      "(out, stat) \<in> refusal_pairs"
      "w_resp st0 = w_resp (gate_init i)" "filter is_record (g_trace st0) = []"
  using assms unfolding looping_def gate_trip_def emit_def Let_def refusal_pairs_def
  by (auto simp: is_record_def split: option.splits parkResult.splits if_splits)

lemma record_outcome_once:
  assumes "filter is_record (g_trace st) = []" and "g_rec cfg"
  shows "outcomes (record_outcome cfg out d st) = [out]"
  using assms by (simp add: outcomes_def record_outcome_def emit_def is_record_def)

lemma record_outcome_resp [simp]: "w_resp (record_outcome cfg out d st) = w_resp st"
  by (simp add: record_outcome_def emit_def)

lemma deferRequest_resp:
  assumes "w_resp st = w_resp (gate_init i)"
  shows "status (w_resp (deferRequest cfg stat out reason r d st)) = Some 503"
    and "hdrs (w_resp (deferRequest cfg stat out reason r d st)) ''X-Broker-Status'' = Some stat"
    and "hdrs (w_resp (deferRequest cfg stat out reason r d st)) ''X-Broker-Request-Id'' = Some i"
    and "hdrs (w_resp (deferRequest cfg stat out reason r d st)) ''Retry-After'' = Some (itoa (retry_secs r))"
  using assms by (simp_all add: deferRequest_def gate_init_def response_defs Let_def)

lemma deferRequest_once:
  assumes "filter is_record (g_trace st) = []" and "g_rec cfg"
  shows "outcomes (deferRequest cfg stat out reason r d st) = [out]"
  using assms by (simp add: deferRequest_def Let_def record_outcome_once)

lemma retry_secs_ge_1: "1 \<le> retry_secs d"
  by (simp add: retry_secs_def Let_def)

section \<open>Properties\<close>

text \<open>
  C7. The slot is never leaked and never held while parked. Whatever the yield controller, the
  scheduler, the clock, the client and the upstream do, the calls of a finished request obey the
  slot discipline: it acquires only while holding nothing, calls the upstream only while holding
  the slot, never parks while holding it, and every successful \<^verbatim>\<open>Acquire\<close> is matched by exactly one
  \<^verbatim>\<open>Release\<close>, also when the upstream handler panics.
\<close>

theorem gate_slot_discipline:
  assumes "Gate cfg rnd obs v = Some st"
  shows "slot_run False (g_trace st) = Some False"
  using assms unfolding Gate_def
proof (rule gate_loop_rule [where I = "looping (newRequestID rnd)"])
  show "looping (newRequestID rnd) (gate_init (newRequestID rnd))" by (rule looping_init)
qed (auto intro: looping_Again dest: looping_Answered(1) looping_Admitted(1) gate_serve_slot)

definition demo_cfg :: gate_cfg where
  "demo_cfg = \<lparr>g_class = Batch, g_wait = 1500000000, g_upstreamTimeout = 0, g_rec = True\<rparr>"

definition demo_parked :: gate_obs where
  "demo_parked = \<lparr>o_yield1 = Some ''gaming'', o_parkEnabled = True, o_park = parkReleased, o_parkFor = 7,
     o_since = 7, o_acquire = True, o_yield2 = False\<rparr>"

definition demo_admitted :: gate_obs where
  "demo_admitted = demo_parked\<lparr>o_yield1 := None, o_since := 9\<rparr>"

definition demo_serve :: serve_obs where
  "demo_serve = \<lparr>v_response = (\<lambda>w. write_body ''ok'' w), v_panic = False, v_serveDone = False, v_ctx = Live\<rparr>"

lemmas gate_demo_defs = demo_cfg_def demo_parked_def demo_admitted_def demo_serve_def

theorem gate_slot_discipline_witness:
  "\<exists>st. Gate demo_cfg None [demo_parked, demo_admitted] (demo_serve\<lparr>v_panic := True\<rparr>) = Some st
     \<and> g_trace st = [GPark parkReleased, GAcquire True, GServe, GRelease]
     \<and> slot_run False (g_trace st) = Some False"
proof -
  obtain st where st: "Gate demo_cfg None [demo_parked, demo_admitted] (demo_serve\<lparr>v_panic := True\<rparr>) = Some st"
    "g_trace st = [GPark parkReleased, GAcquire True, GServe, GRelease]"
    by (simp add: Gate_def gate_init_def gate_serve_def gate_defs gate_demo_defs)
  then show ?thesis using gate_slot_discipline [OF st(1)] by blast
qed

text \<open>
  C9. The admission loop ends, and only a parked Batch request goes round it twice. The handler
  returns as soon as one trip is decisive, and only then; for a class other than Batch, or with
  parking off, the very first trip is decisive and the request never parks, so an Interactive
  request is always answered at once or admitted.
\<close>

theorem gate_terminates:
  "(Gate cfg rnd obs v \<noteq> None \<longleftrightarrow> (\<exists>ob\<in>set obs. decided cfg ob))
   \<and> (g_class cfg \<noteq> Batch \<or> \<not> o_parkEnabled ob \<longrightarrow>
        (\<exists>st. Gate cfg rnd (ob # obs) v = Some st \<and> (\<forall>r. GPark r \<notin> set (g_trace st))))"
proof -
  have "\<exists>st. Gate cfg rnd (ob # obs) v = Some st \<and> (\<forall>r. GPark r \<notin> set (g_trace st))"
    if "g_class cfg \<noteq> Batch \<or> \<not> o_parkEnabled ob"
    using that by (auto simp: Gate_def gate_init_def gate_serve_def gate_defs split: option.splits)
  moreover have "Gate cfg rnd obs v \<noteq> None \<longleftrightarrow> (\<exists>ob\<in>set obs. decided cfg ob)"
    unfolding Gate_def by (rule gate_loop_returns_iff)
  ultimately show ?thesis by blast
qed

theorem gate_terminates_witness:
  "\<exists>st. Gate (demo_cfg\<lparr>g_class := Interactive\<rparr>) None [demo_parked] demo_serve = Some st
     \<and> (\<forall>r. GPark r \<notin> set (g_trace st))"
  using gate_terminates [of "demo_cfg\<lparr>g_class := Interactive\<rparr>" None "[]" demo_serve demo_parked] by simp

text \<open>
  C8. Every refusal is an honest, retryable 503. A finished request that did not reach the upstream
  is tallied exactly once; either the client was gone (outcome \<^verbatim>\<open>canceled\<close>, nothing written) or the
  answer is a 503 that carries the request id, a Retry-After of at least one second and the status
  \<^verbatim>\<open>deferred\<close>, except for a shutdown, whose status and outcome are both \<^verbatim>\<open>crash_failed\<close>.
\<close>

theorem gate_refusal:
  assumes "Gate cfg rnd obs v = Some st" and "GServe \<notin> set (g_trace st)" and "g_rec cfg"
  shows "(outcomes st = [''canceled''] \<and> status (w_resp st) = None \<and> body (w_resp st) = [])
     \<or> (\<exists>stat out. outcomes st = [out]
          \<and> (out, stat) \<in> refusal_pairs
          \<and> status (w_resp st) = Some 503 \<and> hdrs (w_resp st) ''X-Broker-Status'' = Some stat
          \<and> hdrs (w_resp st) ''X-Broker-Request-Id'' = Some (newRequestID rnd)
          \<and> (\<exists>secs\<ge>1. hdrs (w_resp st) ''Retry-After'' = Some (itoa secs)))"
    (is "?Q st")
proof -
  have Q: "?Q st1"
    if "looping (newRequestID rnd) st" and "gate_trip cfg ob st = Answered st1" for ob st st1
    using that
  proof (cases rule: looping_refusal)
    case (gone st0 d)
    then show ?thesis
      using record_outcome_once \<open>g_rec cfg\<close> by (simp add: gate_init_def response_defs)
  next
    case (refused st0 out stat reason d)
    note facts = deferRequest_once [OF refused(4) \<open>g_rec cfg\<close>] deferRequest_resp [OF refused(3)]
      refused(2) retry_secs_ge_1
    show ?thesis
      unfolding refused(1) by (rule disjI2) (intro exI conjI; rule facts)
  qed
  have "GServe \<notin> set (g_trace st) \<longrightarrow> ?Q st"
    using assms(1) unfolding Gate_def
  proof (rule gate_loop_rule [where I = "looping (newRequestID rnd)"])
    show "looping (newRequestID rnd) (gate_init (newRequestID rnd))" by (rule looping_init)
    show "GServe \<notin> set (g_trace (gate_serve cfg v st1)) \<longrightarrow> ?Q (gate_serve cfg v st1)" for st1
      using gate_serve_trace [of cfg v st1] by auto
    show "GServe \<notin> set (g_trace st1) \<longrightarrow> ?Q st1"
      if "looping (newRequestID rnd) st" "gate_trip cfg ob st = Answered st1" for ob st st1
      using Q [OF that] by blast
  qed (rule looping_Again)
  with assms(2) show ?thesis by blast
qed

theorem gate_refusal_witness:
  "\<exists>st. Gate demo_cfg (Some [1, 171]) [demo_parked, demo_parked\<lparr>o_park := parkExpired\<rparr>] demo_serve = Some st
     \<and> outcomes st = [''expired''] \<and> hdrs (w_resp st) ''X-Broker-Status'' = Some ''deferred''"
proof -
  let ?G = "Gate demo_cfg (Some [1, 171]) [demo_parked, demo_parked\<lparr>o_park := parkExpired\<rparr>] demo_serve"
  obtain st where st: "?G = Some st" "GServe \<notin> set (g_trace st)" "outcomes st = [''expired'']"
    by (simp add: Gate_def gate_init_def gate_defs gate_demo_defs outcomes_def is_record_def)
  have "g_rec demo_cfg" by (simp add: demo_cfg_def)
  from gate_refusal [OF st(1,2) this] st(1,3) show ?thesis by (auto simp: refusal_pairs_def)
qed

text \<open>
  The outcome of an admitted request is told truthfully. A request that reached the upstream and
  returned is tallied once under its final outcome, which is also the trailer the client gets:
  \<^verbatim>\<open>preempted\<close> whenever the serve context ended, even if the upstream bound fired too, then
  \<^verbatim>\<open>upstream_timeout\<close>, otherwise \<^verbatim>\<open>served\<close>; park time is recorded exactly for a request that was
  parked and served; and a lane without an upstream bound never blames its own timer.
\<close>

theorem gate_outcome:
  assumes "Gate cfg rnd obs v = Some st" and "GServe \<in> set (g_trace st)" and "\<not> v_panic v" and "g_rec cfg"
  shows "outcomes st = [final_outcome cfg v]
     \<and> hdrs (w_resp st) ''Trailer:X-Broker-Status'' = Some (final_outcome cfg v)
     \<and> (final_outcome cfg v = ''preempted'' \<longleftrightarrow> v_serveDone v)
     \<and> ((\<exists>d. GRecordPark d \<in> set (g_trace st)) \<longleftrightarrow>
          GPark parkReleased \<in> set (g_trace st) \<and> final_outcome cfg v = ''served'')
     \<and> (g_upstreamTimeout cfg \<le> 0 \<and> v_ctx v = TimerFired \<longrightarrow> final_outcome cfg v \<noteq> ''upstream_timeout'')"
    (is "?Q st")
proof -
  have Q: "?Q (gate_serve cfg v st1)"
    if "looping (newRequestID rnd) st" and "gate_trip cfg ob st = Admitted st1" for ob st st1
    using gate_serve_trace [of cfg v st1] looping_Admitted [OF that] assms(3,4)
    by (auto simp: outcomes_def gate_serve_def gate_defs is_record_def response_defs final_outcome_def ctx_Err_def)
  have "GServe \<in> set (g_trace st) \<longrightarrow> ?Q st"
    using assms(1) unfolding Gate_def
  proof (rule gate_loop_rule [where I = "looping (newRequestID rnd)"])
    show "looping (newRequestID rnd) (gate_init (newRequestID rnd))" by (rule looping_init)
    show "GServe \<in> set (g_trace st1) \<longrightarrow> ?Q st1"
      if "looping (newRequestID rnd) st" "gate_trip cfg ob st = Answered st1" for ob st st1
      using looping_Answered(2) [OF that] by blast
    show "GServe \<in> set (g_trace (gate_serve cfg v st1)) \<longrightarrow> ?Q (gate_serve cfg v st1)"
      if "looping (newRequestID rnd) st" "gate_trip cfg ob st = Admitted st1" for ob st st1
      using Q [OF that] by blast
  qed (rule looping_Again)
  with assms(2) show ?thesis by blast
qed

theorem gate_outcome_witness:
  "\<exists>st. Gate demo_cfg None [demo_parked, demo_admitted]
       (demo_serve\<lparr>v_serveDone := True, v_ctx := TimerFired\<rparr>) = Some st \<and> outcomes st = [''preempted'']"
proof -
  let ?v = "demo_serve\<lparr>v_serveDone := True, v_ctx := TimerFired\<rparr>"
  obtain st where st: "Gate demo_cfg None [demo_parked, demo_admitted] ?v = Some st" "GServe \<in> set (g_trace st)"
    by (simp add: Gate_def gate_init_def gate_serve_def gate_defs gate_demo_defs)
  moreover have "\<not> v_panic ?v" "g_rec demo_cfg" by (simp_all add: gate_demo_defs)
  ultimately show ?thesis
    using gate_outcome [OF st, simplified] by (auto simp: final_outcome_def)
qed

end
