(* ===== verification/Metrics_Registry.thy ===== *)
theory Metrics_Registry
  imports Queue_Gate Job_Store "HOL-Library.AList" "HOL-Library.Char_ord" "HOL-Library.List_Lexorder" "HOL-Library.Multiset"
begin

text \<open>
  \<^verbatim>\<open>internal/metrics/metrics.go\<close>: the counters, what the gate adds to them, and their text. The sums of
  milliseconds are floats: their addition is the argument \<open>addMs\<close>, which adds a duration, and \<open>fmtG\<close> prints
  a sum in seconds; \<open>quote\<close> is \<^verbatim>\<open>%q\<close>.
\<close>

section \<open>The registry\<close>

record 'f Registry =
  rg_counts :: "(string \<times> int) list"
  rg_waitSumMs :: 'f
  rg_waitCount :: int
  rg_parkWaitSumMs :: 'f
  rg_parkWaitCount :: int
  rg_jobCounts :: "(string \<times> int) list"
  rg_jobRunSumMs :: 'f
  rg_jobRunCount :: int
  rg_detectErrors :: int

definition metrics_New :: "'f \<Rightarrow> 'f Registry" where
  "metrics_New zero =
     \<lparr>rg_counts = [], rg_waitSumMs = zero, rg_waitCount = 0, rg_parkWaitSumMs = zero, rg_parkWaitCount = 0,
      rg_jobCounts = [], rg_jobRunSumMs = zero, rg_jobRunCount = 0, rg_detectErrors = 0\<rparr>"

text \<open>\<^verbatim>\<open>m[k]++\<close> on a map whose missing entries are zero.\<close>

definition tally :: "(string \<times> int) list \<Rightarrow> string \<Rightarrow> int" where
  "tally m k = (case map_of m k of None \<Rightarrow> 0 | Some n \<Rightarrow> n)"

definition bump :: "string \<Rightarrow> (string \<times> int) list \<Rightarrow> (string \<times> int) list" where
  "bump k m = AList.update k (tally m k + 1) m"

definition IncDetectError :: "'f Registry \<Rightarrow> 'f Registry" where
  "IncDetectError r = r\<lparr>rg_detectErrors := rg_detectErrors r + 1\<rparr>"

definition RecordJob :: "('f \<Rightarrow> duration \<Rightarrow> 'f) \<Rightarrow> string \<Rightarrow> duration \<Rightarrow> 'f Registry \<Rightarrow> 'f Registry" where
  "RecordJob addMs outcome d r =
     (let r1 = r\<lparr>rg_jobCounts := bump outcome (rg_jobCounts r)\<rparr> in
      if outcome = ''succeeded'' \<or> outcome = ''failed''
      then r1\<lparr>rg_jobRunSumMs := addMs (rg_jobRunSumMs r1) d, rg_jobRunCount := rg_jobRunCount r1 + 1\<rparr> else r1)"

definition key_of :: "string \<Rightarrow> string \<Rightarrow> string" where
  "key_of class outcome = class @ ''|'' @ outcome"

definition Record :: "('f \<Rightarrow> duration \<Rightarrow> 'f) \<Rightarrow> string \<Rightarrow> string \<Rightarrow> duration \<Rightarrow> 'f Registry \<Rightarrow> 'f Registry" where
  "Record addMs class outcome d r =
     (let r1 = r\<lparr>rg_counts := bump (key_of class outcome) (rg_counts r)\<rparr> in
      if outcome = ''served''
      then r1\<lparr>rg_waitSumMs := addMs (rg_waitSumMs r1) d, rg_waitCount := rg_waitCount r1 + 1\<rparr> else r1)"

definition RecordPark :: "('f \<Rightarrow> duration \<Rightarrow> 'f) \<Rightarrow> duration \<Rightarrow> 'f Registry \<Rightarrow> 'f Registry" where
  "RecordPark addMs d r =
     r\<lparr>rg_parkWaitSumMs := addMs (rg_parkWaitSumMs r) d, rg_parkWaitCount := rg_parkWaitCount r + 1\<rparr>"

text \<open>What the calls of a gated request do to the registry.\<close>

definition observe :: "('f \<Rightarrow> duration \<Rightarrow> 'f) \<Rightarrow> gate_ev \<Rightarrow> 'f Registry \<Rightarrow> 'f Registry" where
  "observe addMs ev r =
     (case ev of
        GRecord class outcome d \<Rightarrow> Record addMs class outcome d r
      | GRecordPark d \<Rightarrow> RecordPark addMs d r
      | _ \<Rightarrow> r)"

section \<open>The text format\<close>

record Gauges =
  ga_Yielding :: bool
  ga_Busy :: bool
  ga_Inflight :: int
  ga_MaxInflight :: int
  ga_Interactive :: int
  ga_Batch :: int
  ga_Parked :: int
  ga_Jobs :: Counts

fun splitKey :: "string \<Rightarrow> string \<times> string" where
  "splitKey [] = ([], [])"
| "splitKey (c # cs) =
     (if c = CHR ''|'' then ([], cs) else case splitKey cs of (cl, out) \<Rightarrow> (c # cl, out))"

definition b2i :: "bool \<Rightarrow> int" where
  "b2i b = (if b then 1 else 0)"

definition sorted_keys :: "(string \<times> int) list \<Rightarrow> string list" where
  "sorted_keys m = sort (map fst m)"

definition head_lines :: "string \<Rightarrow> string \<Rightarrow> string \<Rightarrow> string list" where
  "head_lines name help typ = [''# HELP '' @ name @ '' '' @ help, ''# TYPE '' @ name @ '' '' @ typ]"

definition request_line :: "(string \<Rightarrow> string) \<Rightarrow> (string \<times> int) list \<Rightarrow> string \<Rightarrow> string" where
  "request_line quote m k =
     (case splitKey k of (class, outcome) \<Rightarrow>
        ''broker_requests_total{class='' @ quote class @ '',outcome='' @ quote outcome @ ''} '' @ itoa (tally m k))"

definition job_line :: "(string \<Rightarrow> string) \<Rightarrow> (string \<times> int) list \<Rightarrow> string \<Rightarrow> string" where
  "job_line quote m k = ''broker_job_outcomes_total{outcome='' @ quote k @ ''} '' @ itoa (tally m k)"

definition metrics_lines :: "(string \<Rightarrow> string) \<Rightarrow> ('f \<Rightarrow> string) \<Rightarrow> 'f Registry \<Rightarrow> Gauges \<Rightarrow> string list" where
  "metrics_lines quote fmtG r g =
     head_lines ''broker_requests_total'' ''Requests by class and outcome.'' ''counter''
     @ map (request_line quote (rg_counts r)) (sorted_keys (rg_counts r))
     @ head_lines ''broker_wait_seconds_sum'' ''Total time served requests waited for the GPU slot.'' ''counter''
     @ [''broker_wait_seconds_sum '' @ fmtG (rg_waitSumMs r)]
     @ head_lines ''broker_wait_seconds_count'' ''Number of served requests.'' ''counter''
     @ [''broker_wait_seconds_count '' @ itoa (rg_waitCount r)]
     @ head_lines ''broker_detect_errors_total'' ''Contention-detection polls that failed and reported no contention (fail-open). Nonzero means the yield feature may be blind.'' ''counter''
     @ [''broker_detect_errors_total '' @ itoa (rg_detectErrors r)]
     @ head_lines ''broker_yielding'' ''Whether the broker is currently yielding the GPU.'' ''gauge''
     @ [''broker_yielding '' @ itoa (b2i (ga_Yielding g))]
     @ head_lines ''broker_busy'' ''Whether the single GPU slot is in use.'' ''gauge''
     @ [''broker_busy '' @ itoa (b2i (ga_Busy g))]
     @ head_lines ''broker_inflight'' ''In-flight requests reaching Ollama.'' ''gauge''
     @ [''broker_inflight '' @ itoa (ga_Inflight g)]
     @ head_lines ''broker_max_inflight'' ''Configured concurrency limit.'' ''gauge''
     @ [''broker_max_inflight '' @ itoa (ga_MaxInflight g)]
     @ head_lines ''broker_queue_depth'' ''Waiters per class.'' ''gauge''
     @ [''broker_queue_depth{class=\"interactive\"} '' @ itoa (ga_Interactive g),
        ''broker_queue_depth{class=\"batch\"} '' @ itoa (ga_Batch g)]
     @ head_lines ''broker_parked_depth'' ''Batch-class park depth; Interactive never parks.'' ''gauge''
     @ [''broker_parked_depth '' @ itoa (ga_Parked g)]
     @ head_lines ''broker_park_wait_seconds_sum'' ''Total time requests spent parked waiting for yield to end.'' ''counter''
     @ [''broker_park_wait_seconds_sum '' @ fmtG (rg_parkWaitSumMs r)]
     @ head_lines ''broker_park_wait_seconds_count'' ''Number of requests that were parked and eventually served.'' ''counter''
     @ [''broker_park_wait_seconds_count '' @ itoa (rg_parkWaitCount r)]
     @ head_lines ''broker_jobs'' ''Durable Jobs by state.'' ''gauge''
     @ [''broker_jobs{state=\"queued\"} '' @ itoa (int (n_Queued (ga_Jobs g))),
        ''broker_jobs{state=\"running\"} '' @ itoa (int (n_Running (ga_Jobs g))),
        ''broker_jobs{state=\"succeeded\"} '' @ itoa (int (n_Succeeded (ga_Jobs g))),
        ''broker_jobs{state=\"failed\"} '' @ itoa (int (n_Failed (ga_Jobs g))),
        ''broker_jobs{state=\"canceled\"} '' @ itoa (int (n_Canceled (ga_Jobs g)))]
     @ head_lines ''broker_job_outcomes_total'' ''Terminal Job outcomes.'' ''counter''
     @ map (job_line quote (rg_jobCounts r)) (sorted_keys (rg_jobCounts r))
     @ head_lines ''broker_job_run_seconds_sum'' ''Total time Jobs spent running to completion.'' ''counter''
     @ [''broker_job_run_seconds_sum '' @ fmtG (rg_jobRunSumMs r)]
     @ head_lines ''broker_job_run_seconds_count'' ''Number of completed Job runs.'' ''counter''
     @ [''broker_job_run_seconds_count '' @ itoa (rg_jobRunCount r)]"

definition metrics_write :: "(string \<Rightarrow> string) \<Rightarrow> ('f \<Rightarrow> string) \<Rightarrow> 'f Registry \<Rightarrow> Gauges \<Rightarrow> response \<Rightarrow> response" where
  "metrics_write quote fmtG r g w =
     write_body (concat (map (\<lambda>l. l @ [newline]) (metrics_lines quote fmtG r g)))
       (set_header ''Content-Type'' ''text/plain; version=0.0.4'' w)"

section \<open>Lemmas\<close>

lemma splitKey_key_of: "CHR ''|'' \<notin> set cl \<Longrightarrow> splitKey (key_of cl outcome) = (cl, outcome)"
  by (induction cl) (auto simp: key_of_def)

lemma key_of_inj:
  assumes "CHR ''|'' \<notin> set c" and "CHR ''|'' \<notin> set c'"
  shows "key_of c o1 = key_of c' o2 \<longleftrightarrow> c = c' \<and> o1 = o2"
  using splitKey_key_of[OF assms(1), of o1] splitKey_key_of[OF assms(2), of o2] by (metis prod.inject)

lemma Class_String_plain: "CHR ''|'' \<notin> set (Class_String c)"
  by (cases c) simp_all

lemma Class_String_inj: "Class_String c = Class_String c' \<longleftrightarrow> c = c'"
  by (cases c; cases c') simp_all

lemma tally_bump: "tally (bump k m) k' = tally m k' + (if k = k' then 1 else 0)"
  by (simp add: bump_def tally_def update_conv')

lemma distinct_bump: "distinct (map fst m) \<Longrightarrow> distinct (map fst (bump k m))"
  by (simp add: bump_def distinct_update)

definition is_outcome :: "string \<Rightarrow> string \<Rightarrow> gate_ev \<Rightarrow> bool" where
  "is_outcome cl out ev = (case ev of GRecord c o' _ \<Rightarrow> c = cl \<and> o' = out | _ \<Rightarrow> False)"

lemma observe_tally:
  assumes "CHR ''|'' \<notin> set cl" and "\<forall>c out d. ev = GRecord c out d \<longrightarrow> CHR ''|'' \<notin> set c"
  shows "tally (rg_counts (observe addMs ev r)) (key_of cl out) =
     tally (rg_counts r) (key_of cl out) + (if is_outcome cl out ev then 1 else 0)"
  using assms
  by (cases ev) (auto simp: observe_def Record_def RecordPark_def Let_def tally_bump key_of_inj is_outcome_def)

text \<open>Every counter is the number of records of its class and outcome, in whatever order they came.\<close>

lemma observe_all_tally:
  assumes "CHR ''|'' \<notin> set cl" and "\<forall>ev\<in>set evs. \<forall>c out d. ev = GRecord c out d \<longrightarrow> CHR ''|'' \<notin> set c"
  shows "tally (rg_counts (fold (observe addMs) evs r)) (key_of cl out) =
     tally (rg_counts r) (key_of cl out) + int (length (filter (is_outcome cl out) evs))"
  using assms(2)
proof (induction evs arbitrary: r)
  case (Cons ev evs)
  then show ?case using observe_tally[OF assms(1), of ev addMs r out] by simp
qed simp

text \<open>A gated request that finished, with a recorder and no panic, is recorded exactly once, under its class.\<close>

lemma gate_records_once:
  assumes "Gate cfg rnd obs v = Some st" and "g_rec cfg" and "\<not> v_panic v"
  shows "\<exists>out d. filter is_record (g_trace st) = [GRecord (Class_String (g_class cfg)) out d]"
proof -
  let ?Q = "\<lambda>st. \<exists>out d. filter is_record (g_trace st) = [GRecord (Class_String (g_class cfg)) out d]"
  have "gate_loop cfg v obs (gate_init (newRequestID rnd)) = Some st" using assms(1) by (simp add: Gate_def)
  then show "?Q st"
  proof (rule gate_loop_rule[where I = "looping (newRequestID rnd)" and Q = ?Q])
    show "looping (newRequestID rnd) (gate_init (newRequestID rnd))" by (rule looping_init)
  next
    fix ob st st1
    assume "looping (newRequestID rnd) st" "gate_trip cfg ob st = Again st1"
    then show "looping (newRequestID rnd) st1" by (rule looping_Again)
  next
    fix ob st st1
    assume "looping (newRequestID rnd) st" "gate_trip cfg ob st = Answered st1"
    then show "?Q st1"
      by (cases rule: looping_refusal)
         (use assms(2) in \<open>auto simp: record_outcome_def deferRequest_def emit_def is_record_def Let_def\<close>)
  next
    fix ob st st1
    assume "looping (newRequestID rnd) st" "gate_trip cfg ob st = Admitted st1"
    then have "filter is_record (g_trace st1) = []" by (rule looping_Admitted(2))
    then show "?Q (gate_serve cfg v st1)"
      using assms(2,3) by (auto simp: gate_serve_def record_outcome_def recordPark_def emit_def is_record_def Let_def)
  qed
qed

text \<open>A request as the gate leaves it: its configuration and its final state.\<close>

definition gated :: "gate_cfg \<times> gate_st \<Rightarrow> bool" where
  "gated p \<longleftrightarrow> g_rec (fst p) \<and> (\<exists>rnd obs v. Gate (fst p) rnd obs v = Some (snd p) \<and> \<not> v_panic v)"

lemma gated_count:
  assumes "gated p"
  shows "length (filter (is_outcome (Class_String cl) out) (g_trace (snd p)))
       = (if g_class (fst p) = cl \<and> outcomes (snd p) = [out] then 1 else 0)"
    and "length (outcomes (snd p)) = 1"
    and "\<forall>ev\<in>set (g_trace (snd p)). \<forall>c o' d. ev = GRecord c o' d \<longrightarrow> CHR ''|'' \<notin> set c"
proof -
  obtain o1 d where r: "filter is_record (g_trace (snd p)) = [GRecord (Class_String (g_class (fst p))) o1 d]"
    using assms gate_records_once by (fastforce simp: gated_def)
  have "filter (is_outcome (Class_String cl) out) (g_trace (snd p))
      = filter (is_outcome (Class_String cl) out) (filter is_record (g_trace (snd p)))"
    by (simp add: conj_commute) (rule filter_cong, auto simp: is_outcome_def is_record_def split: gate_ev.splits)
  then show "length (filter (is_outcome (Class_String cl) out) (g_trace (snd p)))
       = (if g_class (fst p) = cl \<and> outcomes (snd p) = [out] then 1 else 0)"
    using r by (auto simp: is_outcome_def outcomes_def Class_String_inj)
  show "length (outcomes (snd p)) = 1" using r by (simp add: outcomes_def)
  show "\<forall>ev\<in>set (g_trace (snd p)). \<forall>c o' d. ev = GRecord c o' d \<longrightarrow> CHR ''|'' \<notin> set c"
  proof (intro ballI allI impI)
    fix ev c o' d'
    assume "ev \<in> set (g_trace (snd p))" "ev = GRecord c o' d'"
    then have "ev \<in> set (filter is_record (g_trace (snd p)))" by (simp add: is_record_def)
    then show "CHR ''|'' \<notin> set c" using r \<open>ev = _\<close> Class_String_plain by simp
  qed
qed


text \<open>An interactive request during a yield is deferred and tallied so.\<close>

definition busy_cfg :: gate_cfg where
  "busy_cfg = \<lparr>g_class = Interactive, g_wait = second, g_upstreamTimeout = 0, g_rec = True\<rparr>"

definition busy_obs :: gate_obs where
  "busy_obs = \<lparr>o_yield1 = Some ''plex'', o_parkEnabled = False, o_park = parkReleased, o_parkFor = 0, o_since = 0,
     o_acquire = True, o_yield2 = False\<rparr>"

definition busy_serve :: serve_obs where
  "busy_serve = \<lparr>v_response = id, v_panic = False, v_serveDone = False, v_ctx = Live\<rparr>"


text \<open>
  A request whose upstream handler panics is not tallied at all. That is how \<^verbatim>\<open>httputil.ReverseProxy\<close> ends a
  response it cannot finish, which is what the abort of a stream by a yield leads to.
\<close>

lemma aborted_request_untallied:
  assumes "looping i st" and "gate_trip cfg ob st = Admitted st1" and "v_panic v"
  shows "outcomes (gate_serve cfg v st1) = []"
  using looping_Admitted(2)[OF assms(1,2)] assms(3) by (simp add: gate_serve_def outcomes_def emit_def is_record_def Let_def)

text \<open>The text shows each counter once, under the class and outcome it was recorded for.\<close>

lemma request_line_shows:
  "request_line quote m (key_of (Class_String cl) out) =
     ''broker_requests_total{class='' @ quote (Class_String cl) @ '',outcome='' @ quote out @ ''} '' @
       itoa (tally m (key_of (Class_String cl) out))"
  by (simp add: request_line_def splitKey_key_of Class_String_plain)

lemma counters_listed_once:
  "distinct (map fst (rg_counts (fold (observe addMs) evs (metrics_New zero))))"
proof -
  have "distinct (map fst (rg_counts r)) \<Longrightarrow> distinct (map fst (rg_counts (fold (observe addMs) evs r)))" for r
  proof (induction evs arbitrary: r)
    case (Cons ev evs)
    have "distinct (map fst (rg_counts (observe addMs ev r)))"
      using Cons.prems by (cases ev) (simp_all add: observe_def Record_def RecordPark_def Let_def distinct_bump)
    then show ?case using Cons.IH by simp
  qed simp
  then show ?thesis by (simp add: metrics_New_def)
qed

end
