(* ===== verification/Contention_Detect.thy ===== *)
theory Contention_Detect
  imports Config_Load
begin

text \<open>
  \<^verbatim>\<open>internal/detect/detect.go\<close> and \<^verbatim>\<open>internal/plex/plex.go\<close>: contention from the processes that run. The
  regular expressions are matched on bytes, which agrees with matching on characters because every
  pattern starts and ends with ASCII. The contents of \<^verbatim>\<open>/proc\<close> and the answers of the Plex server are
  arguments.
\<close>

section \<open>Patterns\<close>

text \<open>\<^verbatim>\<open>.*q\<close> at the start of \<open>s\<close>, and \<^verbatim>\<open>p.*q\<close> anywhere in it; a dot is anything but a newline.\<close>

fun dots_then :: "string \<Rightarrow> string \<Rightarrow> bool" where
  "dots_then q [] \<longleftrightarrow> q = []"
| "dots_then q (c # cs) \<longleftrightarrow> HasPrefix (c # cs) q \<or> (c \<noteq> newline \<and> dots_then q cs)"

fun match_dots :: "string \<Rightarrow> string \<Rightarrow> string \<Rightarrow> bool" where
  "match_dots p q [] \<longleftrightarrow> p = [] \<and> q = []"
| "match_dots p q (c # cs) \<longleftrightarrow> (HasPrefix (c # cs) p \<and> dots_then q (drop (length p) (c # cs))) \<or> match_dots p q cs"

text \<open>
  \<^verbatim>\<open>(?i)windows[\\/]system32\<close>: every place lists the encodings it accepts. Case folding takes the long s
  to be an s.
\<close>

definition fold_letter :: "char \<Rightarrow> char \<Rightarrow> string list" where
  "fold_letter lo up = (if lo = CHR ''s'' then [[lo], [up], [CHR 0xC5, CHR 0xBF]] else [[lo], [up]])"

definition system_dir :: "string list list" where
  "system_dir =
     [fold_letter (CHR ''w'') (CHR ''W''), fold_letter (CHR ''i'') (CHR ''I''), fold_letter (CHR ''n'') (CHR ''N''),
      fold_letter (CHR ''d'') (CHR ''D''), fold_letter (CHR ''o'') (CHR ''O''), fold_letter (CHR ''w'') (CHR ''W''),
      fold_letter (CHR ''s'') (CHR ''S''), [[CHR 0x5C], [CHR ''/'']],
      fold_letter (CHR ''s'') (CHR ''S''), fold_letter (CHR ''y'') (CHR ''Y''), fold_letter (CHR ''s'') (CHR ''S''),
      fold_letter (CHR ''t'') (CHR ''T''), fold_letter (CHR ''e'') (CHR ''E''), fold_letter (CHR ''m'') (CHR ''M''),
      [[CHR ''3'']], [[CHR ''2'']]]"

fun match_here :: "string list list \<Rightarrow> string \<Rightarrow> bool" where
  "match_here [] s \<longleftrightarrow> True"
| "match_here (alts # ps) s \<longleftrightarrow> list_ex (\<lambda>a. HasPrefix s a \<and> match_here ps (drop (length a) s)) alts"

fun match_anywhere :: "string list list \<Rightarrow> string \<Rightarrow> bool" where
  "match_anywhere ps [] \<longleftrightarrow> match_here ps []"
| "match_anywhere ps (c # cs) \<longleftrightarrow> match_here ps (c # cs) \<or> match_anywhere ps cs"

section \<open>The detector\<close>

record Process =
  Comm :: string
  Cmdline :: string

record rule =
  r_reason :: string
  r_match :: "string \<Rightarrow> bool"

definition wine_match :: "string \<Rightarrow> bool" where
  "wine_match c \<longleftrightarrow> match_dots ''wine'' ''.exe'' c \<and> \<not> Contains c ''protonmail'' \<and> \<not> Contains c ''protonvpn''
     \<and> \<not> match_anywhere system_dir c"

definition gamingRules :: "rule list" where
  "gamingRules =
     [\<lparr>r_reason = ''gaming-steam'', r_match = \<lambda>c. Contains c ''SteamLaunch AppId=''\<rparr>,
      \<lparr>r_reason = ''gaming-lutris'', r_match = match_dots ''lutris'' ''runner''\<rparr>,
      \<lparr>r_reason = ''gaming-heroic'', r_match = match_dots ''heroic'' ''game''\<rparr>,
      \<lparr>r_reason = ''gaming-wine'', r_match = wine_match\<rparr>]"

definition plexReason :: string where "plexReason = ''plex''"
definition plexProcess :: string where "plexProcess = ''Plex Transcoder''"

text \<open>Whether an error recorder and a session checker are attached; the process list is an argument of \<^verbatim>\<open>Detect\<close>.\<close>

record Detector =
  d_errs :: bool
  d_plexChecker :: bool

definition detect_New :: Detector where
  "detect_New = \<lparr>d_errs = False, d_plexChecker = False\<rparr>"

definition SetErrorRecorder :: "Detector \<Rightarrow> Detector" where
  "SetErrorRecorder d = d\<lparr>d_errs := True\<rparr>"

definition SetPlexChecker :: "Detector \<Rightarrow> Detector" where
  "SetPlexChecker d = d\<lparr>d_plexChecker := True\<rparr>"

fun plexTranscoderRunning :: "Process list \<Rightarrow> bool" where
  "plexTranscoderRunning [] = False"
| "plexTranscoderRunning (p # ps) = (Contains (Cmdline p) plexProcess \<or> plexTranscoderRunning ps)"

definition plexIsRealSession :: "Detector \<Rightarrow> goerr + bool \<Rightarrow> bool" where
  "plexIsRealSession d session =
     (if \<not> d_plexChecker d then True else case session of Inl _ \<Rightarrow> True | Inr active \<Rightarrow> active)"

fun match_procs :: "rule \<Rightarrow> Process list \<Rightarrow> bool" where
  "match_procs r [] = False"
| "match_procs r (p # ps) = (r_match r (Cmdline p) \<or> match_procs r ps)"

fun match_rules :: "rule list \<Rightarrow> Process list \<Rightarrow> string \<times> bool" where
  "match_rules [] procs = ([], False)"
| "match_rules (r # rs) procs = (if match_procs r procs then (r_reason r, True) else match_rules rs procs)"

text \<open>The verdict and by how much the error counter grows.\<close>

definition Detect :: "Detector \<Rightarrow> goerr + Process list \<Rightarrow> goerr + bool \<Rightarrow> (string \<times> bool) \<times> nat" where
  "Detect d listing session =
     (case listing of
        Inl _ \<Rightarrow> (([], False), if d_errs d then 1 else 0)
      | Inr procs \<Rightarrow>
          (if plexTranscoderRunning procs \<and> plexIsRealSession d session then ((plexReason, True), 0)
           else (match_rules gamingRules procs, 0)))"

section \<open>Reading /proc\<close>

text \<open>\<^verbatim>\<open>strings.ReplaceAll(cmd, "\x00", " ")\<close>.\<close>

definition nul_to_space :: "string \<Rightarrow> string" where
  "nul_to_space = map (\<lambda>c. if c = CHR 0x00 then CHR '' '' else c)"

fun proc_entries :: "(string \<Rightarrow> goerr + string) \<Rightarrow> (string \<times> bool) list \<Rightarrow> Process list" where
  "proc_entries readFile [] = []"
| "proc_entries readFile ((name, isDir) # es) =
     (if \<not> isDir then proc_entries readFile es
      else case Atoi name of
        None \<Rightarrow> proc_entries readFile es
      | Some _ \<Rightarrow>
          (case readFile (''/proc/'' @ name @ ''/cmdline'') of
             Inl _ \<Rightarrow> proc_entries readFile es
           | Inr cmd \<Rightarrow>
               (let comm = (case readFile (''/proc/'' @ name @ ''/comm'') of Inl _ \<Rightarrow> [] | Inr s \<Rightarrow> s)
                in \<lparr>Comm = TrimSpace comm, Cmdline = nul_to_space cmd\<rparr> # proc_entries readFile es)))"

definition ProcLister ::
  "string \<Rightarrow> goerr + (string \<times> bool) list \<Rightarrow> (string \<Rightarrow> goerr + string) \<Rightarrow> goerr + Process list" where
  "ProcLister goos readDir readFile =
     (if goos \<noteq> ''linux'' then Inr []
      else case readDir of Inl e \<Rightarrow> Inl e | Inr entries \<Rightarrow> Inr (proc_entries readFile entries))"

section \<open>The Plex session check\<close>

text \<open>The request, the answer with its status, and the size attribute the decoder finds.\<close>

definition ActiveSession :: "goerr option \<Rightarrow> goerr + (int \<times> (goerr + int)) \<Rightarrow> goerr + bool" where
  "ActiveSession newReq resp =
     (case newReq of
        Some e \<Rightarrow> Inl (wrap_err ''plex: new request: '' e)
      | None \<Rightarrow>
          (case resp of
             Inl e \<Rightarrow> Inl (wrap_err ''plex: status/sessions: '' e)
           | Inr (code, decoded) \<Rightarrow>
               (if code \<noteq> 200 then Inl (new_err (''plex: status/sessions: status '' @ itoa code))
                else case decoded of
                  Inl e \<Rightarrow> Inl (wrap_err ''plex: decode: '' e)
                | Inr sz \<Rightarrow> Inr (0 < sz))))"

section \<open>Lemmas\<close>

lemma plexTranscoderRunning_iff: "plexTranscoderRunning ps \<longleftrightarrow> (\<exists>p\<in>set ps. Contains (Cmdline p) plexProcess)"
  by (induction ps) auto

lemma match_procs_iff: "match_procs r ps \<longleftrightarrow> (\<exists>p\<in>set ps. r_match r (Cmdline p))"
  by (induction ps) auto

lemma match_rules_find:
  "match_rules rs ps = (case find (\<lambda>r. match_procs r ps) rs of None \<Rightarrow> ([], False) | Some r \<Rightarrow> (r_reason r, True))"
  by (induction rs) auto

text \<open>
  The verdict does not depend on the order in which processes are listed: a confirmed Plex session first,
  then the first rule that any process matches.
\<close>

theorem Detect_order_independent:
  assumes "set ps = set ps'"
  shows "Detect d (Inr ps) s = Detect d (Inr ps') s"
proof -
  have "plexTranscoderRunning ps = plexTranscoderRunning ps'" "\<And>r. match_procs r ps = match_procs r ps'"
    using assms by (simp_all add: plexTranscoderRunning_iff match_procs_iff)
  then show ?thesis by (simp add: Detect_def match_rules_find)
qed

text \<open>
  Contention is reported exactly when a process says so: a transcoder with a session that is confirmed or
  cannot be checked, or a game. A listing error reports none and is counted.
\<close>

theorem Detect_contended_iff:
  "snd (fst (Detect d (Inr ps) s)) \<longleftrightarrow>
     ((\<exists>p\<in>set ps. Contains (Cmdline p) plexProcess) \<and> (d_plexChecker d \<longrightarrow> s \<noteq> Inr False))
     \<or> (\<exists>r\<in>set gamingRules. \<exists>p\<in>set ps. r_match r (Cmdline p))"
proof -
  have "snd (match_rules rs ps) \<longleftrightarrow> (\<exists>r\<in>set rs. \<exists>p\<in>set ps. r_match r (Cmdline p))" for rs
    by (induction rs) (auto simp: match_procs_iff)
  then show ?thesis
    by (auto simp: Detect_def plexIsRealSession_def plexTranscoderRunning_iff split: sum.splits)
qed

text \<open>Wine's own services in the system directory are not a game.\<close>

lemma wine_services_ignored:
  "\<not> wine_match ''C:/windows/System32/winedevice.exe''" "wine_match ''wine /games/quake.exe''"
  by code_simp+

end
