(* ===== verification/Contention_Yield.thy ===== *)
theory Contention_Yield
  imports Yield_Properties Contention_Detect
begin

text \<open>
  The detector and the yield controller together: from process listings to the decision to give the GPU up.
  Every poll of the controller's run is what \<^verbatim>\<open>Detect\<close> returned on one listing and one session check.
\<close>

section \<open>What a listing shows\<close>

text \<open>A listing and the answer of the session check at that poll.\<close>

type_synonym sighting = "(goerr + Process list) \<times> (goerr + bool)"

definition verdict :: "Detector \<Rightarrow> sighting \<Rightarrow> string \<times> bool" where
  "verdict d g = fst (Detect d (fst g) (snd g))"

definition sees_plex :: "Detector \<Rightarrow> sighting \<Rightarrow> bool" where
  "sees_plex d g \<longleftrightarrow>
     (\<exists>ps. fst g = Inr ps \<and> (\<exists>p\<in>set ps. Contains (Cmdline p) plexProcess) \<and> (d_plexChecker d \<longrightarrow> snd g \<noteq> Inr False))"

definition sees_rule :: "sighting \<Rightarrow> rule \<Rightarrow> bool" where
  "sees_rule g r \<longleftrightarrow> (\<exists>ps. fst g = Inr ps \<and> (\<exists>p\<in>set ps. r_match r (Cmdline p)))"

text \<open>The reason a listing gives, by the order of the rules: Plex, then the first game rule that matches.\<close>

definition sees :: "Detector \<Rightarrow> sighting \<Rightarrow> string \<Rightarrow> bool" where
  "sees d g why \<longleftrightarrow>
     (if sees_plex d g then why = plexReason
      else \<exists>i<length gamingRules. r_reason (gamingRules ! i) = why \<and> sees_rule g (gamingRules ! i)
             \<and> (\<forall>j<i. \<not> sees_rule g (gamingRules ! j)))"

lemma match_rules_first:
  "match_rules rs ps = (why, True) \<longleftrightarrow>
     (\<exists>i<length rs. r_reason (rs ! i) = why \<and> match_procs (rs ! i) ps \<and> (\<forall>j<i. \<not> match_procs (rs ! j) ps))"
proof (induction rs)
  case (Cons r rs)
  show ?case
  proof (cases "match_procs r ps")
    case True
    then have "(\<forall>j<i. \<not> match_procs ((r # rs) ! j) ps) \<longleftrightarrow> i = 0" for i by (metis gr0I not_less0 nth_Cons_0)
    then show ?thesis using True by auto
  next
    case False
    then show ?thesis using Cons by (simp add: Ex_less_Suc2 All_less_Suc2)
  qed
qed simp

lemma verdict_iff: "verdict d g = (why, True) \<longleftrightarrow> sees d g why"
proof (cases "fst g")
  case (Inl e)
  then show ?thesis by (simp add: verdict_def Detect_def sees_def sees_plex_def sees_rule_def)
next
  case (Inr ps)
  have plex: "sees_plex d g \<longleftrightarrow> plexTranscoderRunning ps \<and> plexIsRealSession d (snd g)"
    using Inr by (auto simp: sees_plex_def plexTranscoderRunning_iff plexIsRealSession_def split: sum.splits)
  have rule: "sees_rule g r \<longleftrightarrow> match_procs r ps" for r using Inr by (simp add: sees_rule_def match_procs_iff)
  show ?thesis using Inr
    by (auto simp: verdict_def Detect_def sees_def plex rule match_rules_first)
qed

lemma take_rev_replicate:
  "take k (rev (map f xs)) = replicate k y \<longleftrightarrow> k \<le> length xs \<and> (\<forall>x\<in>set (drop (length xs - k) xs). f x = y)"
proof
  assume a: "take k (rev (map f xs)) = replicate k y"
  then have "length (take k (rev (map f xs))) = k" by simp
  then have k: "k \<le> length xs" by simp
  moreover have "set (map f (drop (length xs - k) xs)) \<subseteq> {y}"
  proof -
    have "take k (rev (map f xs)) = rev (map f (drop (length xs - k) xs))" by (simp add: take_rev drop_map)
    then have "set (map f (drop (length xs - k) xs)) = set (replicate k y)" using a by (metis set_rev)
    then show ?thesis by (simp add: set_replicate_conv_if split: if_splits)
  qed
  ultimately show "k \<le> length xs \<and> (\<forall>x\<in>set (drop (length xs - k) xs). f x = y)" by auto
next
  assume "k \<le> length xs \<and> (\<forall>x\<in>set (drop (length xs - k) xs). f x = y)"
  then show "take k (rev (map f xs)) = replicate k y"
    by (intro replicate_eqI) (auto simp: take_rev drop_map)
qed

section \<open>When the GPU is given up\<close>

text \<open>
  C10. The broker yields exactly to what the processes show. In every run whose polls are the detector's
  answers to a sequence of listings, whatever overrides, requests and unloads interleave: in automatic mode
  the broker yields if and only if each of the last \<^verbatim>\<open>confirmPolls\<close> listings shows one and the same reason,
  a Plex session first and then the first game rule that some process matches, and it then names that
  reason; so one listing that could not be read, or shows none, ends or prevents the yield. Forced modes
  do not look at the listings.
\<close>

theorem yields_to_sighted_contention:
  assumes "yield_start S0" and "run_events yield_exec es S0 = Some S" and "polls es = map (verdict d) obs"
  shows "(mode (ctl S) = ModeAuto \<longrightarrow>
       (fst (Yielding (ctl S)) \<longleftrightarrow>
          nat (confirmPolls (ctl S0)) \<le> length obs \<and>
          (\<exists>why. \<forall>g\<in>set (drop (length obs - nat (confirmPolls (ctl S0))) obs). sees d g why)) \<and>
       (fst (Yielding (ctl S)) \<longrightarrow> sees d (last obs) (snd (Yielding (ctl S)))))
     \<and> (mode (ctl S) = ModeForceYield \<longrightarrow> fst (Yielding (ctl S)))
     \<and> (mode (ctl S) = ModeForceServe \<longrightarrow> \<not> fst (Yielding (ctl S)))"
proof -
  let ?k = "nat (confirmPolls (ctl S0))"
  note D = debounce_exact[OF assms(1,2)]
  have auto_iff: "autoContended (ctl S) \<longleftrightarrow> ?k \<le> length obs \<and> (\<exists>why. \<forall>g\<in>set (drop (length obs - ?k) obs). sees d g why)"
    using D by (simp add: assms(3) take_rev_replicate verdict_iff)
  have last: "sees d (last obs) (autoReason (ctl S))" if ac: "autoContended (ctl S)"
  proof -
    obtain ps where "map (verdict d) obs = ps @ [(autoReason (ctl S), True)]" using D ac unfolding assms(3) by blast
    then have "verdict d (last obs) = (autoReason (ctl S), True)" by (metis last_map last_snoc list.map_disc_iff snoc_eq_iff_butlast)
    then show ?thesis by (simp add: verdict_iff)
  qed
  show ?thesis using auto_iff last by (simp add: Yielding_def computeLocked_def)
qed

theorem yields_to_sighted_contention_witness:
  "\<exists>S. run_events yield_exec [YRefresh ''gaming-steam'' True 1, YIdle 1, YRefresh ''gaming-steam'' True 6] (demo_controller [] [] 2) = Some S
     \<and> fst (Yielding (ctl S))"
proof -
  let ?es = "[YRefresh ''gaming-steam'' True 1, YIdle 1, YRefresh ''gaming-steam'' True 6]"
  let ?g = "(Inr [\<lparr>Comm = ''reaper'', Cmdline = ''reaper SteamLaunch AppId=70''\<rparr>], Inr False) :: sighting"
  obtain S where S: "run_events yield_exec ?es (demo_controller [] [] 2) = Some S" "mode (ctl S) = ModeAuto"
    by (simp add: yield_eval)
  have two: "confirmPolls (ctl (demo_controller [] [] 2)) = 2" by (simp add: yield_eval)
  have v: "verdict detect_New ?g = (''gaming-steam'', True)" by code_simp
  then have sees: "sees detect_New ?g ''gaming-steam''" by (simp only: verdict_iff)
  have st: "yield_start (demo_controller [] [] 2)" by (simp add: demo_controller_start)
  have "polls ?es = map (verdict detect_New) [?g, ?g]" using v by simp
  from yields_to_sighted_contention[OF st S(1) this] S sees two show ?thesis by auto
qed

end
