(* ===== verification/Broker_Main.thy ===== *)
theory Broker_Main
  imports Control_Plane Backend_Calls Metrics_Registry Contention_Yield
begin

text \<open>
  \<^verbatim>\<open>cmd/broker/main.go\<close>: \<^verbatim>\<open>main\<close> up to the point where it listens. What it builds is a record: the schedulers,
  the lanes with their gates, the Job worker, the detector and the control plane's parts. Each way it can
  exit is a value, a panic is \<open>None\<close>. Opening the database is an argument, as are the parsers and the clock.
\<close>

section \<open>Lanes\<close>

text \<open>What a lane hands its admitted requests to, and which of the two schedulers admits them.\<close>

datatype lane_handler = HLane string | HSingle | HEmbed URL

datatype sched_id = GpuSched | EmbedSched

record lane =
  ln_Addr :: string
  ln_Sched :: sched_id
  ln_Gate :: gate_cfg
  ln_Handler :: lane_handler
  ln_KeepAlives :: bool

definition lane_sched :: "Config \<Rightarrow> int \<Rightarrow> chan \<Rightarrow> Scheduler" where
  "lane_sched cfg n ctx =
     SetShutdownContext (Some ctx)
       (SetParkConfig (ParkHold cfg) (ParkMaxQueue cfg) (ParkDrainBurst cfg)
         (SetMaxInflight n (SetMaxWaiters (MaxWaiters cfg) New)))"

definition lane_gate :: "Class \<Rightarrow> duration \<Rightarrow> duration \<Rightarrow> gate_cfg" where
  "lane_gate cl wait upstreamTimeout =
     \<lparr>g_class = cl, g_wait = wait, g_upstreamTimeout = upstreamTimeout, g_rec = True\<rparr>"

definition sync_handler :: "broker \<Rightarrow> Class \<Rightarrow> lane_handler" where
  "sync_handler br cl = (if br_router br \<noteq> None then HLane (Class_String cl) else HSingle)"

definition interactive_lane :: "Config \<Rightarrow> broker \<Rightarrow> lane" where
  "interactive_lane cfg br =
     \<lparr>ln_Addr = InteractiveAddr cfg, ln_Sched = GpuSched, ln_Gate = lane_gate Interactive (InteractiveWait cfg) 0,
      ln_Handler = sync_handler br Interactive, ln_KeepAlives = True\<rparr>"

definition batch_lane :: "Config \<Rightarrow> broker \<Rightarrow> lane" where
  "batch_lane cfg br =
     \<lparr>ln_Addr = BatchAddr cfg, ln_Sched = GpuSched, ln_Gate = lane_gate Batch (BatchWait cfg) 0,
      ln_Handler = sync_handler br Batch, ln_KeepAlives = False\<rparr>"

definition embed_lane :: "Config \<Rightarrow> URL \<Rightarrow> lane" where
  "embed_lane cfg u =
     \<lparr>ln_Addr = EmbedAddr cfg, ln_Sched = EmbedSched, ln_Gate = lane_gate Batch (BatchWait cfg) (EmbedTimeout cfg),
      ln_Handler = HEmbed u, ln_KeepAlives = True\<rparr>"

section \<open>Starting up\<close>

datatype exit_reason =
    ExitConfig cfg_err
  | ExitBackend string
  | ExitBroker string
  | ExitStore goerr
  | ExitRecover err

record system =
  sy_broker :: broker
  sy_ctrl :: Controller
  sy_gpu :: Scheduler
  sy_embed :: "Scheduler option"
  sy_lanes :: "lane list"
  sy_jobs :: job_sys
  sy_detector :: Detector
  sy_tdarr :: "tdarr_Client option"
  sy_controlToken :: string

definition main_detector :: "Config \<Rightarrow> Detector" where
  "main_detector cfg =
     SetErrorRecorder (if PlexToken cfg \<noteq> [] then SetPlexChecker detect_New else detect_New)"

definition main_tdarr :: "Config \<Rightarrow> tdarr_Client option" where
  "main_tdarr cfg =
     (if TdarrURL cfg \<noteq> [] \<and> TdarrNodeID cfg \<noteq> [] then Some (tdarr_New (TdarrNodeID cfg) (TdarrGPUWorkers cfg)) else None)"

text \<open>The URL \<^verbatim>\<open>main\<close> logs once it listens; \<open>None\<close> is the panic of calling \<^verbatim>\<open>String\<close> on a nil URL.\<close>

definition upstreamURLStr :: "Config \<Rightarrow> string option" where
  "upstreamURLStr cfg =
     (if UpstreamBackend cfg = ''ollama'' then map_option u_String (OllamaURL cfg) else map_option u_String (UpstreamURL cfg))"

text \<open>\<open>db\<close> is what opening the database returned, \<open>ok\<close> which of the calls of the recovery succeed.\<close>

definition main_start ::
  "url_parser \<Rightarrow> dur_parser \<Rightarrow> environ \<Rightarrow> instant \<Rightarrow> heap \<Rightarrow> chan \<Rightarrow> goerr + table \<Rightarrow> driver \<Rightarrow> (exit_reason + system) option" where
  "main_start pu pd env now cx ctx db ok =
     (case Load pu pd env of
        Inl e \<Rightarrow> Some (Inl (ExitConfig e))
      | Inr cfg \<Rightarrow>
        (case backend_New cfg of
           Inl f \<Rightarrow> Some (Inl (ExitBackend f))
         | Inr be \<Rightarrow>
           (case buildBroker cfg be now cx of
              None \<Rightarrow> None
            | Some (Inl f) \<Rightarrow> Some (Inl (ExitBroker f))
            | Some (Inr br) \<Rightarrow>
              (let td = main_tdarr cfg;
                   ctrl = (if td \<noteq> None then SetGPUManager True (br_ctrl br) else br_ctrl br)
               in case db of
                    Inl e \<Rightarrow> Some (Inl (ExitStore e))
                  | Inr t \<Rightarrow>
                    (case svc_Recover ok now (SetRecorder True (NewService t (JobMaxAttempts cfg))) of
                       (Inl e, _) \<Rightarrow> Some (Inl (ExitRecover e))
                     | (Inr _, s) \<Rightarrow>
                       if upstreamURLStr cfg = None then None
                       else Some (Inr
                         \<lparr>sy_broker = br, sy_ctrl = ctrl, sy_gpu = lane_sched cfg (MaxInflight cfg) ctx,
                          sy_embed = map_option (\<lambda>_. lane_sched cfg 1 ctx) (InfinityURL cfg),
                          sy_lanes = [interactive_lane cfg br, batch_lane cfg br] @
                            (case InfinityURL cfg of None \<Rightarrow> [] | Some u \<Rightarrow> [embed_lane cfg u]),
                          sy_jobs = NewWorker s (BatchQuantum cfg), sy_detector = main_detector cfg, sy_tdarr = td,
                          sy_controlToken = ControlToken cfg\<rparr>))))))"

section \<open>What the control plane reads\<close>

definition zero_counts :: Counts where
  "zero_counts = \<lparr>n_Queued = 0, n_Running = 0, n_Succeeded = 0, n_Failed = 0, n_Canceled = 0\<rparr>"

text \<open>An error of the driver stands for one of the query; its answer is then empty.\<close>

definition jobCounts :: "driver \<Rightarrow> Service \<Rightarrow> Counts" where
  "jobCounts ok s = (case svc_Counts ok s of Inl _ \<Rightarrow> zero_counts | Inr c \<Rightarrow> c)"

definition main_gauges :: "driver \<Rightarrow> Service \<Rightarrow> Scheduler \<Rightarrow> Controller \<Rightarrow> Gauges" where
  "main_gauges ok s sched c =
     (let st = Scheduler_Stats sched in
      \<lparr>ga_Yielding = fst (Yielding c), ga_Busy = Busy st, ga_Inflight = StInflight st, ga_MaxInflight = StMaxInflight st,
       ga_Interactive = StInteractive st, ga_Batch = StBatch st, ga_Parked = Parked st, ga_Jobs = jobCounts ok s\<rparr>)"

definition tdarrStatusFn :: "tdarr_env \<Rightarrow> tdarr_Client \<Rightarrow> int \<times> bool" where
  "tdarrStatusFn env c = (case WorkerLimits env c of Inl _ \<Rightarrow> (- 1, True) | Inr gpu \<Rightarrow> (gpu, True))"

definition main_sources ::
  "driver \<Rightarrow> tdarr_env \<Rightarrow> (nat \<Rightarrow> instant) \<Rightarrow> localtime \<Rightarrow> system \<Rightarrow> Scheduler \<Rightarrow> status_sources" where
  "main_sources ok env clk now sy sched =
     \<lparr>ss_stats = Scheduler_Stats sched, ss_now = now, ss_jobs = Some (jobCounts ok (svc (sy_jobs sy))),
      ss_tdarr = map_option (\<lambda>c. Some (tdarrStatusFn env c)) (sy_tdarr sy),
      ss_routing = map_option RoutingSummary (br_router (sy_broker sy)),
      ss_idle = (if br_idleStatus (sy_broker sy) then Some (IdleSummary clk (sy_ctrl sy)) else None)\<rparr>"

section \<open>The broker as it starts\<close>

lemma lane_sched_config:
  assumes "core_ok c" and "1 \<le> n"
  shows "maxInflight (lane_sched c n ctx) = n" and "maxWaiters (lane_sched c n ctx) = MaxWaiters c"
    and "inflight (lane_sched c n ctx) = 0" and "iq (lane_sched c n ctx) = []" and "bq (lane_sched c n ctx) = []"
    and "maxQueue (park (lane_sched c n ctx)) = ParkMaxQueue c" and "hold (park (lane_sched c n ctx)) = ParkHold c"
    and "drainBurst (park (lane_sched c n ctx)) = ParkDrainBurst c" and "shutdownCtx (lane_sched c n ctx) = Some ctx"
  using assms
  by (auto simp: lane_sched_def SetShutdownContext_def SetParkConfig_def SetMaxInflight_def SetMaxWaiters_def New_def core_ok_def Let_def)

lemma loaded_url_logged: "Load pu pd env = Inr c \<Longrightarrow> upstreamURLStr c \<noteq> None"
  using loaded_config[of pu pd env c] by (auto simp: upstreamURLStr_def default_url_def)

text \<open>The controller that \<^verbatim>\<open>buildBroker\<close> returns is one the yield system starts from, with or without a GPU manager.\<close>

lemma yield_start_of:
  assumes "NewWithConfirmMulti us lbls itv np now empty_heap = (c, cx)" and "ConfigureIdle ds c = Some c'"
  shows "yield_start (yield_init (SetGPUManager m c') cx)" and "SetGPUManager False c' = c'"
proof -
  show "yield_start (yield_init (SetGPUManager m c') cx)" unfolding yield_start_def using assms by blast
  have "\<not> gpuMgr c" using assms(1) by (auto simp: NewWithConfirmMulti_def make_chan_def split: prod.splits)
  then have "\<not> gpuMgr c'" using assms(2) by (auto simp: ConfigureIdle_def split: if_splits)
  then show "SetGPUManager False c' = c'" by (simp add: SetGPUManager_def)
qed

lemma buildBroker_controller:
  assumes "buildBroker cfg be now empty_heap = Some (Inr br)"
  obtains us lbls c cx ds where
    "NewWithConfirmMulti us lbls (DetectInterval cfg) (YieldConfirmPolls cfg) now empty_heap = (c, cx)" "ConfigureIdle ds c = Some (br_ctrl br)"
proof (cases "cf_Routes cfg = []")
  case True
  let ?us = "case bk_unloader be of None \<Rightarrow> [] | Some x \<Rightarrow> [Some x]"
  obtain c cx where c: "NewWithConfirmMulti ?us [] (DetectInterval cfg) (YieldConfirmPolls cfg) now empty_heap = (c, cx)" by fastforce
  show thesis
  proof (cases "bk_unloader be")
    case None
    then have "br_ctrl br = c" "ConfigureIdle [] c = Some c"
      using assms True c by (auto simp: buildBroker_def NewWithConfirm_def NewWithConfirmMulti_def ConfigureIdle_def make_chan_def Let_def)
    then show thesis using that[OF c, of "[]"] by simp
  next
    case (Some u)
    then have "ConfigureIdle [UpstreamIdleTimeout cfg] c = Some (br_ctrl br)"
      using assms True c by (auto simp: buildBroker_def NewWithConfirm_def Let_def split: option.splits)
    then show thesis using that[OF c] by blast
  qed
next
  case False
  then obtain bs us ls where r: "buildRoutes cfg = Inr (bs, us, ls)"
    using assms by (auto simp: buildBroker_def Let_def split: sum.splits)
  obtain c cx where c: "NewWithConfirmMulti (bk_unloader be # us) (''default'' # ls) (DetectInterval cfg) (YieldConfirmPolls cfg) now empty_heap = (c, cx)"
    by fastforce
  then have "ConfigureIdle (UpstreamIdleTimeout cfg # map rb_IdleTimeout (cf_Routes cfg)) c = Some (br_ctrl br)"
    using assms False r by (auto simp: buildBroker_def Let_def split: option.splits)
  then show thesis using that[OF c] by blast
qed

lemma main_controller_starts:
  assumes "buildBroker cfg be now empty_heap = Some (Inr br)"
  shows "\<exists>cx. yield_start (yield_init (if m then SetGPUManager True (br_ctrl br) else br_ctrl br) cx)"
proof -
  obtain us lbls c cx ds where
    "NewWithConfirmMulti us lbls (DetectInterval cfg) (YieldConfirmPolls cfg) now empty_heap = (c, cx)" "ConfigureIdle ds c = Some (br_ctrl br)"
    by (rule buildBroker_controller[OF assms])
  from yield_start_of(1)[OF this, of m] yield_start_of(2)[OF this] show ?thesis by (cases m) auto
qed

lemma svc_Recover_ok:
  assumes "store_inv t" and "svc_Recover ok now (SetRecorder True (NewService t m)) = (Inr x, s)"
  shows "store_inv (s_store s) \<and> (\<forall>j\<in>set (s_store s). JState j \<noteq> StateRunning)"
proof -
  obtain n t' where r: "RecoverRunning ok now (s_maxAttempts (SetRecorder True (NewService t m))) t = (Inr n, t')"
    and s: "s_store s = t'"
    using assms(2) by (auto simp: svc_Recover_def SetRecorder_def NewService_def split: prod.splits sum.splits)
  have "StateRunning \<notin> states t' i" for i using RecoverRunning_states[OF assms(1) r] by blast
  moreover have "store_inv t'" using RecoverRunning_states[OF assms(1) r] by blast
  ultimately show ?thesis unfolding s by (fastforce simp: states_iff)
qed


lemma demo_main:
  obtains sy where "main_start demo_url (\<lambda>_. None) demo_env 0 empty_heap 0 (Inr []) (\<lambda>_. True) = Some (Inr sy)"
proof -
  obtain c where c: "Load demo_url (\<lambda>_. None) demo_env = Inr c" by (rule demo_load)
  obtain be br where b: "backend_New c = Inr be" "buildBroker c be 0 empty_heap = Some (Inr br)"
    using broker_builds[OF c] by blast
  obtain s where "svc_Recover (\<lambda>_. True) 0 (SetRecorder True (NewService [] (JobMaxAttempts c))) = (Inr (), s)"
    by (simp add: svc_Recover_def RecoverRunning_def running_recs_def SetRecorder_def NewService_def)
  then show thesis using that c b loaded_url_logged[OF c] by (simp add: main_start_def Let_def)
qed


end
