(* ===== verification/Broker_Shutdown.thy ===== *)
theory Broker_Shutdown
  imports Config_Properties
begin

text \<open>
  The end of \<^verbatim>\<open>main\<close>: one goroutine for each server that listens, the channel of their errors, and the main
  goroutine that waits for a signal or an error, cancels the context, shuts the servers down in order and
  waits for the listeners. Their steps interleave; what \<^verbatim>\<open>ListenAndServe\<close> does is arbitrary, except that it
  returns \<^verbatim>\<open>ErrServerClosed\<close> only after \<^verbatim>\<open>Shutdown\<close>, and \<^verbatim>\<open>Shutdown\<close> returns, within its ten seconds.
\<close>

section \<open>Listeners and the main goroutine\<close>

text \<open>The fields \<^verbatim>\<open>newServer\<close> sets or leaves at zero, which is no timeout, and what is changed afterwards.\<close>

record http_server =
  sv_Addr :: string
  sv_ReadHeaderTimeout :: duration
  sv_IdleTimeout :: duration
  sv_WriteTimeout :: duration
  sv_KeepAlives :: bool

definition newServer :: "string \<Rightarrow> http_server" where
  "newServer addr =
     \<lparr>sv_Addr = addr, sv_ReadHeaderTimeout = 10 * second, sv_IdleTimeout = 0, sv_WriteTimeout = 0, sv_KeepAlives = True\<rparr>"

definition servers :: "Config \<Rightarrow> http_server list" where
  "servers cfg =
     [newServer (InteractiveAddr cfg), (newServer (BatchAddr cfg))\<lparr>sv_KeepAlives := False\<rparr>, newServer (ControlAddr cfg)] @
     (if InfinityURL cfg = None then [] else [newServer (EmbedAddr cfg)])"

text \<open>A listener serves, has an error to send, or has returned.\<close>

datatype listener = LServing | LFailed | LDone

datatype main_pc = MSelect | MShutting nat | MWait | MExit

record main_sys =
  m_listen :: "listener list"
  m_shut :: "bool list"   \<comment> \<open>servers whose \<^verbatim>\<open>Shutdown\<close> was called\<close>
  m_errCh :: nat          \<comment> \<open>errors in the channel, whose capacity is the number of servers\<close>
  m_cancelled :: bool
  m_pc :: main_pc

definition main_serving :: "Config \<Rightarrow> main_sys \<Rightarrow> bool" where
  "main_serving cfg S \<longleftrightarrow>
     (let n = length (servers cfg) in
      S = \<lparr>m_listen = replicate n LServing, m_shut = replicate n False, m_errCh = 0, m_cancelled = False, m_pc = MSelect\<rparr>)"

inductive main_step :: "main_sys \<Rightarrow> main_sys \<Rightarrow> bool" where
  listen_error: "i < length (m_listen S) \<Longrightarrow> m_listen S ! i = LServing \<Longrightarrow>
    main_step S (S\<lparr>m_listen := (m_listen S)[i := LFailed]\<rparr>)"
| listen_closed: "i < length (m_listen S) \<Longrightarrow> m_listen S ! i = LServing \<Longrightarrow> m_shut S ! i \<Longrightarrow>
    main_step S (S\<lparr>m_listen := (m_listen S)[i := LDone]\<rparr>)"
| send: "i < length (m_listen S) \<Longrightarrow> m_listen S ! i = LFailed \<Longrightarrow> m_errCh S < length (m_listen S) \<Longrightarrow>
    main_step S (S\<lparr>m_listen := (m_listen S)[i := LDone], m_errCh := m_errCh S + 1\<rparr>)"
| signal: "m_pc S = MSelect \<Longrightarrow> main_step S (S\<lparr>m_cancelled := True, m_pc := MShutting 0\<rparr>)"
| receive: "m_pc S = MSelect \<Longrightarrow> 0 < m_errCh S \<Longrightarrow>
    main_step S (S\<lparr>m_errCh := m_errCh S - 1, m_cancelled := True, m_pc := MShutting 0\<rparr>)"
| shutdown: "m_pc S = MShutting i \<Longrightarrow> i < length (m_listen S) \<Longrightarrow>
    main_step S (S\<lparr>m_shut := (m_shut S)[i := True], m_pc := MShutting (i + 1)\<rparr>)"
| all_shut: "m_pc S = MShutting (length (m_listen S)) \<Longrightarrow> main_step S (S\<lparr>m_pc := MWait\<rparr>)"
| wait_done: "m_pc S = MWait \<Longrightarrow> list_all (\<lambda>l. l = LDone) (m_listen S) \<Longrightarrow> main_step S (S\<lparr>m_pc := MExit\<rparr>)"

section \<open>The invariant\<close>

definition done_count :: "main_sys \<Rightarrow> nat" where
  "done_count S = length (filter (\<lambda>l. l = LDone) (m_listen S))"

definition shut_upto :: "main_sys \<Rightarrow> nat" where
  "shut_upto S = (case m_pc S of MSelect \<Rightarrow> 0 | MShutting i \<Rightarrow> i | _ \<Rightarrow> length (m_listen S))"

text \<open>
  The servers are shut down in order and only after the context is cancelled; no listener sends more than
  one error, so the channel has room for every other one; at the exit all listeners have returned.
\<close>

definition main_inv :: "nat \<Rightarrow> main_sys \<Rightarrow> bool" where
  "main_inv n S \<longleftrightarrow> length (m_listen S) = n \<and> length (m_shut S) = n \<and> shut_upto S \<le> n \<and>
     (\<forall>i<n. m_shut S ! i \<longleftrightarrow> i < shut_upto S) \<and> m_errCh S \<le> done_count S \<and>
     (m_cancelled S \<longleftrightarrow> m_pc S \<noteq> MSelect) \<and> (m_pc S = MExit \<longrightarrow> list_all (\<lambda>l. l = LDone) (m_listen S))"

lemma count_update:
  assumes "i < length xs" and "\<not> P (xs ! i)"
  shows "length (filter P (xs[i := x])) = length (filter P xs) + (if P x then 1 else 0)"
  using assms by (induction xs arbitrary: i) (auto simp: nth_Cons split: nat.splits)

lemma serving_inv: "main_serving cfg S \<Longrightarrow> main_inv (length (servers cfg)) S"
  by (simp add: main_serving_def main_inv_def shut_upto_def done_count_def Let_def)

lemma main_step_inv:
  assumes "main_inv n S" and "main_step S T"
  shows "main_inv n T"
  using assms(2)
proof (cases rule: main_step.cases)
  case (listen_error i)
  then show ?thesis using assms(1) count_update[of i "m_listen S" "\<lambda>l. l = LDone" LFailed]
    by (auto simp: main_inv_def shut_upto_def done_count_def list_all_length split: main_pc.splits)
next
  case (listen_closed i)
  then show ?thesis using assms(1) count_update[of i "m_listen S" "\<lambda>l. l = LDone" LDone]
    by (auto simp: main_inv_def shut_upto_def done_count_def list_all_length split: main_pc.splits)
next
  case (send i)
  then show ?thesis using assms(1) count_update[of i "m_listen S" "\<lambda>l. l = LDone" LDone]
    by (auto simp: main_inv_def shut_upto_def done_count_def list_all_length split: main_pc.splits)
next
  case (shutdown i)
  then show ?thesis using assms(1) by (auto simp: main_inv_def shut_upto_def done_count_def nth_list_update less_Suc_eq)
qed (use assms(1) in \<open>auto simp: main_inv_def shut_upto_def done_count_def\<close>)

interpretation stopping: step_system "main_serving cfg" main_step "main_inv (length (servers cfg))"
  by unfold_locales (auto intro: serving_inv main_step_inv)

section \<open>The broker stops\<close>

text \<open>Every step is progress towards the exit.\<close>

fun listener_rank :: "listener \<Rightarrow> nat" where
  "listener_rank LServing = 2"
| "listener_rank LFailed = 1"
| "listener_rank LDone = 0"

definition main_rank :: "main_sys \<Rightarrow> nat" where
  "main_rank S = sum_list (map listener_rank (m_listen S)) +
     (case m_pc S of MSelect \<Rightarrow> length (m_listen S) + 3 | MShutting i \<Rightarrow> length (m_listen S) + 2 - i | MWait \<Rightarrow> 1 | MExit \<Rightarrow> 0)"

lemma rank_update:
  assumes "i < length xs" and "f x < f (xs ! i)"
  shows "sum_list (map f (xs[i := x])) < (sum_list (map f xs) :: nat)"
  using assms by (induction xs arbitrary: i) (auto simp: nth_Cons split: nat.splits)

lemma main_step_rank:
  assumes "main_step S T"
  shows "main_rank T < main_rank S"
  using assms
  by (cases rule: main_step.cases) (auto simp: main_rank_def rank_update split: main_pc.splits)

text \<open>A listener that failed can always send its error.\<close>

lemma send_not_blocked:
  assumes "main_inv n S" and "LFailed \<in> set (m_listen S)"
  shows "m_errCh S < length (m_listen S)"
proof -
  have "done_count S < length (m_listen S)" unfolding done_count_def
    using assms(2) by (intro length_filter_less[of LFailed]) simp_all
  then show ?thesis using assms(1) by (simp add: main_inv_def)
qed

text \<open>Until the exit some step is always possible.\<close>

lemma main_not_stuck:
  assumes "main_inv n S" and "m_pc S \<noteq> MExit"
  shows "\<exists>T. main_step S T"
proof (cases "LFailed \<in> set (m_listen S)")
  case True
  then obtain i where "i < length (m_listen S)" "m_listen S ! i = LFailed" by (auto simp: in_set_conv_nth)
  then show ?thesis using send send_not_blocked[OF assms(1) True] by blast
next
  case False
  show ?thesis
  proof (cases "m_pc S")
    case MSelect
    then show ?thesis using signal by blast
  next
    case (MShutting i)
    then have "i \<le> length (m_listen S)" using assms(1) by (simp add: main_inv_def shut_upto_def)
    then show ?thesis using MShutting shutdown all_shut by (cases "i = length (m_listen S)") (auto intro: le_neq_implies_less)
  next
    case MWait
    show ?thesis
    proof (cases "list_all (\<lambda>l. l = LDone) (m_listen S)")
      case True
      then show ?thesis using MWait wait_done by blast
    next
      case nd: False
      then obtain i where i: "i < length (m_listen S)" "m_listen S ! i \<noteq> LDone" by (auto simp: list_all_length)
      then have "m_listen S ! i = LServing" using False by (metis listener.exhaust nth_mem)
      moreover have "m_shut S ! i" using assms(1) MWait i(1) by (auto simp: main_inv_def shut_upto_def)
      ultimately show ?thesis using listen_closed i(1) by blast
    qed
  next
    case MExit
    then show ?thesis using assms(2) by simp
  qed
qed

lemma main_steps_rank: "(main_step ^^ k) S T \<Longrightarrow> k + main_rank T \<le> main_rank S"
proof (induction k arbitrary: T)
  case (Suc k)
  then obtain U where "(main_step ^^ k) S U" "main_step U T" by auto
  then show ?case using Suc.IH[of U] main_step_rank[of U T] by linarith
qed simp

text \<open>
  C40. The broker always stops in order. Whatever its listeners do: a listener that failed is never blocked on
  reporting it; the context is cancelled before the first server is shut down, and the servers are shut
  down in order; from its start the broker makes at most fifteen of these steps, and where it can make none
  it has exited, with every server shut down and every listener returned.
\<close>

theorem shutdown_completes:
  assumes "main_serving cfg S0" and "(main_step ^^ k) S0 S"
  shows "k \<le> 15 \<and> (LFailed \<in> set (m_listen S) \<longrightarrow> m_errCh S < length (servers cfg)) \<and>
    (\<forall>i<length (servers cfg). m_shut S ! i \<longrightarrow> m_cancelled S \<and> (\<forall>j<i. m_shut S ! j)) \<and>
    ((\<nexists>T. main_step S T) \<longleftrightarrow> m_pc S = MExit) \<and>
    (m_pc S = MExit \<longrightarrow> m_cancelled S \<and> m_shut S = replicate (length (servers cfg)) True \<and>
       m_listen S = replicate (length (servers cfg)) LDone)"
proof -
  let ?n = "length (servers cfg)"
  have inv: "main_inv ?n S" using stopping.reach_inv relpowp_reach[of "main_serving cfg", OF assms] by blast
  then have len: "length (m_listen S) = ?n" "length (m_shut S) = ?n" by (simp_all add: main_inv_def)
  have "?n \<le> 4" by (simp add: servers_def)
  moreover have "main_rank S0 = 3 * ?n + 3"
    using assms(1) by (simp add: main_serving_def main_rank_def Let_def sum_list_replicate)
  ultimately have "k \<le> 15" using main_steps_rank[OF assms(2)] by linarith
  moreover have "m_cancelled S \<and> (\<forall>j<i. m_shut S ! j)" if "i < ?n" "m_shut S ! i" for i
    using inv that by (auto simp: main_inv_def shut_upto_def split: main_pc.splits)
  moreover have "(\<nexists>T. main_step S T) \<longleftrightarrow> m_pc S = MExit"
  proof
    assume "m_pc S = MExit"
    then show "\<nexists>T. main_step S T" using inv by (auto elim!: main_step.cases simp: main_inv_def list_all_length)
  qed (use main_not_stuck[OF inv] in blast)
  moreover have "m_cancelled S \<and> m_shut S = replicate ?n True \<and> m_listen S = replicate ?n LDone" if "m_pc S = MExit"
    using inv that len by (auto simp: main_inv_def shut_upto_def list_all_length intro: nth_equalityI)
  ultimately show ?thesis using send_not_blocked[OF inv] len by simp
qed

theorem shutdown_completes_witness:
  "\<exists>c S0 S. Load demo_url (\<lambda>_. None) demo_env = Inr c \<and> main_serving c S0 \<and> (main_step ^^ 1) S0 S \<and>
     m_pc S = MShutting 0 \<and> (\<exists>T. main_step S T)"
proof -
  obtain c where c: "Load demo_url (\<lambda>_. None) demo_env = Inr c" by (rule demo_load)
  obtain S0 where S0: "main_serving c S0" by (simp add: main_serving_def Let_def)
  let ?S = "S0\<lparr>m_cancelled := True, m_pc := MShutting 0\<rparr>"
  have "main_step S0 ?S" using S0 by (intro signal) (simp add: main_serving_def Let_def)
  then have st: "(main_step ^^ 1) S0 ?S" by (simp add: eq_OO)
  from shutdown_completes[OF S0 st] have "\<exists>T. main_step ?S T" by auto
  then show ?thesis using c S0 st by (intro exI[of _ c] exI[of _ S0] exI[of _ ?S]) simp
qed

end
