(* ===== verification/Gate_System.thy ===== *)
theory Gate_System
  imports Queue_Gate Yield_Properties
begin

text \<open>
  The gate, the scheduler and the yield controller together. Any number of gated requests of both lanes run
  against one scheduler and one controller, whose own events interleave with theirs, as do those of the
  Job worker, which is one more client of the scheduler. A request walks through \<^verbatim>\<open>Gate\<close> in the steps at
  which it meets the others: each read of the controller, each section of \<^verbatim>\<open>Acquire\<close> and \<^verbatim>\<open>Release\<close>, the start
  and the return of the upstream call. What it saw is kept, and \<open>gate_trip\<close> and \<open>gate_serve\<close> decide where it
  goes next, so the handler is the one of \<open>Queue_Gate\<close>. What \<^verbatim>\<open>parkFor\<close> returns is arbitrary here.
\<close>

section \<open>A request on its way\<close>

datatype gpc =
    GTop                     \<comment> \<open>top of the admission loop\<close>
  | GParking                 \<comment> \<open>in \<^verbatim>\<open>parkFor\<close>\<close>
  | GEntering                \<comment> \<open>about to call \<^verbatim>\<open>Acquire\<close>\<close>
  | GWaiting                 \<comment> \<open>in the select of \<^verbatim>\<open>Acquire\<close>\<close>
  | GHandingOn               \<comment> \<open>its wait is over but the slot was granted: \<^verbatim>\<open>Acquire\<close> releases it\<close>
  | GRecheck                 \<comment> \<open>slot held, before the second look at the controller\<close>
  | GBackOff                 \<comment> \<open>slot held, yielding: about to call \<^verbatim>\<open>Release\<close>\<close>
  | GAdmitted                \<comment> \<open>slot held, not yielding when it looked\<close>
  | GUpstream nat            \<comment> \<open>in the upstream call, with its serve context\<close>
  | GLeaving serve_obs       \<comment> \<open>the call is over, the deferred \<^verbatim>\<open>Release\<close> is not\<close>
  | GOver

record greq =
  q_cfg :: gate_cfg
  q_rnd :: "nat list option"
  q_pc :: gpc
  q_ob :: gate_obs           \<comment> \<open>what this trip saw so far\<close>
  q_seen :: "gate_obs list"  \<comment> \<open>the trips that are over\<close>
  q_st :: gate_st

record gsys =
  gy :: ysys
  gs :: sched_sys
  rq :: "tid \<Rightarrow> greq option"

definition no_obs :: gate_obs where
  "no_obs = \<lparr>o_yield1 = None, o_parkEnabled = False, o_park = parkReleased, o_parkFor = 0, o_since = 0,
     o_acquire = False, o_yield2 = False\<rparr>"

definition arrive :: "gate_cfg \<Rightarrow> nat list option \<Rightarrow> greq" where
  "arrive cfg rnd = \<lparr>q_cfg = cfg, q_rnd = rnd, q_pc = GTop, q_ob = no_obs, q_seen = [], q_st = gate_init (newRequestID rnd)\<rparr>"

text \<open>The end of a trip round the loop.\<close>

definition end_trip :: "gate_obs \<Rightarrow> greq \<Rightarrow> greq" where
  "end_trip ob q =
     (case gate_trip (q_cfg q) ob (q_st q) of
        Answered st \<Rightarrow> q\<lparr>q_pc := GOver, q_ob := no_obs, q_seen := q_seen q @ [ob], q_st := st\<rparr>
      | Again st \<Rightarrow> q\<lparr>q_pc := GTop, q_ob := no_obs, q_seen := q_seen q @ [ob], q_st := st\<rparr>
      | Admitted st \<Rightarrow> q\<lparr>q_pc := GAdmitted, q_ob := no_obs, q_seen := q_seen q @ [ob], q_st := st\<rparr>)"

section \<open>The events\<close>

datatype gev =
    RArrive tid gate_cfg "nat list option"
  | RCheck tid duration
  | RParked tid parkResult duration duration
  | REnter tid duration
  | RWoken tid duration
  | RTimeout tid duration
  | RHandOn tid
  | RRecheck tid
  | RBackOff tid
  | RServe tid
  | RReturn tid serve_obs
  | RLeave tid
  | RController yev
  | ROther sched_event       \<comment> \<open>the Job worker\<close>

definition put_req :: "tid \<Rightarrow> greq \<Rightarrow> gsys \<Rightarrow> gsys" where
  "put_req t q S = S\<lparr>rq := (rq S)(t \<mapsto> q)\<rparr>"

text \<open>Request \<open>t\<close> is at a given point; the step is taken with its local state.\<close>

definition at_pc :: "gpc \<Rightarrow> tid \<Rightarrow> gsys \<Rightarrow> (greq \<Rightarrow> gsys option) \<Rightarrow> gsys option" where
  "at_pc p t S k = (case rq S t of Some q \<Rightarrow> (if q_pc q = p then k q else None) | None \<Rightarrow> None)"

text \<open>A section of the scheduler on behalf of a request.\<close>

definition via_sched :: "sched_event \<Rightarrow> gsys \<Rightarrow> (sched_sys \<Rightarrow> gsys option) \<Rightarrow> gsys option" where
  "via_sched e S k = (case sched_exec e (gs S) of None \<Rightarrow> None | Some s \<Rightarrow> k s)"

text \<open>A look at the controller, which needs its mutex.\<close>

definition look :: "gsys \<Rightarrow> (bool \<times> string) option" where
  "look S = (if lk (gy S) = LFree then Some (Yielding (ctl (gy S))) else None)"

fun ev_tid :: "sched_event \<Rightarrow> tid option" where
  "ev_tid (EvAcquire t _) = Some t"
| "ev_tid (EvWoken t) = Some t"
| "ev_tid (EvCtxDone t) = Some t"
| "ev_tid (EvRelease t) = Some t"
| "ev_tid EvRecvPing = None"

fun gsys_exec :: "gev \<Rightarrow> gsys \<Rightarrow> gsys option" where
  "gsys_exec (RArrive t cfg rnd) S =
     (if rq S t = None \<and> pcs (gs S) t = Outside then Some (put_req t (arrive cfg rnd) S) else None)"
| "gsys_exec (RCheck t since) S =
     at_pc GTop t S (\<lambda>q. case look S of
         None \<Rightarrow> None
       | Some (y, reason) \<Rightarrow>
           (let ob = (q_ob q)\<lparr>o_yield1 := (if y then Some reason else None), o_parkEnabled := parkEnabled (sch (gs S)),
                  o_since := since\<rparr>
            in Some (put_req t (if \<not> y then q\<lparr>q_pc := GEntering, q_ob := ob\<rparr>
                 else if g_class (q_cfg q) = Batch \<and> parkEnabled (sch (gs S)) then q\<lparr>q_pc := GParking, q_ob := ob\<rparr>
                 else end_trip ob q) S)))"
| "gsys_exec (RParked t res d since) S =
     at_pc GParking t S (\<lambda>q. Some (put_req t (end_trip ((q_ob q)\<lparr>o_park := res, o_parkFor := d, o_since := since\<rparr>) q) S))"
| "gsys_exec (REnter t since) S =
     at_pc GEntering t S (\<lambda>q. via_sched (EvAcquire t (g_class (q_cfg q))) S (\<lambda>s.
       Some (put_req t (case pcs s t of
           Outside \<Rightarrow> end_trip ((q_ob q)\<lparr>o_acquire := False, o_since := since\<rparr>) q
         | Holding \<Rightarrow> q\<lparr>q_pc := GRecheck, q_ob := (q_ob q)\<lparr>o_acquire := True, o_since := since\<rparr>\<rparr>
         | _ \<Rightarrow> q\<lparr>q_pc := GWaiting\<rparr>) (S\<lparr>gs := s\<rparr>))))"
| "gsys_exec (RWoken t since) S =
     at_pc GWaiting t S (\<lambda>q. via_sched (EvWoken t) S (\<lambda>s.
       Some (put_req t (q\<lparr>q_pc := GRecheck, q_ob := (q_ob q)\<lparr>o_acquire := True, o_since := since\<rparr>\<rparr>) (S\<lparr>gs := s\<rparr>))))"
| "gsys_exec (RTimeout t since) S =
     at_pc GWaiting t S (\<lambda>q. via_sched (EvCtxDone t) S (\<lambda>s.
       Some (put_req t (let ob = (q_ob q)\<lparr>o_acquire := False, o_since := since\<rparr> in
         if pcs s t = HandingOn then q\<lparr>q_pc := GHandingOn, q_ob := ob\<rparr> else end_trip ob q) (S\<lparr>gs := s\<rparr>))))"
| "gsys_exec (RHandOn t) S =
     at_pc GHandingOn t S (\<lambda>q. via_sched (EvRelease t) S (\<lambda>s. Some (put_req t (end_trip (q_ob q) q) (S\<lparr>gs := s\<rparr>))))"
| "gsys_exec (RRecheck t) S =
     at_pc GRecheck t S (\<lambda>q. case look S of
         None \<Rightarrow> None
       | Some (y, _) \<Rightarrow> Some (put_req t (let ob = (q_ob q)\<lparr>o_yield2 := y\<rparr> in
           if y then q\<lparr>q_pc := GBackOff, q_ob := ob\<rparr> else end_trip ob q) S))"
| "gsys_exec (RBackOff t) S =
     at_pc GBackOff t S (\<lambda>q. via_sched (EvRelease t) S (\<lambda>s. Some (put_req t (end_trip (q_ob q) q) (S\<lparr>gs := s\<rparr>))))"
| "gsys_exec (RServe t) S =
     at_pc GAdmitted t S (\<lambda>q. if lk (gy S) = LFree
       then Some (put_req t (q\<lparr>q_pc := GUpstream (ServeContext (ctl (gy S)))\<rparr>) S) else None)"
| "gsys_exec (RReturn t v) S =
     (case rq S t of
        Some q \<Rightarrow>
          (case q_pc q of
             GUpstream x \<Rightarrow>
               (if v_serveDone v = (x \<in> closedc (ctxs (gy S))) then Some (put_req t (q\<lparr>q_pc := GLeaving v\<rparr>) S) else None)
           | _ \<Rightarrow> None)
      | None \<Rightarrow> None)"
| "gsys_exec (RLeave t) S =
     (case rq S t of
        Some q \<Rightarrow>
          (case q_pc q of
             GLeaving v \<Rightarrow> via_sched (EvRelease t) S (\<lambda>s.
               Some (put_req t (q\<lparr>q_pc := GOver, q_st := gate_serve (q_cfg q) v (q_st q)\<rparr>) (S\<lparr>gs := s\<rparr>)))
           | _ \<Rightarrow> None)
      | None \<Rightarrow> None)"
| "gsys_exec (RController e) S = (case yield_exec e (gy S) of None \<Rightarrow> None | Some y \<Rightarrow> Some (S\<lparr>gy := y\<rparr>))"
| "gsys_exec (ROther e) S =
     (if case ev_tid e of None \<Rightarrow> True | Some t \<Rightarrow> rq S t = None
      then via_sched e S (\<lambda>s. Some (S\<lparr>gs := s\<rparr>)) else None)"

text \<open>The start: a configured scheduler, a fresh controller, no request.\<close>

definition gsys_start :: "int \<Rightarrow> gsys \<Rightarrow> bool" where
  "gsys_start maxi S \<longleftrightarrow>
     (\<exists>maxw hld mq burst sd. gs S = (sched_start maxw maxi)\<lparr>sch := SetShutdownContext sd (SetParkConfig hld mq burst (sch (sched_start maxw maxi)))\<rparr>)
     \<and> yield_start (gy S) \<and> rq S = (\<lambda>_. None)"

section \<open>The invariant\<close>

text \<open>Where a request is and what it has of the scheduler.\<close>

fun slot_at :: "Class \<Rightarrow> gpc \<Rightarrow> pc \<Rightarrow> bool" where
  "slot_at c GTop p \<longleftrightarrow> p = Outside"
| "slot_at c GParking p \<longleftrightarrow> p = Outside"
| "slot_at c GEntering p \<longleftrightarrow> p = Outside"
| "slot_at c GWaiting p \<longleftrightarrow> (\<exists>w. p = Waiting c w)"
| "slot_at c GHandingOn p \<longleftrightarrow> p = HandingOn"
| "slot_at c GOver p \<longleftrightarrow> p = Outside"
| "slot_at c _ p \<longleftrightarrow> p = Holding"

text \<open>Trips that all went round again.\<close>

fun trips :: "gate_cfg \<Rightarrow> gate_obs list \<Rightarrow> gate_st \<Rightarrow> gate_st option" where
  "trips cfg [] st = Some st"
| "trips cfg (ob # obs) st = (case gate_trip cfg ob st of Again st' \<Rightarrow> trips cfg obs st' | _ \<Rightarrow> None)"

lemma trips_snoc:
  "trips cfg obs st = Some st1 \<Longrightarrow> gate_trip cfg ob st1 = Again st2 \<Longrightarrow> trips cfg (obs @ [ob]) st = Some st2"
  by (induction obs arbitrary: st) (auto split: trip.splits)

lemma trips_loop: "trips cfg obs st = Some st1 \<Longrightarrow> gate_loop cfg v (obs @ rest) st = gate_loop cfg v rest st1"
  by (induction obs arbitrary: st) (auto split: trip.splits)

definition so_far :: "greq \<Rightarrow> bool" where
  "so_far q \<longleftrightarrow>
     (case q_pc q of
        GParking \<Rightarrow> o_yield1 (q_ob q) \<noteq> None
      | GEntering \<Rightarrow> o_yield1 (q_ob q) = None
      | GWaiting \<Rightarrow> o_yield1 (q_ob q) = None
      | GHandingOn \<Rightarrow> o_yield1 (q_ob q) = None \<and> \<not> o_acquire (q_ob q)
      | GRecheck \<Rightarrow> o_yield1 (q_ob q) = None \<and> o_acquire (q_ob q)
      | GBackOff \<Rightarrow> o_yield1 (q_ob q) = None \<and> o_acquire (q_ob q) \<and> o_yield2 (q_ob q)
      | _ \<Rightarrow> True)"

text \<open>The request's past is a run of the handler.\<close>

definition past_loop :: "greq \<Rightarrow> bool" where
  "past_loop q \<longleftrightarrow> trips (q_cfg q) (q_seen q) (gate_init (newRequestID (q_rnd q))) = Some (q_st q)"

definition past_admitted :: "greq \<Rightarrow> bool" where
  "past_admitted q \<longleftrightarrow> (\<exists>obs ob st. q_seen q = obs @ [ob] \<and>
     trips (q_cfg q) obs (gate_init (newRequestID (q_rnd q))) = Some st \<and> gate_trip (q_cfg q) ob st = Admitted (q_st q))"

definition past_over :: "greq \<Rightarrow> bool" where
  "past_over q \<longleftrightarrow> (\<exists>v. Gate (q_cfg q) (q_rnd q) (q_seen q) v = Some (q_st q))"

definition past :: "greq \<Rightarrow> bool" where
  "past q \<longleftrightarrow>
     (case q_pc q of
        GOver \<Rightarrow> past_over q
      | GAdmitted \<Rightarrow> past_admitted q
      | GUpstream _ \<Rightarrow> past_admitted q
      | GLeaving _ \<Rightarrow> past_admitted q
      | _ \<Rightarrow> past_loop q \<and> so_far q)"

definition req_ok :: "heap \<Rightarrow> pc \<Rightarrow> greq \<Rightarrow> bool" where
  "req_ok cx p q \<longleftrightarrow> slot_at (g_class (q_cfg q)) (q_pc q) p \<and> past q \<and> (\<forall>x. q_pc q = GUpstream x \<longrightarrow> x < nextc cx)"

definition gsys_inv :: "gsys \<Rightarrow> bool" where
  "gsys_inv S \<longleftrightarrow> yield_inv (gy S) \<and> sched_inv (gs S) \<and>
     (\<forall>t q. rq S t = Some q \<longrightarrow> req_ok (ctxs (gy S)) (pcs (gs S) t) q)"

lemmas past_defs = past_def past_loop_def past_admitted_def past_over_def so_far_def

subsection \<open>The end of a trip\<close>

lemma end_trip_past:
  assumes "past_loop q"
  shows "past (end_trip ob q)"
proof (cases "gate_trip (q_cfg q) ob (q_st q)")
  case (Answered st)
  then have "Gate (q_cfg q) (q_rnd q) (q_seen q @ [ob]) undefined = Some st"
    using assms unfolding past_loop_def Gate_def by (simp add: trips_loop)
  then show ?thesis using Answered by (auto simp: end_trip_def past_defs)
next
  case (Again st)
  then show ?thesis using assms by (simp add: end_trip_def past_defs trips_snoc)
next
  case (Admitted st)
  then show ?thesis using assms by (auto simp: end_trip_def past_defs)
qed

lemma end_trip_cfg [simp]: "q_cfg (end_trip ob q) = q_cfg q"
  by (simp add: end_trip_def split: trip.split)

text \<open>Only a trip that got the slot outside a yield is admitted; every other one leaves without it.\<close>

lemma end_trip_pc:
  "q_pc (end_trip ob q) =
     (if o_yield1 ob = None \<and> o_acquire ob \<and> \<not> o_yield2 ob then GAdmitted
      else if \<exists>st. gate_trip (q_cfg q) ob (q_st q) = Again st then GTop else GOver)"
  by (auto simp: end_trip_def gate_trip_def Let_def split: trip.split option.split parkResult.split)

lemma end_trip_ok:
  assumes "past_loop q"
  shows "(o_yield1 ob = None \<and> o_acquire ob \<and> \<not> o_yield2 ob \<Longrightarrow> req_ok cx Holding (end_trip ob q))"
    and "(\<not> (o_yield1 ob = None \<and> o_acquire ob \<and> \<not> o_yield2 ob) \<Longrightarrow> req_ok cx Outside (end_trip ob q))"
  using end_trip_past [OF assms, of ob] by (auto simp: req_ok_def end_trip_pc)

subsection \<open>Sections of the scheduler\<close>

lemma sched_exec_others:
  assumes "sched_exec e s = Some s'" and "ev_tid e \<noteq> Some t"
  shows "pcs s' t = pcs s t"
  using assms by (cases e) (auto split: if_splits prod.splits acquire_result.splits pc.splits bool.splits option.splits)

lemma sched_exec_own:
  assumes "sched_inv s" and "sched_exec e s = Some s'"
  shows "e = EvAcquire t c \<Longrightarrow> pcs s' t = Outside \<or> pcs s' t = Holding \<or> (\<exists>w. pcs s' t = Waiting c w)"
    and "e = EvWoken t \<Longrightarrow> pcs s' t = Holding"
    and "e = EvCtxDone t \<Longrightarrow> pcs s' t = Outside \<or> pcs s' t = HandingOn"
    and "e = EvRelease t \<Longrightarrow> pcs s' t = Outside"
proof -
  have "\<not> panicked s'" using sched_exec_inv [OF assms] by (simp add: sched_inv_def)
  then show "e = EvRelease t \<Longrightarrow> pcs s' t = Outside"
    using assms(2) by (auto split: if_splits option.splits prod.splits)
qed (use assms(2) in \<open>auto split: if_splits prod.splits acquire_result.splits pc.splits bool.splits\<close>)

subsection \<open>Every step keeps it\<close>

text \<open>A step of request \<open>t\<close> that moves the scheduler to \<open>s\<close> and the request to \<open>q\<close>.\<close>

lemma gsys_inv_put:
  assumes "gsys_inv S" and "sched_inv s" and "\<And>u. u \<noteq> t \<Longrightarrow> pcs s u = pcs (gs S) u"
    and "req_ok (ctxs (gy S)) (pcs s t) q"
  shows "gsys_inv (put_req t q (S\<lparr>gs := s\<rparr>))"
  using assms by (auto simp: gsys_inv_def put_req_def)

lemma gsys_inv_put_only:
  assumes "gsys_inv S" and "req_ok (ctxs (gy S)) (pcs (gs S) t) q"
  shows "gsys_inv (put_req t q S)"
  using gsys_inv_put [OF assms(1), of "gs S" t q] assms by (simp add: gsys_inv_def)

lemma gsys_inv_via:
  assumes "gsys_inv S" and "via_sched e S (\<lambda>s. Some (put_req t (f s) (S\<lparr>gs := s\<rparr>))) = Some S'" and "ev_tid e = Some t"
    and "\<And>s. sched_exec e (gs S) = Some s \<Longrightarrow> req_ok (ctxs (gy S)) (pcs s t) (f s)"
  shows "gsys_inv S'"
proof -
  obtain s where s: "sched_exec e (gs S) = Some s" "S' = put_req t (f s) (S\<lparr>gs := s\<rparr>)"
    using assms(2) by (auto simp: via_sched_def split: option.splits)
  have "sched_inv s" using sched_exec_inv [OF _ s(1)] assms(1) by (simp add: gsys_inv_def)
  then show ?thesis unfolding s(2) using sched_exec_others [OF s(1)] assms s(1)
    by (intro gsys_inv_put) auto
qed

lemma at_pcE:
  assumes "at_pc p t S k = Some S'" and "gsys_inv S"
  obtains q where "rq S t = Some q" "q_pc q = p" "k q = Some S'" "req_ok (ctxs (gy S)) (pcs (gs S) t) q"
  using assms by (auto simp: at_pc_def gsys_inv_def split: option.splits if_splits)

lemma reqD: "gsys_inv S \<Longrightarrow> rq S t = Some q \<Longrightarrow> req_ok (ctxs (gy S)) (pcs (gs S) t) q"
  by (simp add: gsys_inv_def)

text \<open>Steps that only look.\<close>

lemma look_step_inv:
  assumes inv: "gsys_inv S" and ex: "gsys_exec e S = Some S'"
    and e: "e = RCheck t since \<or> e = RParked t res d since \<or> e = RRecheck t \<or> e = RServe t"
  shows "gsys_inv S'"
  using e
proof (elim disjE)
  assume "e = RCheck t since"
  then have "at_pc GTop t S (\<lambda>q. case look S of None \<Rightarrow> None | Some (y, reason) \<Rightarrow>
      (let ob = (q_ob q)\<lparr>o_yield1 := (if y then Some reason else None), o_parkEnabled := parkEnabled (sch (gs S)), o_since := since\<rparr>
       in Some (put_req t (if \<not> y then q\<lparr>q_pc := GEntering, q_ob := ob\<rparr>
            else if g_class (q_cfg q) = Batch \<and> parkEnabled (sch (gs S)) then q\<lparr>q_pc := GParking, q_ob := ob\<rparr>
            else end_trip ob q) S))) = Some S'" using ex by simp
  from this inv show ?thesis
  proof (rule at_pcE, goal_cases)
    case (1 q)
    then have "past_loop q" "pcs (gs S) t = Outside" by (auto simp: req_ok_def past_def)
    with 1 show ?thesis
      by (auto simp: Let_def split: option.splits if_splits intro!: gsys_inv_put_only [OF inv] end_trip_ok(2))
        (auto simp: req_ok_def past_def past_loop_def so_far_def)
  qed
next
  assume "e = RParked t res d since"
  then have "at_pc GParking t S (\<lambda>q. Some (put_req t (end_trip ((q_ob q)\<lparr>o_park := res, o_parkFor := d, o_since := since\<rparr>) q) S)) = Some S'"
    using ex by simp
  from this inv show ?thesis
  proof (rule at_pcE, goal_cases)
    case (1 q)
    then have "past_loop q" "pcs (gs S) t = Outside" "o_yield1 (q_ob q) \<noteq> None" by (auto simp: req_ok_def past_def so_far_def)
    with 1 show ?thesis by (auto intro!: gsys_inv_put_only [OF inv] end_trip_ok(2))
  qed
next
  assume "e = RRecheck t"
  then have "at_pc GRecheck t S (\<lambda>q. case look S of None \<Rightarrow> None | Some (y, _) \<Rightarrow> Some (put_req t (let ob = (q_ob q)\<lparr>o_yield2 := y\<rparr> in
      if y then q\<lparr>q_pc := GBackOff, q_ob := ob\<rparr> else end_trip ob q) S)) = Some S'" using ex by simp
  from this inv show ?thesis
  proof (rule at_pcE, goal_cases)
    case (1 q)
    then have "past_loop q" "pcs (gs S) t = Holding" "o_yield1 (q_ob q) = None" "o_acquire (q_ob q)"
      by (auto simp: req_ok_def past_def so_far_def)
    with 1 show ?thesis
      by (auto simp: Let_def split: option.splits if_splits intro!: gsys_inv_put_only [OF inv] end_trip_ok(1))
        (auto simp: req_ok_def past_def past_loop_def so_far_def)
  qed
next
  assume "e = RServe t"
  then have "at_pc GAdmitted t S (\<lambda>q. if lk (gy S) = LFree
      then Some (put_req t (q\<lparr>q_pc := GUpstream (ServeContext (ctl (gy S)))\<rparr>) S) else None) = Some S'" using ex by simp
  from this inv show ?thesis
  proof (rule at_pcE, goal_cases)
    case (1 q)
    have "ServeContext (ctl (gy S)) < nextc (ctxs (gy S))" using adm.current_handed inv by (simp add: gsys_inv_def)
    with 1 show ?thesis
      by (auto split: if_splits intro!: gsys_inv_put_only [OF inv]) (auto simp: req_ok_def past_def past_admitted_def)
  qed
qed

text \<open>Steps through the scheduler.\<close>

lemma acquire_step_inv:
  assumes inv: "gsys_inv S" and ex: "gsys_exec (REnter t since) S = Some S'"
  shows "gsys_inv S'"
proof -
  from ex have "at_pc GEntering t S (\<lambda>q. via_sched (EvAcquire t (g_class (q_cfg q))) S (\<lambda>s.
      Some (put_req t (case pcs s t of
          Outside \<Rightarrow> end_trip ((q_ob q)\<lparr>o_acquire := False, o_since := since\<rparr>) q
        | Holding \<Rightarrow> q\<lparr>q_pc := GRecheck, q_ob := (q_ob q)\<lparr>o_acquire := True, o_since := since\<rparr>\<rparr>
        | _ \<Rightarrow> q\<lparr>q_pc := GWaiting\<rparr>) (S\<lparr>gs := s\<rparr>)))) = Some S'" by simp
  from this inv show ?thesis
  proof (rule at_pcE, goal_cases)
    case (1 q)
    then have q: "past_loop q" "o_yield1 (q_ob q) = None" by (auto simp: req_ok_def past_def so_far_def)
    from inv 1(3) show ?thesis
    proof (rule gsys_inv_via, goal_cases)
      case (2 s)
      have "sched_inv (gs S)" using inv by (simp add: gsys_inv_def)
      from sched_exec_own(1) [OF this 2 refl] show ?case
        using q by (auto intro!: end_trip_ok(2)) (auto simp: req_ok_def past_def past_loop_def so_far_def)
    qed simp
  qed
qed

lemma wait_step_inv:
  assumes inv: "gsys_inv S" and ex: "gsys_exec e S = Some S'" and e: "e = RWoken t since \<or> e = RTimeout t since"
  shows "gsys_inv S'"
proof -
  have si: "sched_inv (gs S)" using inv by (simp add: gsys_inv_def)
  obtain q where q': "rq S t = Some q" "q_pc q = GWaiting"
    using ex e by (auto simp: at_pc_def split: option.splits if_splits)
  with reqD [OF inv q'(1)] have q: "rq S t = Some q" "q_pc q = GWaiting" "past_loop q" "o_yield1 (q_ob q) = None"
    by (simp_all add: req_ok_def past_def so_far_def)
  from e show ?thesis
  proof
    assume "e = RWoken t since"
    then have "via_sched (EvWoken t) S (\<lambda>s.
       Some (put_req t (q\<lparr>q_pc := GRecheck, q_ob := (q_ob q)\<lparr>o_acquire := True, o_since := since\<rparr>\<rparr>) (S\<lparr>gs := s\<rparr>))) = Some S'"
      using ex q by (simp add: at_pc_def)
    then show ?thesis
      by (rule gsys_inv_via [OF inv]) (use sched_exec_own(2) [OF si] q in \<open>auto simp: req_ok_def past_def past_loop_def so_far_def\<close>)
  next
    assume "e = RTimeout t since"
    then have "via_sched (EvCtxDone t) S (\<lambda>s.
       Some (put_req t (let ob = (q_ob q)\<lparr>o_acquire := False, o_since := since\<rparr> in
         if pcs s t = HandingOn then q\<lparr>q_pc := GHandingOn, q_ob := ob\<rparr> else end_trip ob q) (S\<lparr>gs := s\<rparr>))) = Some S'"
      using ex q by (simp add: at_pc_def)
    then show ?thesis
    proof (rule gsys_inv_via [OF inv], goal_cases)
      case (2 s)
      from sched_exec_own(3) [OF si 2 refl] show ?case using q
        by (auto simp: Let_def intro!: end_trip_ok(2)) (auto simp: req_ok_def past_def past_loop_def so_far_def)
    qed simp
  qed
qed

lemma release_step_inv:
  assumes inv: "gsys_inv S" and ex: "gsys_exec e S = Some S'" and e: "e = RHandOn t \<or> e = RBackOff t"
  shows "gsys_inv S'"
proof -
  have si: "sched_inv (gs S)" using inv by (simp add: gsys_inv_def)
  obtain q where q': "rq S t = Some q" "q_pc q = GHandingOn \<or> q_pc q = GBackOff"
    and r: "via_sched (EvRelease t) S (\<lambda>s. Some (put_req t (end_trip (q_ob q) q) (S\<lparr>gs := s\<rparr>))) = Some S'"
    using ex e by (auto simp: at_pc_def split: option.splits if_splits)
  with reqD [OF inv q'(1)] have q: "past_loop q" "\<not> (o_yield1 (q_ob q) = None \<and> o_acquire (q_ob q) \<and> \<not> o_yield2 (q_ob q))"
    by (auto simp: req_ok_def past_def so_far_def)
  from r show ?thesis
  proof (rule gsys_inv_via [OF inv], goal_cases)
    case (2 s)
    then show ?case using sched_exec_own(4) [OF si 2 refl] end_trip_ok(2) [OF q] by simp
  qed simp
qed

lemma return_step_inv:
  assumes inv: "gsys_inv S" and ex: "gsys_exec (RReturn t v) S = Some S'"
  shows "gsys_inv S'"
proof -
  obtain q x where q: "rq S t = Some q" "q_pc q = GUpstream x" "S' = put_req t (q\<lparr>q_pc := GLeaving v\<rparr>) S"
    using ex by (auto split: option.splits gpc.splits if_splits)
  then have "req_ok (ctxs (gy S)) (pcs (gs S) t) q" using inv by (simp add: gsys_inv_def)
  then have "req_ok (ctxs (gy S)) (pcs (gs S) t) (q\<lparr>q_pc := GLeaving v\<rparr>)" using q(2) by (simp add: req_ok_def past_def past_admitted_def)
  then show ?thesis unfolding q(3) by (rule gsys_inv_put_only [OF inv])
qed

lemma leave_step_inv:
  assumes inv: "gsys_inv S" and ex: "gsys_exec (RLeave t) S = Some S'"
  shows "gsys_inv S'"
proof -
  have si: "sched_inv (gs S)" using inv by (simp add: gsys_inv_def)
  obtain q v where q: "rq S t = Some q" "q_pc q = GLeaving v"
    and r: "via_sched (EvRelease t) S (\<lambda>s.
      Some (put_req t (q\<lparr>q_pc := GOver, q_st := gate_serve (q_cfg q) v (q_st q)\<rparr>) (S\<lparr>gs := s\<rparr>))) = Some S'"
    using ex by (auto split: option.splits gpc.splits)
  then have "past_admitted q" using reqD [OF inv q(1)] by (simp add: req_ok_def past_def)
  then have "Gate (q_cfg q) (q_rnd q) (q_seen q) v = Some (gate_serve (q_cfg q) v (q_st q))"
    by (auto simp: past_admitted_def Gate_def trips_loop)
  then have "past_over (q\<lparr>q_pc := GOver, q_st := gate_serve (q_cfg q) v (q_st q)\<rparr>)" by (auto simp: past_over_def)
  then have ok: "req_ok (ctxs (gy S)) Outside (q\<lparr>q_pc := GOver, q_st := gate_serve (q_cfg q) v (q_st q)\<rparr>)"
    by (simp add: req_ok_def past_def)
  from r show ?thesis
  proof (rule gsys_inv_via [OF inv], goal_cases)
    case (2 s)
    then show ?case using sched_exec_own(4) [OF si 2 refl] ok by simp
  qed simp
qed

lemma gsys_exec_inv:
  assumes inv: "gsys_inv S" and ex: "gsys_exec e S = Some S'"
  shows "gsys_inv S'"
proof (cases e)
  case (RArrive t cfg rnd)
  then have "S' = put_req t (arrive cfg rnd) S" "pcs (gs S) t = Outside" using ex by (auto split: if_splits)
  then show ?thesis using inv
    by (auto intro!: gsys_inv_put_only simp: req_ok_def past_defs arrive_def)
next
  case (RController ye)
  then obtain y where y: "yield_exec ye (gy S) = Some y" "S' = S\<lparr>gy := y\<rparr>" using ex by (auto split: option.splits)
  then show ?thesis using inv yield_exec_inv [OF _ y(1)] yield_exec_ctxs(1) [OF y(1)]
    by (fastforce simp: gsys_inv_def req_ok_def)
next
  case (ROther se)
  then obtain s where s: "sched_exec se (gs S) = Some s" "S' = S\<lparr>gs := s\<rparr>"
    and free: "\<And>t. ev_tid se = Some t \<Longrightarrow> rq S t = None"
    using ex by (auto simp: via_sched_def split: option.splits if_splits)
  have "pcs s t = pcs (gs S) t" if "rq S t = Some q" for t q using sched_exec_others [OF s(1), of t] free that by force
  then show ?thesis using inv sched_exec_inv [OF _ s(1)] s(2) by (auto simp: gsys_inv_def)
next
  case (RCheck t since)
  then show ?thesis using look_step_inv [OF assms] by blast
next
  case (RParked t res d since)
  then show ?thesis using look_step_inv [OF assms] by blast
next
  case (RRecheck t)
  then show ?thesis using look_step_inv [OF assms] by blast
next
  case (RServe t)
  then show ?thesis using look_step_inv [OF assms] by blast
next
  case (RWoken t since)
  then show ?thesis using wait_step_inv [OF assms] by blast
next
  case (RTimeout t since)
  then show ?thesis using wait_step_inv [OF assms] by blast
next
  case (RHandOn t)
  then show ?thesis using release_step_inv [OF assms] by blast
next
  case (RBackOff t)
  then show ?thesis using release_step_inv [OF assms] by blast
qed (use ex acquire_step_inv [OF inv] return_step_inv [OF inv] leave_step_inv [OF inv] in simp_all)

lemma gsys_start_inv:
  assumes "gsys_start maxi S"
  shows "gsys_inv S"
proof -
  obtain maxw hld mq burst sd where g: "gs S = (sched_start maxw maxi)\<lparr>sch :=
      SetShutdownContext sd (SetParkConfig hld mq burst (sch (sched_start maxw maxi)))\<rparr>"
    using assms unfolding gsys_start_def by blast
  define s where "s = sched_start maxw maxi"
  have s: "sched_inv s" by (simp add: s_def sched_start_inv)
  obtain p where S: "gs S = s\<lparr>sch := (sch s)\<lparr>park := p, shutdownCtx := sd\<rparr>\<rparr>"
    using g by (simp add: s_def SetShutdownContext_def SetParkConfig_def Let_def)
  have "owners (gs S) = owners s" by (simp add: S owners_def)
  moreover have "line_ok (gs S) = line_ok s" by (simp add: S line_ok_def queue_of_class_def)
  ultimately have "sched_inv (gs S)" using s by (auto simp: S sched_inv_def slots_ok_def caps_ok_def)
  then show ?thesis using assms yield_start_inv by (simp add: gsys_start_def gsys_inv_def)
qed

interpretation gated: event_system gsys_exec "gsys_start maxi" gsys_inv
  by unfold_locales (auto intro: gsys_start_inv gsys_exec_inv)

section \<open>The composed system\<close>

text \<open>A run of the whole is a run of each part, so what is shown of the parts holds in it.\<close>

lemma gsys_exec_parts:
  assumes "gsys_exec e S = Some S'"
  shows "gs S' = gs S \<or> (\<exists>se. sched_exec se (gs S) = Some (gs S'))"
    and "gy S' = gy S \<or> (\<exists>ye. yield_exec ye (gy S) = Some (gy S'))"
  using assms
  by (cases e; auto simp: at_pc_def via_sched_def put_req_def Let_def simp del: sched_exec.simps yield_exec.simps
      split: option.splits if_splits gpc.splits)+

lemma gsys_run_parts:
  assumes "run_events gsys_exec es S = Some S'"
  shows "(\<exists>ss. run_events sched_exec ss (gs S) = Some (gs S')) \<and> (\<exists>ys. run_events yield_exec ys (gy S) = Some (gy S'))"
  using assms
proof (induction es arbitrary: S' rule: rev_induct)
  case Nil
  then have "S' = S" by simp
  then show ?case by (metis run_events.simps(1))
next
  case (snoc e es)
  then obtain S1 where S1: "run_events gsys_exec es S = Some S1" "gsys_exec e S1 = Some S'"
    by (auto simp: run_events_append split: option.splits)
  show ?case using snoc.IH [OF S1(1)] gsys_exec_parts [OF S1(2)] run_snoc by metis
qed

text \<open>The requests in their upstream call, and the slots held by others than gated requests.\<close>

definition in_upstream :: "gsys \<Rightarrow> tid set" where
  "in_upstream S = {t. \<exists>q x. rq S t = Some q \<and> q_pc q = GUpstream x}"

definition other_holders :: "gsys \<Rightarrow> tid set" where
  "other_holders S = {t. rq S t = None \<and> pcs (gs S) t = Holding}"

lemma upstream_owns:
  assumes "gsys_inv S"
  shows "in_upstream S \<union> other_holders S \<subseteq> owners (gs S)"
proof -
  have "pcs (gs S) t = Holding" if "rq S t = Some q" "q_pc q = GUpstream x" for t q x
    using reqD [OF assms that(1)] that(2) by (simp add: req_ok_def)
  then show ?thesis by (auto simp: in_upstream_def other_holders_def owners_def)
qed

text \<open>
  The GPU is never shared and always given back. However any number of requests of both lanes, the Job
  worker, the polls, overrides and unloads interleave: the upstream calls in progress and the slots the
  worker holds are together never more than the configured limit; while the broker yields, the context of
  every upstream call in progress is cancelled, also of one that was admitted just before; a request whose
  handler is over holds no slot, and it went through exactly a run of the handler on what it saw, so it was
  answered and tallied as that run is; and the parts ran as they do alone.
\<close>

lemma gated_run_safe:
  assumes "gsys_start maxi S0" and "run_events gsys_exec es S0 = Some S"
  shows "finite (in_upstream S \<union> other_holders S) \<and> int (card (in_upstream S \<union> other_holders S)) \<le> max 1 maxi \<and>
    (\<forall>t q x. rq S t = Some q \<and> q_pc q = GUpstream x \<and> fst (Yielding (ctl (gy S))) \<longrightarrow> x \<in> closedc (ctxs (gy S))) \<and>
    (\<forall>t q. rq S t = Some q \<and> q_pc q = GOver \<longrightarrow>
       pcs (gs S) t = Outside \<and> (\<exists>v. Gate (q_cfg q) (q_rnd q) (q_seen q) v = Some (q_st q))) \<and>
    (\<exists>ss. run_events sched_exec ss (gs S0) = Some (gs S)) \<and> (\<exists>ys. run_events yield_exec ys (gy S0) = Some (gy S))"
proof -
  have inv: "gsys_inv S" by (rule gated.run_inv [OF assms])
  note parts = gsys_run_parts [OF assms(2)]
  have "maxInflight (sch (gs S)) = maxInflight (sch (gs S0))" using parts sched_run_frame by blast
  also have "\<dots> = max 1 maxi" using assms(1) sched_start_config(1) [of _ maxi]
    by (auto simp: gsys_start_def SetShutdownContext_def SetParkConfig_def Let_def)
  finally have m: "maxInflight (sch (gs S)) = max 1 maxi" .
  have so: "slots_ok (gs S)" using inv by (simp add: gsys_inv_def sched_inv_def)
  then have fin: "finite (owners (gs S))" and c: "int (card (owners (gs S))) \<le> max 1 maxi"
    using m by (simp_all add: slots_ok_def)
  have sub: "in_upstream S \<union> other_holders S \<subseteq> owners (gs S)" by (rule upstream_owns [OF inv])
  have "int (card (in_upstream S \<union> other_holders S)) \<le> max 1 maxi" using card_mono [OF fin sub] c by linarith
  moreover have "finite (in_upstream S \<union> other_holders S)" by (rule finite_subset [OF sub fin])
  moreover have "x \<in> closedc (ctxs (gy S))" if "rq S t = Some q" "q_pc q = GUpstream x" "fst (Yielding (ctl (gy S)))" for t q x
    using reqD [OF inv that(1)] that(2,3) adm.yielding_cancels [of "gy S" x] inv by (simp add: req_ok_def gsys_inv_def)
  moreover have "pcs (gs S) t = Outside \<and> (\<exists>v. Gate (q_cfg q) (q_rnd q) (q_seen q) v = Some (q_st q))"
    if "rq S t = Some q" "q_pc q = GOver" for t q
    using reqD [OF inv that(1)] that(2) by (simp add: req_ok_def past_def past_over_def)
  ultimately show ?thesis using parts by blast
qed

text \<open>A batch request is in its upstream call when an operator has the broker yield.\<close>

definition demo_gsys :: gsys where
  "demo_gsys = \<lparr>gy = demo_controller [] [] 2, gs = (sched_start 8 1)\<lparr>sch := SetShutdownContext None (SetParkConfig 5 4 1 (sch (sched_start 8 1)))\<rparr>,
     rq = (\<lambda>_. None)\<rparr>"

lemma gated_run_aborted:
  "\<exists>S q x. run_events gsys_exec [RArrive 0 demo_cfg None, RCheck 0 1, REnter 0 2, RRecheck 0, RServe 0, RController (YSetMode ModeForceYield)]
      demo_gsys = Some S
    \<and> rq S 0 = Some q \<and> q_pc q = GUpstream x \<and> x \<in> closedc (ctxs (gy S))"
proof -
  let ?es = "[RArrive 0 demo_cfg None, RCheck 0 1, REnter 0 2, RRecheck 0, RServe 0, RController (YSetMode ModeForceYield)]"
  have start: "gsys_start 1 demo_gsys"
    unfolding gsys_start_def demo_gsys_def gsys.simps using demo_controller_start [of "[]" "[]" 2]
    by (intro conjI exI [of _ 8] exI [of _ 5] exI [of _ 4] exI [of _ 1] exI [of _ None]) simp_all
  obtain S q x where S: "run_events gsys_exec ?es demo_gsys = Some S" "rq S 0 = Some q" "q_pc q = GUpstream x"
    "fst (Yielding (ctl (gy S)))"
    by (simp add: demo_gsys_def yield_eval sched_start_def New_def broker_defs SetShutdownContext_def SetParkConfig_def
        at_pc_def via_sched_def look_def Yielding_def Acquire_def put_req_def arrive_def end_trip_def gate_trip_def no_obs_def
        demo_cfg_def ServeContext_def)
  from gated_run_safe [OF start S(1)] S show ?thesis by blast
qed

end
