(* ===== verification/Proxy_Lane.thy ===== *)
theory Proxy_Lane
  imports Queue_Gate Upstream_Proxy
begin

text \<open>
  A lane that forwards to Ollama: the gate around the reverse proxy. The upstream handler of the gate is
  \<^verbatim>\<open>proxy.New\<close>, so what the client gets is determined by what the network did on the attempts of the
  transport.
\<close>

text \<open>The handler's observations of an upstream call that is the proxy's.\<close>

definition proxied :: "(header \<Rightarrow> header) \<Rightarrow> nat option \<Rightarrow> (nat \<Rightarrow> proxy_answer rt_attempt) \<Rightarrow> int \<Rightarrow> reader \<Rightarrow> serve_obs \<Rightarrow> bool" where
  "proxied hop cutAt net n b v \<longleftrightarrow>
     v_response v = (\<lambda>w. fst (proxy_ServeHTTP hop cutAt net n b w)) \<and> v_panic v = snd (proxy_ServeHTTP hop cutAt net n b empty_response)"

definition is_deferral :: "goerr \<Rightarrow> bool" where
  "is_deferral e \<longleftrightarrow> errors_Is e (CtxErr Canceled) \<or> errors_Is e (CtxErr DeadlineExceeded)"

text \<open>What the gate puts into the response before the call.\<close>

definition opened :: "gate_cfg \<Rightarrow> string \<Rightarrow> response \<Rightarrow> bool" where
  "opened cfg i w \<longleftrightarrow> status w = None \<and> body w = [] \<and> hdrs w ''X-Broker-Status'' = Some ''served'' \<and>
     hdrs w ''Trailer:X-Broker-Status'' = Some ''served'' \<and> hdrs w ''X-Broker-Request-Id'' = Some i"

lemma served_response:
  assumes "Gate cfg rnd obs v = Some st" and "GServe \<in> set (g_trace st)"
  obtains w where "opened cfg (newRequestID rnd) w"
    "w_resp st = (if v_panic v then v_response v w else set_header ''Trailer:X-Broker-Status'' (final_outcome cfg v) (v_response v w))"
proof -
  have "GServe \<in> set (g_trace st) \<longrightarrow> (\<exists>w. opened cfg (newRequestID rnd) w \<and>
      w_resp st = (if v_panic v then v_response v w else set_header ''Trailer:X-Broker-Status'' (final_outcome cfg v) (v_response v w)))"
    using assms(1) [unfolded Gate_def]
  proof (rule gate_loop_rule [where I = "looping (newRequestID rnd)"], goal_cases)
    case 1
    show ?case by (rule looping_init)
  next
    case (2 ob st st1)
    then show ?case by (rule looping_Again)
  next
    case (3 ob st st1)
    then show ?case using looping_Answered(2) by blast
  next
    case (4 ob st st1)
    let ?w = "set_header ''Trailer:X-Broker-Status'' ''served''
      (set_header ''X-Broker-Wait-Ms'' (itoa (milliseconds (waited st1))) (set_header ''X-Broker-Status'' ''served'' (w_resp st1)))"
    have "w_resp st1 = w_resp (gate_init (newRequestID rnd))"
      using 4 by (auto simp: looping_def gate_defs split: option.splits if_splits parkResult.splits)
    then have "opened cfg (newRequestID rnd) ?w" by (simp add: opened_def gate_init_def response_defs)
    then show ?case by (intro impI exI [of _ ?w]) (simp add: gate_serve_def gate_defs Let_def)
  qed
  then show thesis using assms(2) that by blast
qed

text \<open>
  C35. What a client of a proxied lane gets. For every request that reaches the upstream, whatever its
  connections did: if the transport ended without an answer because the call was cancelled or ran out of
  time, the client gets 503 with a Retry-After and the status \<^verbatim>\<open>deferred\<close>; on any other failure it gets 502;
  an answer is passed on with its code and its whole body, or with a prefix of it and an aborted
  connection; and the trailer says the outcome that is recorded whenever the copy came to its end. Every
  answer carries the request's id.
\<close>

theorem proxied_answer:
  assumes "Gate cfg rnd obs v = Some st" and "GServe \<in> set (g_trace st)" and "proxied hop cutAt net n b v"
  shows "(case fst (RoundTrip Transport net (proxy_request n b)) of
      (_, Some e) \<Rightarrow>
        status (w_resp st) = Some (if is_deferral e then 503 else 502) \<and> body (w_resp st) = [] \<and> \<not> v_panic v \<and>
        hdrs (w_resp st) ''X-Broker-Status'' = Some (if is_deferral e then ''deferred'' else ''served'') \<and>
        (is_deferral e \<longrightarrow> hdrs (w_resp st) ''Retry-After'' = Some ''1'')
    | (Some res, None) \<Rightarrow>
        status (w_resp st) = Some (ps_code res) \<and> hdrs (w_resp st) ''X-Broker-Status'' = Some ''served'' \<and>
        (if v_panic v then (\<exists>k. body (w_resp st) = take k (fst (ps_body res))) else body (w_resp st) = fst (ps_body res)) \<and>
        (v_panic v \<longleftrightarrow> snd (ps_body res) \<noteq> None \<or> cutAt \<noteq> None)
    | (None, None) \<Rightarrow> v_panic v) \<and>
    (\<not> v_panic v \<longrightarrow> hdrs (w_resp st) ''Trailer:X-Broker-Status'' = Some (final_outcome cfg v)) \<and>
    hdrs (w_resp st) ''X-Broker-Request-Id'' = Some (newRequestID rnd)"
proof -
  obtain w where w: "opened cfg (newRequestID rnd) w"
    "w_resp st = (if v_panic v then v_response v w else set_header ''Trailer:X-Broker-Status'' (final_outcome cfg v) (v_response v w))"
    by (rule served_response [OF assms(1,2)])
  obtain a er where r: "fst (RoundTrip Transport net (proxy_request n b)) = (a, er)" by fastforce
  have v: "v_response v w = fst (forward hop cutAt (a, er) w)" "v_panic v = snd (forward hop cutAt (a, er) empty_response)"
    using assms(3) r by (simp_all add: proxied_def proxy_ServeHTTP_def)
  note simps = w(2) v r errorHandler_def WriteUpstreamError_def is_deferral_def response_defs
  show ?thesis
  proof (cases er)
    case (Some e)
    then show ?thesis using w(1) by (cases a) (simp_all add: simps opened_def)
  next
    case None
    show ?thesis
    proof (cases a)
      case None
      then show ?thesis using w(1) \<open>er = None\<close> by (simp add: simps opened_def)
    next
      case (Some res)
      have "\<exists>k. copied cutAt res = take k (fst (ps_body res))"
        by (cases cutAt) (auto simp: copied_def intro: exI [of _ "length (fst (ps_body res))"])
      then show ?thesis using w(1) \<open>er = None\<close> Some
        by (auto simp: simps opened_def Let_def map_add_def copied_def)
    qed
  qed
qed

text \<open>An upstream that refuses its connections.\<close>

definition refusing :: "nat \<Rightarrow> proxy_answer rt_attempt" where
  "refusing i = \<lparr>a_ctxBefore = False, a_getBody = Inr ([], None), a_result = (None, Some (new_err ''refused'')), a_ctxAfter = False\<rparr>"

definition demo_proxied :: serve_obs where
  "demo_proxied = demo_serve\<lparr>v_response := (\<lambda>w. fst (proxy_ServeHTTP (\<lambda>h. h) None refusing 0 ([], None) w)),
     v_panic := snd (proxy_ServeHTTP (\<lambda>h. h) None refusing 0 ([], None) empty_response)\<rparr>"

lemma refusing_RoundTrip: "fst (RoundTrip Transport refusing (proxy_request 0 b)) = (None, Some (new_err ''refused''))"
proof -
  have "\<not> isRetryableConnError (new_err ''refused'')" by (simp add: isRetryableConnError_def new_err_def HasPrefix_def errors_Is_def)
  then show ?thesis
    by (simp add: RoundTrip_def proxy_request_def rt_loop.simps attempt_body_def refusing_def Transport_def Let_def)
qed

lemma refusing_not_deferral: "\<not> is_deferral (new_err ''refused'')"
  by (simp add: is_deferral_def new_err_def errors_Is_def)

theorem proxied_answer_witness:
  "\<exists>st. Gate demo_cfg None [demo_parked, demo_admitted] demo_proxied = Some st \<and> status (w_resp st) = Some 502 \<and>
     hdrs (w_resp st) ''X-Broker-Status'' = Some ''served''"
proof -
  obtain st where st: "Gate demo_cfg None [demo_parked, demo_admitted] demo_proxied = Some st" "GServe \<in> set (g_trace st)"
    by (simp add: Gate_def gate_init_def gate_serve_def gate_defs gate_demo_defs demo_proxied_def)
  have "proxied (\<lambda>h. h) None refusing 0 ([], None) demo_proxied" by (simp add: proxied_def demo_proxied_def)
  from proxied_answer [OF st this] show ?thesis using st refusing_RoundTrip refusing_not_deferral by auto
qed

text \<open>A client that was told 502 is tallied as served, and its trailer says so too.\<close>

lemma bad_gateway_counts_as_served:
  "\<exists>st. Gate demo_cfg None [demo_parked, demo_admitted] demo_proxied = Some st \<and> status (w_resp st) = Some 502 \<and>
     outcomes st = [''served''] \<and> hdrs (w_resp st) ''Trailer:X-Broker-Status'' = Some ''served''"
proof -
  have "proxy_ServeHTTP (\<lambda>h. h) None refusing 0 ([], None) w = (write_status 502 w, False)" for w
    using refusing_not_deferral
    by (simp add: proxy_ServeHTTP_def refusing_RoundTrip errorHandler_def WriteUpstreamError_def is_deferral_def)
  then show ?thesis
    by (simp add: Gate_def gate_init_def gate_serve_def gate_defs gate_demo_defs demo_proxied_def outcomes_def is_record_def response_defs final_outcome_def ctx_Err_def)
qed

end
