(* ===== verification/Job_Rows.thy ===== *)
theory Job_Rows
  imports Job_Store Config_Load "HOL-Library.Monad_Syntax"
begin

text \<open>
  \<^verbatim>\<open>internal/job/sqlite.go\<close> below the operations: opening the database, the columns of the table, what \<^verbatim>\<open>Submit\<close>
  inserts, and how a selected row becomes a Job. A row maps column names to values; \<^verbatim>\<open>INSERT\<close> and \<^verbatim>\<open>SELECT\<close>
  go by the lists of names in the code and \<^verbatim>\<open>Scan\<close> by position, so the lemmas show that the lists agree
  and that the table of Jobs of \<open>Job_Store\<close> is what the database holds.
\<close>

section \<open>Values and columns\<close>

datatype sql_value = SNull | SInt int | SText string

type_synonym sql_row = "string \<rightharpoonup> sql_value"

record column =
  cl_name :: string
  cl_notNull :: bool
  cl_default :: sql_value   \<comment> \<open>\<open>SNull\<close> where there is none\<close>

definition text_col :: "string \<Rightarrow> column" where
  "text_col c = \<lparr>cl_name = c, cl_notNull = True, cl_default = SText []\<rparr>"

definition needed_col :: "string \<Rightarrow> column" where
  "needed_col c = \<lparr>cl_name = c, cl_notNull = True, cl_default = SNull\<rparr>"

definition int_col :: "string \<Rightarrow> column" where
  "int_col c = \<lparr>cl_name = c, cl_notNull = True, cl_default = SInt 0\<rparr>"

definition null_col :: "string \<Rightarrow> column" where
  "null_col c = \<lparr>cl_name = c, cl_notNull = False, cl_default = SNull\<rparr>"

definition schema :: "column list" where
  "schema =
     [null_col ''id'', needed_col ''idempotency_key'', text_col ''source'', text_col ''owner'', needed_col ''state'',
      int_col ''attempts'', needed_col ''model'', text_col ''params_json'', text_col ''prompt'', text_col ''result'',
      text_col ''error'', int_col ''position_hint'', needed_col ''created_at'', null_col ''started_at'',
      null_col ''finished_at'', null_col ''fetched_at'']"

section \<open>Times\<close>

text \<open>\<^verbatim>\<open>UnixNano\<close> is an int64 and wraps; \<^verbatim>\<open>time.Unix(0, n)\<close> takes it back.\<close>

definition wrap64 :: "int \<Rightarrow> int" where
  "wrap64 n = (n + 2 ^ 63) mod 2 ^ 64 - 2 ^ 63"

definition UnixNano :: "instant \<Rightarrow> int" where
  "UnixNano t = wrap64 t"

definition time_Unix :: "int \<Rightarrow> int \<Rightarrow> instant" where
  "time_Unix sec nsec = sec * second + nsec"

definition nanoPtr :: "int option \<Rightarrow> instant option" where
  "nanoPtr n = (case n of None \<Rightarrow> None | Some k \<Rightarrow> Some (time_Unix 0 k))"

section \<open>Writing a row\<close>

definition insert_cols :: "string list" where
  "insert_cols =
     [''id'', ''idempotency_key'', ''source'', ''owner'', ''state'', ''attempts'', ''model'', ''params_json'', ''prompt'',
      ''result'', ''error'', ''position_hint'', ''created_at'']"

definition insert_values :: "Job \<Rightarrow> sql_value list" where
  "insert_values j =
     [SText (ID j), SText (IdempotencyKey j), SText (Source j), SText (Owner j), SText (State_string (JState j)),
      SInt (Attempts j), SText (Model j), SText (ParamsJSON j), SText (Prompt j), SText [], SText [],
      SInt (PositionHint j), SInt (UnixNano (CreatedAt j))]"

text \<open>An insert: columns that are not listed get their default; a null where none is allowed refuses it.\<close>

definition insert_row :: "string list \<Rightarrow> sql_value list \<Rightarrow> sql_row option" where
  "insert_row cols vals =
     (let v = (\<lambda>c. case map_of (zip cols vals) (cl_name c) of Some x \<Rightarrow> x | None \<Rightarrow> cl_default c)
      in if list_ex (\<lambda>c. cl_notNull c \<and> v c = SNull) schema then None
         else Some (map_of (map (\<lambda>c. (cl_name c, v c)) schema)))"

section \<open>Reading a row\<close>

definition selectCols :: "string list" where
  "selectCols =
     [''id'', ''idempotency_key'', ''source'', ''owner'', ''state'', ''attempts'', ''model'', ''params_json'', ''prompt'',
      ''result'', ''error'', ''position_hint'', ''created_at'', ''started_at'', ''finished_at'', ''fetched_at'']"

text \<open>The conversions of \<^verbatim>\<open>Scan\<close> into a string, an integer and a \<^verbatim>\<open>sql.NullInt64\<close>.\<close>

definition scan_text :: "sql_value \<Rightarrow> string option" where
  "scan_text v = (case v of SText s \<Rightarrow> Some s | SInt n \<Rightarrow> Some (itoa n) | SNull \<Rightarrow> None)"

definition scan_int :: "sql_value \<Rightarrow> int option" where
  "scan_int v = (case v of SInt n \<Rightarrow> Some n | SText s \<Rightarrow> Atoi s | SNull \<Rightarrow> None)"

definition scan_null_int :: "sql_value \<Rightarrow> int option option" where
  "scan_null_int v = (if v = SNull then Some None else map_option Some (scan_int v))"

text \<open>
  A scanned Job. The state is a string in the code and any text is accepted, so it is kept apart: the Job is
  given for each of the states there are.
\<close>

record scanned =
  sc_State :: string
  sc_Job :: "JobState \<Rightarrow> Job"

definition scan_vals :: "sql_value list \<Rightarrow> scanned option" where
  "scan_vals vals =
     (case vals of
        [v0, v1, v2, v3, v4, v5, v6, v7, v8, v9, v10, v11, v12, v13, v14, v15] \<Rightarrow>
          do {
            id \<leftarrow> scan_text v0; key \<leftarrow> scan_text v1; src \<leftarrow> scan_text v2; own \<leftarrow> scan_text v3;
            st \<leftarrow> scan_text v4; att \<leftarrow> scan_int v5; mdl \<leftarrow> scan_text v6; params \<leftarrow> scan_text v7;
            prompt \<leftarrow> scan_text v8; res \<leftarrow> scan_text v9; er \<leftarrow> scan_text v10; hint \<leftarrow> scan_int v11;
            created \<leftarrow> scan_int v12; started \<leftarrow> scan_null_int v13; finished \<leftarrow> scan_null_int v14;
            fetched \<leftarrow> scan_null_int v15;
            Some \<lparr>sc_State = st, sc_Job = \<lambda>s.
              \<lparr>ID = id, IdempotencyKey = key, Source = src, Owner = own, JState = s, Attempts = att, Model = mdl,
               ParamsJSON = params, Prompt = prompt, Result = res, JError = er, PositionHint = hint,
               CreatedAt = time_Unix 0 created, StartedAt = nanoPtr started, FinishedAt = nanoPtr finished,
               FetchedAt = nanoPtr fetched\<rparr>\<rparr>
          }
      | _ \<Rightarrow> None)"

definition scanRow :: "sql_row \<Rightarrow> err + scanned" where
  "scanRow row =
     (case those (map row selectCols) of
        None \<Rightarrow> Inl ErrDb
      | Some vals \<Rightarrow> (case scan_vals vals of None \<Rightarrow> Inl ErrDb | Some x \<Rightarrow> Inr x))"

section \<open>Opening the database\<close>

text \<open>\<open>opn\<close> and \<open>exec\<close> are the errors of \<^verbatim>\<open>sql.Open\<close> and of applying the schema; the counter names databases in memory.\<close>

definition data_source :: "string \<Rightarrow> int \<Rightarrow> string \<times> int" where
  "data_source path memSeq =
     (if path = '':memory:''
      then (''file:'' @ (''memdb'' @ itoa (memSeq + 1)) @ ''?mode=memory&cache=shared&_pragma=busy_timeout(5000)'', memSeq + 1)
      else (path @ ''?_pragma=busy_timeout(5000)&_pragma=journal_mode(WAL)&_pragma=foreign_keys(1)'', memSeq))"

definition OpenSQLite ::
  "(string \<Rightarrow> goerr option) \<Rightarrow> (string \<Rightarrow> goerr option) \<Rightarrow> string \<Rightarrow> int \<Rightarrow> (goerr + string) \<times> int" where
  "OpenSQLite opn exec path memSeq =
     (case data_source path memSeq of
        (dsn, seq) \<Rightarrow>
          ((case opn dsn of
              Some e \<Rightarrow> Inl e
            | None \<Rightarrow> (case exec dsn of Some e \<Rightarrow> Inl (wrap_err ''apply schema: '' e) | None \<Rightarrow> Inr dsn)), seq))"

section \<open>The table holds the Jobs\<close>

text \<open>The row that stands for a Job.\<close>

definition nano_value :: "instant option \<Rightarrow> sql_value" where
  "nano_value t = (case t of None \<Rightarrow> SNull | Some x \<Rightarrow> SInt (UnixNano x))"

definition job_row :: "Job \<Rightarrow> sql_row" where
  "job_row j = map_of (zip selectCols
     [SText (ID j), SText (IdempotencyKey j), SText (Source j), SText (Owner j), SText (State_string (JState j)),
      SInt (Attempts j), SText (Model j), SText (ParamsJSON j), SText (Prompt j), SText (Result j), SText (JError j),
      SInt (PositionHint j), SInt (UnixNano (CreatedAt j)), nano_value (StartedAt j), nano_value (FinishedAt j),
      nano_value (FetchedAt j)])"

definition int64_time :: "instant \<Rightarrow> bool" where
  "int64_time t \<longleftrightarrow> - maxInt64 - 1 \<le> t \<and> t \<le> maxInt64"

definition times_fit :: "Job \<Rightarrow> bool" where
  "times_fit j \<longleftrightarrow> int64_time (CreatedAt j) \<and> list_all (\<lambda>t. case t of None \<Rightarrow> True | Some x \<Rightarrow> int64_time x) [StartedAt j, FinishedAt j, FetchedAt j]"

lemma UnixNano_fits: "int64_time t \<Longrightarrow> UnixNano t = t"
  by (simp add: int64_time_def UnixNano_def wrap64_def maxInt64_def)

lemma nano_back:
  assumes "case t of None \<Rightarrow> True | Some x \<Rightarrow> int64_time x"
  shows "\<exists>k. scan_null_int (nano_value t) = Some k \<and> nanoPtr k = t"
  using assms by (cases t) (simp_all add: scan_null_int_def scan_int_def nano_value_def nanoPtr_def time_Unix_def UnixNano_fits)

lemma State_string_inj: "State_string s = State_string s' \<longleftrightarrow> s = s'"
  by (cases s; cases s') (simp_all add: State_string_def)

lemma job_row_scans:
  assumes "times_fit j"
  shows "scanRow (job_row j) = Inr \<lparr>sc_State = State_string (JState j), sc_Job = \<lambda>s. j\<lparr>JState := s\<rparr>\<rparr>"
proof -
  obtain k1 k2 k3 where k: "scan_null_int (nano_value (StartedAt j)) = Some k1" "nanoPtr k1 = StartedAt j"
    "scan_null_int (nano_value (FinishedAt j)) = Some k2" "nanoPtr k2 = FinishedAt j"
    "scan_null_int (nano_value (FetchedAt j)) = Some k3" "nanoPtr k3 = FetchedAt j"
    using assms nano_back[of "StartedAt j"] nano_back[of "FinishedAt j"] nano_back[of "FetchedAt j"]
    by (simp add: times_fit_def) blast
  have "int64_time (CreatedAt j)" using assms by (simp add: times_fit_def)
  then show ?thesis
    using k by (simp add: scanRow_def job_row_def selectCols_def scan_vals_def scan_text_def scan_int_def time_Unix_def UnixNano_fits)
      (cases j, simp)
qed

lemma insert_is_job_row:
  assumes "Result j = []" and "JError j = []" and "StartedAt j = None" and "FinishedAt j = None" and "FetchedAt j = None"
  shows "insert_row insert_cols (insert_values j) = Some (job_row j)"
  using assms
  by (simp add: insert_row_def insert_cols_def insert_values_def job_row_def selectCols_def schema_def nano_value_def
      text_col_def needed_col_def int_col_def null_col_def)

text \<open>
  The list of Jobs of \<open>Job_Store\<close> is what the database holds: the row \<^verbatim>\<open>Submit\<close> inserts is the row of the Job it
  adds to the list, and scanning the row of any Job whose times an int64 of nanoseconds can hold returns
  that Job and no other, every field in its place.
\<close>

theorem table_rows_faithful:
  "(Submit ok now j t = (Inr (j', True), t') \<longrightarrow>
      (\<exists>r. t' = t @ [r] \<and> insert_row insert_cols (insert_values j') = Some (job_row r))) \<and>
   (times_fit x \<longrightarrow> (\<exists>c. scanRow (job_row x) = Inr c \<and> sc_Job c (JState x) = x \<and>
      (\<forall>s. sc_State c = State_string s \<longleftrightarrow> s = JState x)))"
proof (intro conjI impI)
  assume sub: "Submit ok now j t = (Inr (j', True), t')"
  let ?r = "j'\<lparr>Result := [], JError := [], StartedAt := None, FinishedAt := None, FetchedAt := None\<rparr>"
  have "t' = t @ [?r]" using sub by (auto simp: Submit_def Let_def split: if_splits sum.splits)
  moreover have "insert_values j' = insert_values ?r" by (simp add: insert_values_def)
  ultimately show "\<exists>r. t' = t @ [r] \<and> insert_row insert_cols (insert_values j') = Some (job_row r)"
    using insert_is_job_row[of ?r] by simp
qed (auto simp: job_row_scans State_string_inj)

text \<open>A creation time that was never set would not survive: the zero time is out of range, and \<^verbatim>\<open>Submit\<close> replaces it.\<close>

lemma zero_time_lost: "UnixNano zeroTime \<noteq> zeroTime"
  by (simp add: UnixNano_def wrap64_def zeroTime_def time_units)

text \<open>Two stores in memory never share a database.\<close>

lemma digit_val: "d < 10 \<Longrightarrow> of_char (digit d) = 48 + d"
  unfolding digit_def by simp

lemma nat_str_inj: "nat_str m = nat_str n \<Longrightarrow> m = n"
proof (induction m arbitrary: n rule: nat_str.induct)
  case (1 m)
  have last: "of_char (last (nat_str k)) = 48 + k mod 10" for k
    by (subst nat_str.simps) (simp add: digit_val)
  have "48 + m mod 10 = 48 + n mod 10" using "1.prems" last by metis
  then have dig: "m mod 10 = n mod 10" by simp
  have short: "length (nat_str k) = 1 \<longleftrightarrow> k < 10" for k
    by (subst nat_str.simps) (auto simp: nat_str.simps[of "k div 10"])
  have lt: "m < 10 \<longleftrightarrow> n < 10" using short "1.prems" by metis
  show ?case
  proof (cases "m < 10")
    case True
    then show ?thesis using lt dig by simp
  next
    case False
    then have "nat_str (m div 10) = nat_str (n div 10)"
      using "1.prems" lt nat_str.simps[of m] nat_str.simps[of n] by simp
    then have "m div 10 = n div 10" using "1.IH" False by simp
    then show ?thesis using dig by (metis div_mult_mod_eq)
  qed
qed

theorem memory_stores_apart:
  assumes "0 \<le> a" and "0 \<le> b" and "OpenSQLite opn exec '':memory:'' a = (Inr d, a')"
    and "OpenSQLite opn exec '':memory:'' b = (Inr d, b')"
  shows "a = b"
proof -
  have "itoa (a + 1) = itoa (b + 1)"
    using assms(3,4) by (auto simp: OpenSQLite_def data_source_def split: option.splits)
  then have "nat (a + 1) = nat (b + 1)" using assms(1,2) nat_str_inj by (simp add: itoa_def)
  then show ?thesis using assms(1,2) by simp
qed

end
