(* ===== verification/Spec2Isabelle.thy ===== *)
theory Spec2Isabelle
  imports Broker_Main Broker_Shutdown Gate_System Proxy_Lane Job_Rows
begin

text \<open>
  \<^bold>\<open>The resource broker.\<close> The broker stands between clients and a local inference server and rations one
  GPU. A request enters through the gate (\<^verbatim>\<open>internal/queue/gate.go\<close>), which asks the yield controller
  (\<^verbatim>\<open>internal/yield\<close>) whether the GPU is given up to a game or a player, may park the request
  (\<^verbatim>\<open>internal/queue/park.go\<close>), takes a slot of the scheduler (\<^verbatim>\<open>internal/queue/scheduler.go\<close>) and calls the
  router (\<^verbatim>\<open>internal/backend\<close>), which picks a backend by model and lane. The backends forward to Ollama
  (\<^verbatim>\<open>internal/proxy\<close>, \<^verbatim>\<open>internal/ollama\<close>) or translate to an OpenAI-compatible server
  (\<^verbatim>\<open>internal/openaicompat\<close>). Durable Jobs (\<^verbatim>\<open>internal/job\<close>) are submitted over HTTP, kept in SQLite, run one
  at a time by a worker that takes a slot of the same scheduler and obeys the same yield controller, and
  report through an event bus. The detector (\<^verbatim>\<open>internal/detect\<close>, \<^verbatim>\<open>internal/plex\<close>) reads the process table for
  the yield controller; the calendar (\<^verbatim>\<open>internal/schedule\<close>) and the yield controller pause the transcoder
  (\<^verbatim>\<open>internal/tdarr\<close>). The control plane (\<^verbatim>\<open>internal/admin\<close>) shows and changes the state, \<^verbatim>\<open>internal/metrics\<close>
  counts. \<^verbatim>\<open>internal/config\<close> reads the environment and \<^verbatim>\<open>cmd/broker/main.go\<close> wires everything.

  \<^bold>\<open>Which theory models what.\<close>
  \<^item> \<open>Broker_Prelude\<close>: durations, strings, errors, responses, channels as addresses with a set of closed
    ones, the splice idiom of the queues, and the two contracts (\<open>event_system\<close>, \<open>step_system\<close>) that every
    component with state is checked against.
  \<^item> \<open>Queue_Scheduler\<close>, \<open>Queue_Park\<close>, \<open>Queue_Gate\<close>: the structs \<^verbatim>\<open>Scheduler\<close> and \<^verbatim>\<open>parker\<close> are records,
    every method is one definition, goroutines are the entries of a system state, and the sections under
    the mutex are the events. \<^verbatim>\<open>Gate\<close> is translated as a whole over a list of observations, one for each trip
    of its loop.
  \<^item> \<open>Gate_System\<close>: any number of gated requests, the scheduler, the yield controller and the Job worker as one
    event system. A request takes the steps at which it meets the others, and the definitions of \<open>Queue_Gate\<close>
    decide where it goes.
  \<^item> \<open>Yield_Controller\<close>, \<open>Yield_System\<close>, \<open>Yield_Properties\<close>: the \<^verbatim>\<open>Controller\<close> struct and its operations; the
    system interleaves mutex sections, single atomic operations, and starts and ends of unloader calls.
  \<^item> \<open>Contention_Detect\<close>, \<open>Contention_Yield\<close>: the rules with their regular expressions as functions on strings,
    the detector, the reading of \<^verbatim>\<open>/proc\<close> and the Plex session check; and the detector under the yield
    controller.
  \<^item> \<open>Compute_Schedule\<close>: the calendar, the Tdarr client and the loop of \<^verbatim>\<open>main.go\<close> that joins them.
  \<^item> \<open>Job_Store\<close>, \<open>Job_Line\<close>, \<open>Job_Store_Properties\<close>, \<open>Job_Rows\<close>: the table is a list of rows, every method of
    \<^verbatim>\<open>SQLiteStore\<close> an operation on it; an argument tells which of its database calls fail. \<open>Job_Line\<close> relates
    the table to the line of waiting Jobs, \<open>Job_Rows\<close> relates it to the columns that are inserted and scanned.
  \<^item> \<open>Job_Events\<close>, \<open>Job_Service\<close>, \<open>Job_Worker\<close>, \<open>Job_Worker_Inv\<close>, \<open>Job_Worker_Properties\<close>: the bus, the
    service, and the worker with its monitor goroutine, interleaved with API calls, yields, shutdown and
    restart.
  \<^item> \<open>Job_Api\<close>: the HTTP handlers over the service and the event stream as a list of frames.
  \<^item> \<open>Config_Load\<close>, \<open>Config_Properties\<close>: \<^verbatim>\<open>config.Load\<close> over an environment, with every error as a value.
  \<^item> \<open>Upstream_Proxy\<close>, \<open>Proxy_Lane\<close>: the retrying transport, the rewrites of both proxies, the error responses
    and what \<^verbatim>\<open>httputil.ReverseProxy\<close> does with them; and the gate around a proxy.
  \<^item> \<open>Line_Scanner\<close>, \<open>OpenAI_Stream\<close>, \<open>OpenAI_Handler\<close>, \<open>Ollama_Client\<close>: \<^verbatim>\<open>bufio.Scanner\<close> with its limit, the
    SSE parser on bytes, the client and the translating handler, and the Ollama client with its NDJSON parser.
  \<^item> \<open>Backend_Router\<close>, \<open>Backend_Calls\<close>, \<open>Broker_Wiring\<close>: the backends, the router, the calls of both families,
    \<^verbatim>\<open>buildRoutes\<close> and \<^verbatim>\<open>buildBroker\<close>.
  \<^item> \<open>Control_Plane\<close>, \<open>Metrics_Registry\<close>: the routes of \<^verbatim>\<open>admin.Mux\<close> with the health check, and the counters
    with the text they are rendered to.
  \<^item> \<open>Broker_Main\<close>, \<open>Broker_Shutdown\<close>: \<^verbatim>\<open>main\<close> up to the point where it listens, as a function to the parts it
    builds, and its servers, listeners and graceful shutdown as a step relation.
  \<^item> This theory: the broker that \<^verbatim>\<open>main\<close> builds as a start of the system of \<open>Gate_System\<close>.

  \<^bold>\<open>What the lemmas show.\<close>
  \<^item> The whole (C1): in the broker that \<^verbatim>\<open>main\<close> builds from any configuration, however its parts interleave, the
    GPU is never shared, a yield cancels what is in progress, and a request that is over holds nothing.
  \<^item> Scheduling (C2 to C9): slots are never oversubscribed, no wakeup is lost, the two queues are one
    priority line, parking loses nothing, a gated request never leaks its slot and is refused as
    documented, and the admission loop ends.
  \<^item> Yielding (C10 to C15): when the processes make the broker yield, the abort of requests in flight, order
    and progress of the unloader calls, and the idle unload, under every interleaving.
  \<^item> Jobs (C16 to C28): the table's invariant and the line it implements, the lifecycle, the bound on
    attempts, round trips, the event bus, one Job at a time, true terminal events, attempts and aborts only
    for their reasons, and the answers of the API on every path.
  \<^item> Configuration and wiring (C29, C30): what a loaded configuration guarantees, and that the broker
    built from it reaches the configured backend.
  \<^item> Upstreams (C31 to C36): the SSE round trip, streaming against buffering, the order of embeddings,
    the bound on retries, what a client of a proxied lane gets, and that a Job never stores a truncated text.
  \<^item> Operation (C37 to C40): exact request metrics, who may change the mode, the broker as it starts, and
    that it always stops.

  Beside these the theories prove, among others, that draining is complete and in order, that the k-th waiter
  is granted by the k-th release, the outcome of an admitted request, that no park setting keeps the broker from
  starting, where the proxies send a request, the shape of an event stream, the exact idle check, that the rows of the
  database stand for the Jobs, that a polled detector is healthy, and that the Tdarr loop follows the calendar.

  \<^bold>\<open>Interfaces.\<close> \<open>event_system\<close> and \<open>step_system\<close> give invariants of runs from invariants of steps and are
  interpreted for the scheduler, the park queue, the yield controller, the system of requests, the event bus, the
  Job store, the Job system and the shutdown; an event system is a step system by a sublocale.
  \<open>priority_line\<close> is the contract of the two class queues, \<open>claim_queue\<close> the one of
  the Job table as a queue, \<open>admission\<close> what the gate and the worker rely on of the yield controller,
  \<open>stream_client\<close> what the backends rely on of a parser of streams, interpreted for SSE and for NDJSON.

  \<^bold>\<open>Bounds and parameters.\<close> Loops of the code are structural recursion or have a measure; no fuel is used.
  Where the code waits on the outside (the gate's loop, the scan of a stream, a retry, a ticker) the model
  reads a list or a sequence of observations, so every behaviour of the outside is covered, and returning is
  proved (C9, C34, C40). Durations and counters are integers; the places where the width of int64 shows are
  written out (\<open>Broker_Prelude\<close>, the nanoseconds of \<open>Job_Rows\<close>), and \<^verbatim>\<open>strconv.Atoi\<close> has its range. An event
  channel holds 16 events, a line of SSE is below 4 MiB and one of NDJSON below 1 MiB, as in the code. Arguments
  without assumptions stand for \<^verbatim>\<open>url.Parse\<close>, \<^verbatim>\<open>time.ParseDuration\<close>, the JSON and XML codecs, \<^verbatim>\<open>net.ParseIP\<close>,
  random bytes, the clock, floating-point sums, the failures of the database driver, \<^verbatim>\<open>systemctl\<close>, the HTTP
  client and what an upstream answers.

  \<^bold>\<open>Not modelled.\<close> Logging. \<^verbatim>\<open>httputil.ReverseProxy\<close> beyond what a lane relies on, so no protocol upgrade and no
  informational answers. What \<^verbatim>\<open>http.Server\<close> does with the timeouts \<^verbatim>\<open>newServer\<close> sets. The SQL engine, beyond what the
  statements of the store do. How the clients join a base URL and a path, which is left to the HTTP client.
  Draining of response bodies, which only matters for reuse of connections. In the system of requests the
  result of parking is arbitrary; the park queue is treated by itself in \<open>Queue_Park\<close>.
\<close>

section \<open>The broker that main starts\<close>

text \<open>
  The state in which the goroutines of the started broker begin: the GPU scheduler and the yield controller
  that \<^verbatim>\<open>main\<close> built, nobody in the scheduler and no request under way.
\<close>

definition serving :: "system \<Rightarrow> gsys \<Rightarrow> bool" where
  "serving sy S \<longleftrightarrow> gs S = \<lparr>sch = sy_gpu sy, hp = empty_heap, pcs = (\<lambda>_. Outside), panicked = False\<rparr> \<and>
     yield_start (gy S) \<and> ctl (gy S) = sy_ctrl sy \<and> rq S = (\<lambda>_. None)"

lemma main_gpu_sched:
  assumes "Load pu pd env = Inr c" and "main_start pu pd env now cx ctx db ok = Some (Inr sy)"
  shows "sy_gpu sy = lane_sched c (MaxInflight c) ctx"
  using assms
  by (auto simp: main_start_def Let_def split: sum.splits option.splits prod.splits if_splits)

lemma main_controller:
  assumes "main_start pu pd env now empty_heap ctx db ok = Some (Inr sy)"
  shows "\<exists>cx. yield_start (yield_init (sy_ctrl sy) cx)"
proof -
  obtain c be br where br: "buildBroker c be now empty_heap = Some (Inr br)"
    "sy_ctrl sy = (if main_tdarr c \<noteq> None then SetGPUManager True (br_ctrl br) else br_ctrl br)"
    using assms by (auto simp: main_start_def Let_def split: sum.splits option.splits prod.splits if_splits)
  show ?thesis unfolding br(2) by (rule main_controller_starts [OF br(1)])
qed

lemma serving_exists:
  assumes "main_start pu pd env now empty_heap ctx db ok = Some (Inr sy)"
  obtains S where "serving sy S" and "lk (gy S) = LFree"
proof -
  obtain cx where cx: "yield_start (yield_init (sy_ctrl sy) cx)" using main_controller [OF assms] by blast
  let ?S = "\<lparr>gy = yield_init (sy_ctrl sy) cx, gs = \<lparr>sch = sy_gpu sy, hp = empty_heap, pcs = (\<lambda>_. Outside), panicked = False\<rparr>, rq = (\<lambda>_. None)\<rparr>"
  have "serving sy ?S" "lk (gy ?S) = LFree" using cx by (simp_all add: serving_def yield_init_def)
  then show thesis by (rule that)
qed

lemma serving_start:
  assumes "Load pu pd env = Inr c" and "main_start pu pd env now cx ctx db ok = Some (Inr sy)" and "serving sy S"
  shows "gsys_start (MaxInflight c) S"
proof -
  have "gs S = (sched_start (MaxWaiters c) (MaxInflight c))\<lparr>sch := SetShutdownContext (Some ctx)
      (SetParkConfig (ParkHold c) (ParkMaxQueue c) (ParkDrainBurst c) (sch (sched_start (MaxWaiters c) (MaxInflight c))))\<rparr>"
    using assms(3) by (simp add: serving_def main_gpu_sched [OF assms(1,2)] lane_sched_def sched_start_def)
  then have "\<exists>maxw hld mq burst sd. gs S = (sched_start maxw (MaxInflight c))\<lparr>sch :=
      SetShutdownContext sd (SetParkConfig hld mq burst (sch (sched_start maxw (MaxInflight c))))\<rparr>" by blast
  then show ?thesis using assms(3) by (simp only: gsys_start_def serving_def simp_thms)
qed

lemma loaded_slots: "Load pu pd env = Inr c \<Longrightarrow> 1 \<le> MaxInflight c"
  using loaded_config [of pu pd env c] by (simp add: core_ok_def)

text \<open>The lanes that \<^verbatim>\<open>main\<close> built are what its servers listen for, beside the control plane.\<close>

lemma lanes_are_served:
  assumes "Load pu pd env = Inr c" and "main_start pu pd env now cx ctx db ok = Some (Inr sy)"
  shows "map (\<lambda>l. (ln_Addr l, ln_KeepAlives l)) (sy_lanes sy) =
     map (\<lambda>v. (sv_Addr v, sv_KeepAlives v)) (take 2 (servers c) @ drop 3 (servers c))"
    and "\<forall>v\<in>set (servers c). sv_WriteTimeout v = 0 \<and> sv_IdleTimeout v = 0"
  using assms
  by (auto simp: main_start_def Let_def servers_def newServer_def interactive_lane_def batch_lane_def embed_lane_def
      split: sum.splits option.splits prod.splits if_splits)


text \<open>One request of the interactive lane reaches its upstream call in the broker of the demo configuration.\<close>

lemma not_yielding_at_start:
  assumes "yield_start Y"
  shows "\<not> fst (Yielding (ctl Y))"
proof -
  obtain us lbls itv np now ds m c c' cx where y:
    "NewWithConfirmMulti us lbls itv np now empty_heap = (c, cx)" "ConfigureIdle ds c = Some c'" "Y = yield_init (SetGPUManager m c') cx"
    using assms unfolding yield_start_def by blast
  have "mode c = ModeAuto" "\<not> autoContended c"
    using y(1) by (auto simp: NewWithConfirmMulti_def make_chan_def split: prod.splits)
  then have "mode c' = ModeAuto" "\<not> autoContended c'" using y(2) by (auto simp: ConfigureIdle_def split: if_splits)
  then show ?thesis by (simp add: y(3) yield_init_def SetGPUManager_def Yielding_def computeLocked_def)
qed

lemma first_request_served:
  assumes "serving sy S" and "lk (gy S) = LFree" and "inflight (sy_gpu sy) < maxInflight (sy_gpu sy)"
    and "iq (sy_gpu sy) = []" and "bq (sy_gpu sy) = []"
  shows "\<exists>S'. run_events gsys_exec [RArrive 0 cfg None, RCheck 0 1, REnter 0 2, RRecheck 0, RServe 0] S = Some S' \<and> 0 \<in> in_upstream S'"
proof -
  have "\<not> fst (Yielding (ctl (gy S)))" using assms(1) not_yielding_at_start [of "gy S"] by (auto simp: serving_def)
  then obtain r where y: "Yielding (ctl (gy S)) = (False, r)" by (cases "Yielding (ctl (gy S))") auto
  show ?thesis using assms y
    by (simp add: serving_def at_pc_def via_sched_def look_def Acquire_def put_req_def arrive_def end_trip_def gate_trip_def no_obs_def
        in_upstream_def broker_defs Let_def)
qed


end
